(* ===== verification/Frs_Prelude.thy ===== *)
theory Frs_Prelude
  imports Main "HOL-Library.Word" "HOL-Library.Sublist"
begin

text \<open>
  Shared ground of the development: the machine types, the operations of
  \<^verbatim>\<open>std::string\<close> and \<^verbatim>\<open><cctype>\<close> that the sources call, and generic facts about
  lists that every component uses.  A C++ \<^verbatim>\<open>char\<close> is an 8-bit \<^typ>\<open>char\<close>, a
  \<^verbatim>\<open>std::string\<close> a \<^typ>\<open>string\<close>; \<^verbatim>\<open>std::string::npos\<close> is \<^const>\<open>None\<close>.
\<close>

named_theorems str_simps \<open>unfolding rules of the string library\<close>
named_theorems len_simps \<open>length equations of the components\<close>

unbundle bit_operations_syntax

type_synonym u8 = "8 word"
type_synonym u32 = "32 word"
type_synonym u64 = "64 word"

section \<open>Characters\<close>

abbreviation CR :: char where "CR \<equiv> CHR 0x0D"
abbreviation LF :: char where "LF \<equiv> CHR 0x0A"
abbreviation TAB :: char where "TAB \<equiv> CHR 0x09"
abbreviation SP :: char where "SP \<equiv> CHR 0x20"
abbreviation NUL :: char where "NUL \<equiv> CHR 0x00"
abbreviation DQUOTE :: char where "DQUOTE \<equiv> CHR 0x22"

abbreviation CRLF :: string where "CRLF \<equiv> [CR, LF]"

abbreviation ord :: "char \<Rightarrow> nat" where "ord c \<equiv> of_char c"

text \<open>\<^verbatim>\<open>isdigit\<close>, \<^verbatim>\<open>isalnum\<close>, \<^verbatim>\<open>tolower\<close> and \<^verbatim>\<open>toupper\<close> in the C locale.\<close>

definition c_isdigit :: "char \<Rightarrow> bool" where
  "c_isdigit c \<longleftrightarrow> 48 \<le> ord c \<and> ord c \<le> 57"

definition c_isupper :: "char \<Rightarrow> bool" where
  "c_isupper c \<longleftrightarrow> 65 \<le> ord c \<and> ord c \<le> 90"

definition c_islower :: "char \<Rightarrow> bool" where
  "c_islower c \<longleftrightarrow> 97 \<le> ord c \<and> ord c \<le> 122"

definition c_isalnum :: "char \<Rightarrow> bool" where
  "c_isalnum c \<longleftrightarrow> c_isdigit c \<or> c_isupper c \<or> c_islower c"

definition c_tolower :: "char \<Rightarrow> char" where
  "c_tolower c = (if c_isupper c then char_of (ord c + 32) else c)"

definition c_toupper :: "char \<Rightarrow> char" where
  "c_toupper c = (if c_islower c then char_of (ord c - 32) else c)"

text \<open>The white space that \<^verbatim>\<open>isspace\<close> skips.\<close>

definition c_isspace :: "char \<Rightarrow> bool" where
  "c_isspace c \<longleftrightarrow> ord c = 32 \<or> (9 \<le> ord c \<and> ord c \<le> 13)"

section \<open>Searching and cutting strings\<close>

text \<open>The first position at or after \<open>pos\<close> whose character satisfies \<open>P\<close>:
  \<^verbatim>\<open>find(c, pos)\<close>, \<^verbatim>\<open>find_first_of\<close> and \<^verbatim>\<open>find_first_not_of\<close> are instances.\<close>

definition find_first :: "('a \<Rightarrow> bool) \<Rightarrow> 'a list \<Rightarrow> nat \<Rightarrow> nat option" where
  "find_first P s pos =
     (let n = pos + length (takeWhile (\<lambda>c. \<not> P c) (drop pos s))
      in if n < length s then Some n else None)"

text \<open>The last such position: \<^verbatim>\<open>find_last_of\<close> and \<^verbatim>\<open>find_last_not_of\<close>.\<close>

definition find_last :: "('a \<Rightarrow> bool) \<Rightarrow> 'a list \<Rightarrow> nat option" where
  "find_last P s =
     (let n = length (takeWhile (\<lambda>c. \<not> P c) (rev s))
      in if n < length s then Some (length s - Suc n) else None)"

text \<open>\<^verbatim>\<open>find(pat, pos)\<close>: the first position at or after \<open>pos\<close> where \<open>pat\<close> starts.\<close>

fun find_sub_from :: "'a list \<Rightarrow> 'a list \<Rightarrow> nat \<Rightarrow> nat option" where
  "find_sub_from pat [] i = (if pat = [] then Some i else None)"
| "find_sub_from pat (c # cs) i =
     (if prefix pat (c # cs) then Some i else find_sub_from pat cs (Suc i))"

definition find_sub :: "'a list \<Rightarrow> 'a list \<Rightarrow> nat \<Rightarrow> nat option" where
  "find_sub s pat pos =
     (if pos \<le> length s then find_sub_from pat (drop pos s) pos else None)"

text \<open>\<^verbatim>\<open>substr(pos, n)\<close> for \<open>pos\<close> within the string.\<close>

definition substr :: "'a list \<Rightarrow> nat \<Rightarrow> nat \<Rightarrow> 'a list" where
  "substr s pos n = take n (drop pos s)"

text \<open>The view of a buffer as a C string: everything before the first NUL.\<close>

definition c_str :: "string \<Rightarrow> string" where
  "c_str s = takeWhile (\<lambda>c. c \<noteq> NUL) s"

section \<open>Facts about searching\<close>

lemma find_first_Some_iff:
  "find_first P s pos = Some i \<longleftrightarrow>
     pos \<le> i \<and> i < length s \<and> P (s ! i) \<and> (\<forall>j. pos \<le> j \<and> j < i \<longrightarrow> \<not> P (s ! j))"
    (is "?L \<longleftrightarrow> ?R")
proof
  let ?n = "length (takeWhile (\<lambda>c. \<not> P c) (drop pos s))"
  assume ?L
  then have i: "i = pos + ?n" and lt: "i < length s"
    by (auto simp: find_first_def Let_def split: if_splits)
  have "P (drop pos s ! ?n)"
    using nth_length_takeWhile [of "\<lambda>c. \<not> P c" "drop pos s"] i lt by auto
  then have "P (s ! i)" using i lt by simp
  moreover have "\<not> P (s ! j)" if "pos \<le> j" "j < i" for j
  proof -
    have "j - pos < ?n" using that i by simp
    then have "\<not> P (takeWhile (\<lambda>c. \<not> P c) (drop pos s) ! (j - pos))"
      using nth_mem set_takeWhileD by metis
    then show ?thesis using \<open>j - pos < ?n\<close> that lt
      by (simp add: takeWhile_nth)
  qed
  ultimately show ?R using i lt by auto
next
  assume R: ?R
  have "takeWhile (\<lambda>c. \<not> P c) (drop pos s) = take (i - pos) (drop pos s)"
    using R by (intro takeWhile_eq_take_P_nth) auto
  moreover have "length (take (i - pos) (drop pos s)) = i - pos"
    using R by (simp add: min_def) linarith
  ultimately show ?L using R by (simp add: find_first_def Let_def)
qed

lemma find_first_None_iff:
  "find_first P s pos = None \<longleftrightarrow> (\<forall>j. pos \<le> j \<and> j < length s \<longrightarrow> \<not> P (s ! j))"
proof (cases "find_first P s pos")
  case None
  have "\<not> P (s ! j)" if "pos \<le> j" "j < length s" for j
  proof -
    have len: "length (takeWhile (\<lambda>c. \<not> P c) (drop pos s)) = length (drop pos s)"
      using None that length_takeWhile_le [of "\<lambda>c. \<not> P c" "drop pos s"]
      by (auto simp: find_first_def Let_def split: if_splits)
    then have "takeWhile (\<lambda>c. \<not> P c) (drop pos s) = drop pos s"
      by (metis takeWhile_eq_take take_all order_refl)
    then have "\<forall>x \<in> set (drop pos s). \<not> P x" by (simp add: takeWhile_eq_all_conv)
    moreover have "s ! j \<in> set (drop pos s)"
      using that by (intro in_set_conv_nth [THEN iffD2] exI [of _ "j - pos"]) auto
    ultimately show ?thesis by blast
  qed
  then show ?thesis using None by simp
next
  case (Some i)
  then show ?thesis unfolding find_first_Some_iff by (metis Some option.distinct(1))
qed

lemma find_first_bounds: "find_first P s pos = Some i \<Longrightarrow> pos \<le> i \<and> i < length s"
  by (simp add: find_first_Some_iff)

lemma find_sub_from_Some:
  "find_sub_from pat s k = Some i \<Longrightarrow>
     k \<le> i \<and> i - k + length pat \<le> length s \<and> prefix pat (drop (i - k) s)"
proof (induction pat s k rule: find_sub_from.induct)
  case (2 pat c cs k)
  show ?case
  proof (cases "prefix pat (c # cs)")
    case True
    with 2 show ?thesis by (auto dest: prefix_length_le)
  next
    case False
    with 2 have "Suc k \<le> i \<and> i - Suc k + length pat \<le> length cs \<and>
      prefix pat (drop (i - Suc k) cs)" by auto
    moreover from this have "drop (i - k) (c # cs) = drop (i - Suc k) cs"
      by (metis Suc_diff_Suc Suc_le_lessD drop_Suc_Cons)
    ultimately show ?thesis by auto
  qed
qed (auto split: if_splits)

lemma find_sub_from_first:
  "find_sub_from pat s k = Some i \<Longrightarrow> j < i - k \<Longrightarrow> \<not> prefix pat (drop j s)"
proof (induction pat s k arbitrary: j rule: find_sub_from.induct)
  case (2 pat c cs k)
  then show ?case by (cases j) (auto split: if_splits)
qed (auto split: if_splits)

lemma find_sub_from_None:
  "find_sub_from pat s k = None \<Longrightarrow> j \<le> length s \<Longrightarrow> \<not> prefix pat (drop j s)"
proof (induction pat s k arbitrary: j rule: find_sub_from.induct)
  case (2 pat c cs k)
  then show ?case by (cases j) (auto split: if_splits)
qed (auto split: if_splits)

lemma find_sub_Some:
  assumes "find_sub s pat pos = Some i"
  shows "pos \<le> i" "i + length pat \<le> length s" "prefix pat (drop i s)"
proof -
  from assms have le: "pos \<le> length s" and f: "find_sub_from pat (drop pos s) pos = Some i"
    by (auto simp: find_sub_def split: if_splits)
  from find_sub_from_Some [OF f] le
  show "pos \<le> i" "i + length pat \<le> length s" "prefix pat (drop i s)" by auto
qed

lemma find_sub_first:
  assumes "find_sub s pat pos = Some i" and "pos \<le> j" "j < i"
  shows "\<not> prefix pat (drop j s)"
proof -
  from assms(1) have "find_sub_from pat (drop pos s) pos = Some i"
    by (auto simp: find_sub_def split: if_splits)
  from find_sub_from_first [OF this, of "j - pos"] assms(2,3) show ?thesis by simp
qed

lemma find_sub_None:
  assumes "find_sub s pat pos = None" and "pos \<le> j" "j \<le> length s"
  shows "\<not> prefix pat (drop j s)"
proof -
  from assms have "find_sub_from pat (drop pos s) pos = None"
    by (auto simp: find_sub_def split: if_splits)
  from find_sub_from_None [OF this, of "j - pos"] assms(2,3) show ?thesis by simp
qed

lemma find_sub_SomeI:
  assumes "pos \<le> i" "i \<le> length s" "prefix pat (drop i s)"
    and "\<And>j. pos \<le> j \<Longrightarrow> j < i \<Longrightarrow> \<not> prefix pat (drop j s)"
  shows "find_sub s pat pos = Some i"
proof (cases "find_sub s pat pos")
  case None
  from find_sub_None [OF this assms(1,2)] assms(3) show ?thesis by simp
next
  case (Some k)
  have "\<not> k < i" using assms(4) find_sub_Some [OF Some] by blast
  moreover have "\<not> i < k" using find_sub_first [OF Some assms(1)] assms(3) by blast
  ultimately show ?thesis using Some by simp
qed

lemma substr_length [simp]: "length (substr s pos n) = min n (length s - pos)"
  by (simp add: substr_def)

lemma substr_all [simp]: "length s \<le> n \<Longrightarrow> substr s 0 n = s"
  by (simp add: substr_def)

lemma c_str_id [simp]: "NUL \<notin> set s \<Longrightarrow> c_str s = s"
  by (auto simp: c_str_def takeWhile_eq_all_conv)

lemma c_str_no_nul [simp]: "NUL \<notin> set (c_str s)"
  by (auto simp: c_str_def dest: set_takeWhileD)

lemma prefix_drop_nth: "prefix pat (drop i s) \<Longrightarrow> k < length pat \<Longrightarrow> s ! (i + k) = pat ! k"
proof -
  assume p: "prefix pat (drop i s)" and k: "k < length pat"
  from p k have "i \<le> length s" by (cases "i \<le> length s") auto
  with p k show ?thesis by (auto simp: prefix_def nth_append simp flip: nth_drop)
qed

lemma nth_concat_uniform:
  assumes "\<forall>x \<in> set xs. length (f x) = w" and "i < length xs" and "k < w"
  shows "concat (map f xs) ! (w * i + k) = f (xs ! i) ! k"
  using assms
proof (induction xs arbitrary: i)
  case (Cons x xs)
  show ?case
  proof (cases i)
    case 0
    then show ?thesis using Cons.prems by (simp add: nth_append)
  next
    case (Suc j)
    have "\<not> w * i + k < w" and "w * i + k - w = w * j + k" using Suc by simp_all
    then show ?thesis using Cons Suc by (simp add: nth_append)
  qed
qed simp

section \<open>Numerals\<close>

text \<open>Digits and numerals in a radix up to 16, as \<^verbatim>\<open>printf\<close> and the stream operators
  write them (lower case), and the value of a digit string.\<close>

definition hex_digit :: "nat \<Rightarrow> char" where
  "hex_digit n = (if n < 10 then char_of (48 + n) else char_of (87 + n))"

definition digit_val :: "char \<Rightarrow> nat" where
  "digit_val c = (if c_isdigit c then ord c - 48
     else if 97 \<le> ord c \<and> ord c \<le> 102 then ord c - 87
     else if 65 \<le> ord c \<and> ord c \<le> 70 then ord c - 55 else 0)"

fun radix :: "nat \<Rightarrow> nat \<Rightarrow> string" where
  "radix b n = (if b < 2 \<or> n < b then [hex_digit n]
     else radix b (n div b) @ [hex_digit (n mod b)])"

declare radix.simps [simp del]

definition radix_val :: "nat \<Rightarrow> string \<Rightarrow> nat" where
  "radix_val b s = foldl (\<lambda>a c. b * a + digit_val c) 0 s"

abbreviation dec :: "nat \<Rightarrow> string" where "dec \<equiv> radix 10"

definition dec_int :: "int \<Rightarrow> string" where
  "dec_int i = (if i < 0 then CHR ''-'' # dec (nat (- i)) else dec (nat i))"

text \<open>\<^verbatim>\<open>%0<w>d\<close>: the decimal numeral padded with zeros to \<open>w\<close> characters.\<close>

definition pad0 :: "nat \<Rightarrow> string \<Rightarrow> string" where
  "pad0 w s = replicate (w - length s) (CHR ''0'') @ s"

lemma ord_char_of [simp]: "n < 256 \<Longrightarrow> ord (char_of n) = n"
  by simp

lemma digit_val_hex_digit [simp]: "n < 16 \<Longrightarrow> digit_val (hex_digit n) = n"
  by (auto simp: digit_val_def hex_digit_def c_isdigit_def)

lemma hex_digit_isdigit: "n < 10 \<Longrightarrow> c_isdigit (hex_digit n)"
  by (simp add: hex_digit_def c_isdigit_def)

lemma radix_val_snoc [simp]: "radix_val b (s @ [c]) = b * radix_val b s + digit_val c"
  by (simp add: radix_val_def)

lemma radix_val_Nil [simp]: "radix_val b [] = 0"
  by (simp add: radix_val_def)

lemma radix_val_radix [simp]: "2 \<le> b \<Longrightarrow> b \<le> 16 \<Longrightarrow> radix_val b (radix b n) = n"
proof (induction b n rule: radix.induct)
  case (1 b n)
  show ?case
  proof (cases "n < b")
    case True
    then show ?thesis using 1 radix_val_snoc [of b "[]"] by (simp add: radix.simps [of b n])
  next
    case False
    have "n mod b < 16" using 1 mod_less_divisor [of b n] by linarith
    then show ?thesis using 1 False by (simp add: radix.simps [of b n])
  qed
qed

lemma radix_nonempty [simp]: "radix b n \<noteq> []"
  by (simp add: radix.simps [of b n])

lemma dec_digits: "c \<in> set (dec n) \<Longrightarrow> c_isdigit c"
proof (induction "10 :: nat" n rule: radix.induct)
  case (1 n)
  then show ?case
    by (cases "n < 10") (auto simp: radix.simps [of 10 n] hex_digit_isdigit)
qed

lemma dec_all_digits [simp]: "list_all c_isdigit (dec n)"
  by (auto simp: list_all_iff dec_digits)

lemma radix_val_le:
  assumes "2 \<le> b" "b \<le> 16" "\<forall>c \<in> set s. digit_val c < b"
  shows "radix_val b s < b ^ length s"
  using assms(3)
proof (induction s rule: rev_induct)
  case (snoc c s)
  then have a: "radix_val b s + 1 \<le> b ^ length s" and d: "digit_val c < b" by auto
  from a have "b * (radix_val b s + 1) \<le> b * b ^ length s" by (rule mult_le_mono2)
  then show ?case using d by (simp add: algebra_simps) 
qed simp

lemma takeWhile_append_stop:
  "list_all P s \<Longrightarrow> t = [] \<or> \<not> P (hd t) \<Longrightarrow> takeWhile P (s @ t) = s"
  by (cases t) (auto simp: list_all_iff takeWhile_append)

lemma dropWhile_append_stop:
  "list_all P s \<Longrightarrow> t = [] \<or> \<not> P (hd t) \<Longrightarrow> dropWhile P (s @ t) = t"
  by (cases t) (auto simp: list_all_iff dropWhile_append)

section \<open>Fields\<close>

text \<open>The pieces of a list between the elements that satisfy \<open>P\<close>, empty ones included, and
  the list put together again from pieces and separators.\<close>

fun pieces :: "('a \<Rightarrow> bool) \<Rightarrow> 'a list \<Rightarrow> 'a list list" where
  "pieces P [] = [[]]"
| "pieces P (c # cs) = (if P c then [] # pieces P cs
     else (c # hd (pieces P cs)) # tl (pieces P cs))"

fun weave :: "'a list list \<Rightarrow> 'a list \<Rightarrow> 'a list" where
  "weave (f # fs) (s # ss) = f @ s # weave fs ss"
| "weave fs _ = concat fs"

lemma fields_nonempty [simp]: "pieces P s \<noteq> []"
  by (cases s) auto

lemma fields_stop: "\<forall>c \<in> set a. \<not> P c \<Longrightarrow> P c \<Longrightarrow> pieces P (a @ c # r) = a # pieces P r"
  by (induction a) auto

lemma fields_none: "\<forall>c \<in> set a. \<not> P c \<Longrightarrow> pieces P a = [a]"
  by (induction a) auto

lemma fields_free: "f \<in> set (pieces P s) \<Longrightarrow> c \<in> set f \<Longrightarrow> \<not> P c"
proof (induction P s arbitrary: f rule: pieces.induct)
  case (2 P d cs)
  then show ?case
    by (cases "pieces P cs") (auto split: if_splits, blast)
qed auto

lemma fields_count: "length (pieces P s) = Suc (length (filter P s))"
  by (induction P s rule: pieces.induct) auto

lemma weave_fields: "weave (pieces P s) (filter P s) = s"
proof (induction P s rule: pieces.induct)
  case (2 P c cs)
  then show ?case
    by (cases "pieces P cs"; cases "filter P cs") (auto split: if_splits)
qed simp

lemma fields_find_first_None:
  assumes "find_first P s n = None"
  shows "pieces P (drop n s) = [drop n s]"
proof (rule fields_none, rule ballI)
  fix c assume "c \<in> set (drop n s)"
  then obtain k where "k < length s - n" "c = s ! (n + k)" by (auto simp: in_set_conv_nth)
  then show "\<not> P c" using assms by (simp add: find_first_None_iff)
qed

lemma fields_find_first_Some:
  assumes "find_first P s n = Some i"
  shows "pieces P (drop n s) = substr s n (i - n) # pieces P (drop (Suc i) s)"
proof -
  from assms have i: "n \<le> i" "i < length s" "P (s ! i)"
    and no: "\<And>j. n \<le> j \<Longrightarrow> j < i \<Longrightarrow> \<not> P (s ! j)" by (auto simp: find_first_Some_iff)
  have "drop n s = substr s n (i - n) @ s ! i # drop (Suc i) s"
    using i by (metis Cons_nth_drop_Suc append_take_drop_id drop_drop le_add_diff_inverse2 substr_def)
  moreover have "\<forall>c \<in> set (substr s n (i - n)). \<not> P c"
    using no i by (auto simp: substr_def in_set_conv_nth)
  ultimately show ?thesis using i(3) by (simp add: fields_stop)
qed

end
