(* ===== verification/Md5.thy ===== *)
theory Md5
  imports Frs_Prelude
begin

text \<open>
  The MD5 class of \<^verbatim>\<open>md5.h\<close> and \<^verbatim>\<open>md5.cpp\<close>: the context, the four round macros, the
  block transformation, and the streaming interface \<^verbatim>\<open>MD5Init\<close>, \<^verbatim>\<open>MD5Update\<close>,
  \<^verbatim>\<open>MD5Final\<close>.  All integers are kept at 32 bits.  The second half states MD5 as
  RFC 1321 does (a loop of 64 operations over tables, a padded message cut into 64-byte
  blocks) and shows that the streaming code computes it for every way of cutting the
  message into \<^verbatim>\<open>MD5Update\<close> calls.
\<close>

section \<open>The context and the macros\<close>

record MD5_CTX =
  ctx_state :: "u32 list"
  ctx_count :: "u32 list"
  ctx_buffer :: "u8 list"

definition S11 :: nat where "S11 = 7"
definition S12 :: nat where "S12 = 12"
definition S13 :: nat where "S13 = 17"
definition S14 :: nat where "S14 = 22"
definition S21 :: nat where "S21 = 5"
definition S22 :: nat where "S22 = 9"
definition S23 :: nat where "S23 = 14"
definition S24 :: nat where "S24 = 20"
definition S31 :: nat where "S31 = 4"
definition S32 :: nat where "S32 = 11"
definition S33 :: nat where "S33 = 16"
definition S34 :: nat where "S34 = 23"
definition S41 :: nat where "S41 = 6"
definition S42 :: nat where "S42 = 10"
definition S43 :: nat where "S43 = 15"
definition S44 :: nat where "S44 = 21"

lemmas shift_defs = S11_def S12_def S13_def S14_def S21_def S22_def S23_def S24_def
  S31_def S32_def S33_def S34_def S41_def S42_def S43_def S44_def

definition PADDING :: "u8 list" where
  "PADDING = 0x80 # replicate 63 0"

definition md5_F :: "u32 \<Rightarrow> u32 \<Rightarrow> u32 \<Rightarrow> u32" where
  "md5_F x y z = (x AND y) OR (NOT x AND z)"

definition md5_G :: "u32 \<Rightarrow> u32 \<Rightarrow> u32 \<Rightarrow> u32" where
  "md5_G x y z = (x AND z) OR (y AND NOT z)"

definition md5_H :: "u32 \<Rightarrow> u32 \<Rightarrow> u32 \<Rightarrow> u32" where
  "md5_H x y z = x XOR y XOR z"

definition md5_I :: "u32 \<Rightarrow> u32 \<Rightarrow> u32 \<Rightarrow> u32" where
  "md5_I x y z = y XOR (x OR NOT z)"

definition ROTATE_LEFT :: "u32 \<Rightarrow> nat \<Rightarrow> u32" where
  "ROTATE_LEFT x n = push_bit n x OR drop_bit (32 - n) x"

text \<open>The four local variables \<^verbatim>\<open>a\<close>, \<^verbatim>\<open>b\<close>, \<^verbatim>\<open>c\<close>, \<^verbatim>\<open>d\<close> of \<^verbatim>\<open>MD5Transform\<close>.  A macro
  call names the variable it assigns and the three it reads.\<close>

datatype reg = RA | RB | RC | RD

record regs =
  ra :: u32
  rb :: u32
  rc :: u32
  rd :: u32

fun rget :: "reg \<Rightarrow> regs \<Rightarrow> u32" where
  "rget RA r = ra r"
| "rget RB r = rb r"
| "rget RC r = rc r"
| "rget RD r = rd r"

fun rset :: "reg \<Rightarrow> u32 \<Rightarrow> regs \<Rightarrow> regs" where
  "rset RA v r = r\<lparr>ra := v\<rparr>"
| "rset RB v r = r\<lparr>rb := v\<rparr>"
| "rset RC v r = r\<lparr>rc := v\<rparr>"
| "rset RD v r = r\<lparr>rd := v\<rparr>"

definition FF :: "reg \<Rightarrow> reg \<Rightarrow> reg \<Rightarrow> reg \<Rightarrow> u32 \<Rightarrow> nat \<Rightarrow> u32 \<Rightarrow> regs \<Rightarrow> regs" where
  "FF a b c d x s ac r =
     (let v = rget a r + (md5_F (rget b r) (rget c r) (rget d r) + x + ac);
          v = ROTATE_LEFT v s;
          v = v + rget b r
      in rset a v r)"

definition GG :: "reg \<Rightarrow> reg \<Rightarrow> reg \<Rightarrow> reg \<Rightarrow> u32 \<Rightarrow> nat \<Rightarrow> u32 \<Rightarrow> regs \<Rightarrow> regs" where
  "GG a b c d x s ac r =
     (let v = rget a r + (md5_G (rget b r) (rget c r) (rget d r) + x + ac);
          v = ROTATE_LEFT v s;
          v = v + rget b r
      in rset a v r)"

definition HH :: "reg \<Rightarrow> reg \<Rightarrow> reg \<Rightarrow> reg \<Rightarrow> u32 \<Rightarrow> nat \<Rightarrow> u32 \<Rightarrow> regs \<Rightarrow> regs" where
  "HH a b c d x s ac r =
     (let v = rget a r + (md5_H (rget b r) (rget c r) (rget d r) + x + ac);
          v = ROTATE_LEFT v s;
          v = v + rget b r
      in rset a v r)"

definition II :: "reg \<Rightarrow> reg \<Rightarrow> reg \<Rightarrow> reg \<Rightarrow> u32 \<Rightarrow> nat \<Rightarrow> u32 \<Rightarrow> regs \<Rightarrow> regs" where
  "II a b c d x s ac r =
     (let v = rget a r + (md5_I (rget b r) (rget c r) (rget d r) + x + ac);
          v = ROTATE_LEFT v s;
          v = v + rget b r
      in rset a v r)"

section \<open>Encode, Decode and the block transformation\<close>

definition Encode :: "u32 list \<Rightarrow> nat \<Rightarrow> u8 list" where
  "Encode input len =
     concat (map (\<lambda>i. [ucast (input ! i AND 0xff),
                       ucast (drop_bit 8 (input ! i) AND 0xff),
                       ucast (drop_bit 16 (input ! i) AND 0xff),
                       ucast (drop_bit 24 (input ! i) AND 0xff)])
       [0..<(len + 3) div 4])"

definition Decode :: "u8 list \<Rightarrow> nat \<Rightarrow> u32 list" where
  "Decode input len =
     map (\<lambda>i. ucast (input ! (4 * i))
            OR push_bit 8 (ucast (input ! (4 * i + 1)))
            OR push_bit 16 (ucast (input ! (4 * i + 2)))
            OR push_bit 24 (ucast (input ! (4 * i + 3))))
       [0..<(len + 3) div 4]"

text \<open>The 64 macro calls in the order of the source; \<open>x\<close> is the decoded block.\<close>

definition round_calls :: "u32 list \<Rightarrow> (regs \<Rightarrow> regs) list" where
  "round_calls x =
   [FF RA RB RC RD (x !  0) S11 0xd76aa478,
    FF RD RA RB RC (x !  1) S12 0xe8c7b756,
    FF RC RD RA RB (x !  2) S13 0x242070db,
    FF RB RC RD RA (x !  3) S14 0xc1bdceee,
    FF RA RB RC RD (x !  4) S11 0xf57c0faf,
    FF RD RA RB RC (x !  5) S12 0x4787c62a,
    FF RC RD RA RB (x !  6) S13 0xa8304613,
    FF RB RC RD RA (x !  7) S14 0xfd469501,
    FF RA RB RC RD (x !  8) S11 0x698098d8,
    FF RD RA RB RC (x !  9) S12 0x8b44f7af,
    FF RC RD RA RB (x ! 10) S13 0xffff5bb1,
    FF RB RC RD RA (x ! 11) S14 0x895cd7be,
    FF RA RB RC RD (x ! 12) S11 0x6b901122,
    FF RD RA RB RC (x ! 13) S12 0xfd987193,
    FF RC RD RA RB (x ! 14) S13 0xa679438e,
    FF RB RC RD RA (x ! 15) S14 0x49b40821,
    GG RA RB RC RD (x !  1) S21 0xf61e2562,
    GG RD RA RB RC (x !  6) S22 0xc040b340,
    GG RC RD RA RB (x ! 11) S23 0x265e5a51,
    GG RB RC RD RA (x !  0) S24 0xe9b6c7aa,
    GG RA RB RC RD (x !  5) S21 0xd62f105d,
    GG RD RA RB RC (x ! 10) S22 0x02441453,
    GG RC RD RA RB (x ! 15) S23 0xd8a1e681,
    GG RB RC RD RA (x !  4) S24 0xe7d3fbc8,
    GG RA RB RC RD (x !  9) S21 0x21e1cde6,
    GG RD RA RB RC (x ! 14) S22 0xc33707d6,
    GG RC RD RA RB (x !  3) S23 0xf4d50d87,
    GG RB RC RD RA (x !  8) S24 0x455a14ed,
    GG RA RB RC RD (x ! 13) S21 0xa9e3e905,
    GG RD RA RB RC (x !  2) S22 0xfcefa3f8,
    GG RC RD RA RB (x !  7) S23 0x676f02d9,
    GG RB RC RD RA (x ! 12) S24 0x8d2a4c8a,
    HH RA RB RC RD (x !  5) S31 0xfffa3942,
    HH RD RA RB RC (x !  8) S32 0x8771f681,
    HH RC RD RA RB (x ! 11) S33 0x6d9d6122,
    HH RB RC RD RA (x ! 14) S34 0xfde5380c,
    HH RA RB RC RD (x !  1) S31 0xa4beea44,
    HH RD RA RB RC (x !  4) S32 0x4bdecfa9,
    HH RC RD RA RB (x !  7) S33 0xf6bb4b60,
    HH RB RC RD RA (x ! 10) S34 0xbebfbc70,
    HH RA RB RC RD (x ! 13) S31 0x289b7ec6,
    HH RD RA RB RC (x !  0) S32 0xeaa127fa,
    HH RC RD RA RB (x !  3) S33 0xd4ef3085,
    HH RB RC RD RA (x !  6) S34 0x04881d05,
    HH RA RB RC RD (x !  9) S31 0xd9d4d039,
    HH RD RA RB RC (x ! 12) S32 0xe6db99e5,
    HH RC RD RA RB (x ! 15) S33 0x1fa27cf8,
    HH RB RC RD RA (x !  2) S34 0xc4ac5665,
    II RA RB RC RD (x !  0) S41 0xf4292244,
    II RD RA RB RC (x !  7) S42 0x432aff97,
    II RC RD RA RB (x ! 14) S43 0xab9423a7,
    II RB RC RD RA (x !  5) S44 0xfc93a039,
    II RA RB RC RD (x ! 12) S41 0x655b59c3,
    II RD RA RB RC (x !  3) S42 0x8f0ccc92,
    II RC RD RA RB (x ! 10) S43 0xffeff47d,
    II RB RC RD RA (x !  1) S44 0x85845dd1,
    II RA RB RC RD (x !  8) S41 0x6fa87e4f,
    II RD RA RB RC (x ! 15) S42 0xfe2ce6e0,
    II RC RD RA RB (x !  6) S43 0xa3014314,
    II RB RC RD RA (x ! 13) S44 0x4e0811a1,
    II RA RB RC RD (x !  4) S41 0xf7537e82,
    II RD RA RB RC (x ! 11) S42 0xbd3af235,
    II RC RD RA RB (x !  2) S43 0x2ad7d2bb,
    II RB RC RD RA (x !  9) S44 0xeb86d391]"

definition MD5Transform :: "u32 list \<Rightarrow> u8 list \<Rightarrow> u32 list" where
  "MD5Transform st block =
     (let r0 = \<lparr>ra = st ! 0, rb = st ! 1, rc = st ! 2, rd = st ! 3\<rparr>;
          x = Decode block 64;
          r = fold (\<lambda>f r. f r) (round_calls x) r0
      in [st ! 0 + ra r, st ! 1 + rb r, st ! 2 + rc r, st ! 3 + rd r])"

section \<open>The streaming interface\<close>

definition MD5Init :: "MD5_CTX \<Rightarrow> MD5_CTX" where
  "MD5Init ctx = ctx\<lparr>ctx_count := [0, 0],
     ctx_state := [0x67452301, 0xefcdab89, 0x98badcfe, 0x10325476]\<rparr>"

text \<open>\<^verbatim>\<open>memcpy(&dst[at], src, n)\<close> where \<open>src\<close> holds the \<open>n\<close> bytes copied.\<close>

definition memcpy_at :: "u8 list \<Rightarrow> nat \<Rightarrow> u8 list \<Rightarrow> u8 list" where
  "memcpy_at dst at src = take at dst @ src @ drop (at + length src) dst"

text \<open>The loop \<^verbatim>\<open>for (i=partLen; i+63 < inputLen; i+=64)\<close>.  Its counter wraps at 32 bits,
  so for input lengths close to \<open>2\<^sup>3\<^sup>2\<close> it need not end: not ending is \<^const>\<open>None\<close>.\<close>

partial_function (option) update_loop ::
  "u32 list \<Rightarrow> u8 list \<Rightarrow> u32 \<Rightarrow> u32 \<Rightarrow> (u32 list \<times> u32) option" where
  "update_loop st input inputLen i =
     (if i + 63 < inputLen
      then update_loop (MD5Transform st (take 64 (drop (unat i) input))) input inputLen (i + 64)
      else Some (st, i))"

definition MD5Update :: "MD5_CTX \<Rightarrow> u8 list \<Rightarrow> u32 \<Rightarrow> MD5_CTX option" where
  "MD5Update ctx input inputLen =
     (let index = drop_bit 3 (ctx_count ctx ! 0) AND 0x3F;
          c0 = ctx_count ctx ! 0 + push_bit 3 inputLen;
          c1 = (if c0 < push_bit 3 inputLen then ctx_count ctx ! 1 + 1 else ctx_count ctx ! 1);
          c1 = c1 + drop_bit 29 inputLen;
          ctx = ctx\<lparr>ctx_count := [c0, c1]\<rparr>;
          partLen = 64 - index
      in if partLen \<le> inputLen
         then let buf = memcpy_at (ctx_buffer ctx) (unat index) (take (unat partLen) input);
                  st = MD5Transform (ctx_state ctx) buf
              in case update_loop st input inputLen partLen of
                   None \<Rightarrow> None
                 | Some (st', i) \<Rightarrow>
                     Some (ctx\<lparr>ctx_state := st',
                       ctx_buffer := memcpy_at buf 0
                         (take (unat (inputLen - i)) (drop (unat i) input))\<rparr>)
         else Some (ctx\<lparr>ctx_buffer :=
                memcpy_at (ctx_buffer ctx) (unat index) (take (unat inputLen) input)\<rparr>))"

text \<open>The digest and the zeroed context.\<close>

definition MD5Final :: "MD5_CTX \<Rightarrow> (u8 list \<times> MD5_CTX) option" where
  "MD5Final ctx =
     (let bits = Encode (ctx_count ctx) 8;
          index = drop_bit 3 (ctx_count ctx ! 0) AND 0x3f;
          padLen = (if index < 56 then 56 - index else 120 - index)
      in case MD5Update ctx PADDING padLen of
           None \<Rightarrow> None
         | Some ctx1 \<Rightarrow>
            (case MD5Update ctx1 bits 8 of
               None \<Rightarrow> None
             | Some ctx2 \<Rightarrow>
                 Some (Encode (ctx_state ctx2) 16,
                   \<lparr>ctx_state = replicate 4 0, ctx_count = replicate 2 0,
                    ctx_buffer = replicate 64 0\<rparr>)))"

text \<open>A run of \<^verbatim>\<open>MD5Update\<close> over consecutive pieces of a message.\<close>

fun MD5Updates :: "MD5_CTX \<Rightarrow> u8 list list \<Rightarrow> MD5_CTX option" where
  "MD5Updates ctx [] = Some ctx"
| "MD5Updates ctx (p # ps) =
     (case MD5Update ctx p (of_nat (length p)) of
        None \<Rightarrow> None
      | Some ctx' \<Rightarrow> MD5Updates ctx' ps)"

section \<open>RFC 1321 as a reference\<close>

text \<open>Sine table, shift amounts and message word order of RFC 1321, section 3.4, by the
  number of the operation.\<close>

definition rfc_T :: "u32 list" where
  "rfc_T =
   [0xd76aa478, 0xe8c7b756, 0x242070db, 0xc1bdceee, 0xf57c0faf, 0x4787c62a, 0xa8304613, 0xfd469501,
    0x698098d8, 0x8b44f7af, 0xffff5bb1, 0x895cd7be, 0x6b901122, 0xfd987193, 0xa679438e, 0x49b40821,
    0xf61e2562, 0xc040b340, 0x265e5a51, 0xe9b6c7aa, 0xd62f105d, 0x02441453, 0xd8a1e681, 0xe7d3fbc8,
    0x21e1cde6, 0xc33707d6, 0xf4d50d87, 0x455a14ed, 0xa9e3e905, 0xfcefa3f8, 0x676f02d9, 0x8d2a4c8a,
    0xfffa3942, 0x8771f681, 0x6d9d6122, 0xfde5380c, 0xa4beea44, 0x4bdecfa9, 0xf6bb4b60, 0xbebfbc70,
    0x289b7ec6, 0xeaa127fa, 0xd4ef3085, 0x04881d05, 0xd9d4d039, 0xe6db99e5, 0x1fa27cf8, 0xc4ac5665,
    0xf4292244, 0x432aff97, 0xab9423a7, 0xfc93a039, 0x655b59c3, 0x8f0ccc92, 0xffeff47d, 0x85845dd1,
    0x6fa87e4f, 0xfe2ce6e0, 0xa3014314, 0x4e0811a1, 0xf7537e82, 0xbd3af235, 0x2ad7d2bb, 0xeb86d391]"

definition rfc_word :: "nat \<Rightarrow> nat" where
  "rfc_word i =
     (if i < 16 then i
      else if i < 32 then (5 * i + 1) mod 16
      else if i < 48 then (3 * i + 5) mod 16
      else (7 * i) mod 16)"

definition rfc_shift :: "nat \<Rightarrow> nat" where
  "rfc_shift i =
     (if i < 16 then [7, 12, 17, 22]
      else if i < 32 then [5, 9, 14, 20]
      else if i < 48 then [4, 11, 16, 23]
      else [6, 10, 15, 21]) ! (i mod 4)"

definition rfc_fun :: "nat \<Rightarrow> u32 \<Rightarrow> u32 \<Rightarrow> u32 \<Rightarrow> u32" where
  "rfc_fun i =
     (if i < 16 then (\<lambda>x y z. (x AND y) OR (NOT x AND z))
      else if i < 32 then (\<lambda>x y z. (x AND z) OR (y AND NOT z))
      else if i < 48 then (\<lambda>x y z. x XOR y XOR z)
      else (\<lambda>x y z. y XOR (x OR NOT z)))"

text \<open>One operation, with the registers rotated instead of renamed:
  \<open>a = b + ((a + f(b,c,d) + X[k] + T[i]) <<< s)\<close>.\<close>

definition rfc_step :: "u32 list \<Rightarrow> nat \<Rightarrow> u32 \<times> u32 \<times> u32 \<times> u32 \<Rightarrow> u32 \<times> u32 \<times> u32 \<times> u32" where
  "rfc_step x i = (\<lambda>(a, b, c, d).
     (d, b + word_rotl (rfc_shift i) (a + rfc_fun i b c d + x ! rfc_word i + rfc_T ! i), b, c))"

definition rfc_compress :: "u32 list \<Rightarrow> u8 list \<Rightarrow> u32 list" where
  "rfc_compress st block =
     (let (a, b, c, d) = fold (rfc_step (Decode block 64)) [0..<64] (st ! 0, st ! 1, st ! 2, st ! 3)
      in [st ! 0 + a, st ! 1 + b, st ! 2 + c, st ! 3 + d])"

definition rfc_pad :: "u8 list \<Rightarrow> u8 list" where
  "rfc_pad m =
     m @ [0x80] @ replicate ((119 - length m mod 64) mod 64) 0
       @ map (\<lambda>k. word_of_nat (8 * length m div 256 ^ k)) [0..<8]"

function rfc_absorb :: "u32 list \<Rightarrow> u8 list \<Rightarrow> u32 list \<times> u8 list" where
  "rfc_absorb st m =
     (if length m < 64 then (st, m) else rfc_absorb (rfc_compress st (take 64 m)) (drop 64 m))"
  by pat_completeness auto
termination
  by (relation "measure (\<lambda>(st, m). length m)") auto

declare rfc_absorb.simps [simp del]

definition rfc_md5 :: "u8 list \<Rightarrow> u8 list" where
  "rfc_md5 m =
     Encode (fst (rfc_absorb [0x67452301, 0xefcdab89, 0x98badcfe, 0x10325476] (rfc_pad m))) 16"

section \<open>The unrolled rounds are the reference loop\<close>


lemma ROTATE_LEFT_eq: "n < 32 \<Longrightarrow> ROTATE_LEFT x n = word_rotl n x"
proof (rule bit_word_eqI)
  fix k assume n: "n < 32" and k: "k < LENGTH(32)"
  show "bit (ROTATE_LEFT x n) k = bit (word_rotl n x) k"
  proof (cases "n \<le> k")
    case True
    then have eq: "(k + (32 - n)) mod 32 = k - n" and nb: "\<not> bit x (32 - n + k)"
      using k n by (auto simp: mod_if dest: bit_imp_le_length)
    have "bit (word_rotl n x) k = bit x ((k + (32 - n)) mod 32)"
      using k n by (simp add: bit_word_rotl_iff)
    moreover have "bit (ROTATE_LEFT x n) k = bit x (k - n)"
      using True k nb by (simp add: ROTATE_LEFT_def bit_or_iff bit_push_bit_iff bit_drop_bit_eq)
    ultimately show ?thesis unfolding eq by simp
  next
    case False
    have "bit (word_rotl n x) k = bit x ((k + (32 - n)) mod 32)"
      using k n by (simp add: bit_word_rotl_iff)
    moreover have "bit (ROTATE_LEFT x n) k = bit x (32 - n + k)"
      using False k by (simp add: ROTATE_LEFT_def bit_or_iff bit_push_bit_iff bit_drop_bit_eq)
    moreover have "(k + (32 - n)) mod 32 = 32 - n + k" using False n by simp
    ultimately show ?thesis by simp
  qed
qed

definition op_step ::
  "(u32 \<Rightarrow> u32 \<Rightarrow> u32 \<Rightarrow> u32) \<Rightarrow> u32 \<Rightarrow> nat \<Rightarrow> u32 \<Rightarrow> u32 \<times> u32 \<times> u32 \<times> u32 \<Rightarrow> u32 \<times> u32 \<times> u32 \<times> u32" where
  "op_step f x s ac = (\<lambda>(a, b, c, d). (d, b + word_rotl s (a + f b c d + x + ac), b, c))"

definition regs_tuple :: "regs \<Rightarrow> u32 \<times> u32 \<times> u32 \<times> u32" where
  "regs_tuple r = (ra r, rb r, rc r, rd r)"

lemmas macro_defs = FF_def GG_def HH_def II_def Let_def

lemma quads:
  "regs_tuple (FF RB RC RD RA x3 S14 k3 (FF RC RD RA RB x2 S13 k2
     (FF RD RA RB RC x1 S12 k1 (FF RA RB RC RD x0 S11 k0 r)))) =
   op_step md5_F x3 S14 k3 (op_step md5_F x2 S13 k2 (op_step md5_F x1 S12 k1
     (op_step md5_F x0 S11 k0 (regs_tuple r))))"
  "regs_tuple (GG RB RC RD RA x3 S24 k3 (GG RC RD RA RB x2 S23 k2
     (GG RD RA RB RC x1 S22 k1 (GG RA RB RC RD x0 S21 k0 r)))) =
   op_step md5_G x3 S24 k3 (op_step md5_G x2 S23 k2 (op_step md5_G x1 S22 k1
     (op_step md5_G x0 S21 k0 (regs_tuple r))))"
  "regs_tuple (HH RB RC RD RA x3 S34 k3 (HH RC RD RA RB x2 S33 k2
     (HH RD RA RB RC x1 S32 k1 (HH RA RB RC RD x0 S31 k0 r)))) =
   op_step md5_H x3 S34 k3 (op_step md5_H x2 S33 k2 (op_step md5_H x1 S32 k1
     (op_step md5_H x0 S31 k0 (regs_tuple r))))"
  "regs_tuple (II RB RC RD RA x3 S44 k3 (II RC RD RA RB x2 S43 k2
     (II RD RA RB RC x1 S42 k1 (II RA RB RC RD x0 S41 k0 r)))) =
   op_step md5_I x3 S44 k3 (op_step md5_I x2 S43 k2 (op_step md5_I x1 S42 k1
     (op_step md5_I x0 S41 k0 (regs_tuple r))))"
  by (simp_all add: macro_defs regs_tuple_def op_step_def ROTATE_LEFT_eq shift_defs ac_simps)

lemma rfc_step_eq: "rfc_step x i = op_step (rfc_fun i) (x ! rfc_word i) (rfc_shift i) (rfc_T ! i)"
  by (simp add: rfc_step_def op_step_def)

lemma rfc_fun_md5:
  "i < 16 \<Longrightarrow> rfc_fun i = md5_F"
  "16 \<le> i \<Longrightarrow> i < 32 \<Longrightarrow> rfc_fun i = md5_G"
  "32 \<le> i \<Longrightarrow> i < 48 \<Longrightarrow> rfc_fun i = md5_H"
  "48 \<le> i \<Longrightarrow> rfc_fun i = md5_I"
  by (auto simp: rfc_fun_def fun_eq_iff md5_F_def md5_G_def md5_H_def md5_I_def)

lemma rounds_eq:
  "regs_tuple (fold (\<lambda>f r. f r) (round_calls x) r) = fold (rfc_step x) [0..<64] (regs_tuple r)"
proof -
  have u: "[0..<64] = [0,1,2,3,4,5,6,7,8,9,10,11,12,13,14,15,16,17,18,19,20,21,22,23,24,25,26,27,28,
    29,30,31,32,33,34,35,36,37,38,39,40,41,42,43,44,45,46,47,48,49,50,51,52,53,54,55,56,57,58,59,60,
    61,62,63::nat]" by (simp add: upt_rec)
  show ?thesis
    unfolding u round_calls_def fold_simps quads id_apply comp_apply rfc_step_eq
    by (simp add: rfc_fun_md5 rfc_word_def rfc_shift_def rfc_T_def shift_defs)
qed
lemma MD5Transform_rfc: "MD5Transform st block = rfc_compress st block"
  using rounds_eq [of "Decode block 64" "\<lparr>ra = st ! 0, rb = st ! 1, rc = st ! 2, rd = st ! 3\<rparr>"]
  by (simp add: MD5Transform_def rfc_compress_def Let_def regs_tuple_def) (metis (no_types, lifting) case_prod_conv)

lemma rfc_absorb_small: "length m < 64 \<Longrightarrow> rfc_absorb st m = (st, m)"
  by (simp add: rfc_absorb.simps)

lemma rfc_absorb_block:
  "64 \<le> length m \<Longrightarrow> rfc_absorb st m = rfc_absorb (rfc_compress st (take 64 m)) (drop 64 m)"
  by (subst rfc_absorb.simps) simp

lemma rfc_absorb_append:
  "rfc_absorb st (xs @ ys) = (let (st', r) = rfc_absorb st xs in rfc_absorb st' (r @ ys))"
proof (induction st xs rule: rfc_absorb.induct)
  case (1 st xs)
  show ?case
  proof (cases "length xs < 64")
    case True
    then show ?thesis by (simp add: rfc_absorb_small)
  next
    case False
    then show ?thesis using 1 [OF False] by (simp add: rfc_absorb_block)
  qed
qed

lemma rfc_absorb_rest:
  "rfc_absorb st m = (st', r) \<Longrightarrow> r = drop (64 * (length m div 64)) m"
proof (induction st m rule: rfc_absorb.induct)
  case (1 st m)
  show ?case
  proof (cases "length m < 64")
    case True
    then show ?thesis using 1 by (simp add: rfc_absorb_small)
  next
    case False
    then have "length m div 64 = Suc ((length m - 64) div 64)" by (simp add: le_div_geq)
    then show ?thesis using 1 False by (simp add: rfc_absorb_block algebra_simps)
  qed
qed

lemma rfc_absorb_rest_length: "length (snd (rfc_absorb st m)) = length m mod 64"
  using rfc_absorb_rest [of st m] by (cases "rfc_absorb st m") (simp add: minus_mult_div_eq_mod)

text \<open>Inside the no-overflow range the update loop consumes exactly the whole blocks.\<close>

lemma update_loop_absorb:
  assumes "unat n = length input" and "length input + 63 < 2 ^ 32" and "unat i \<le> length input"
  shows "\<exists>j. update_loop st input n i =
            Some (fst (rfc_absorb st (drop (unat i) input)), j) \<and>
          unat j \<le> length input \<and>
          snd (rfc_absorb st (drop (unat i) input)) = drop (unat j) input"
  using assms(3)
proof (induction "length input - unat i" arbitrary: i st rule: less_induct)
  case less
  have i63: "unat (i + 63) = unat i + 63"
    using assms less.prems by (simp add: unat_word_ariths)
  show ?case
  proof (cases "i + 63 < n")
    case True
    then have le: "unat i + 64 \<le> length input"
      using i63 assms by (simp add: word_less_nat_alt)
    have i64: "unat (i + 64) = unat i + 64"
      using assms le by (simp add: unat_word_ariths)
    let ?st = "MD5Transform st (take 64 (drop (unat i) input))"
    obtain j where j: "update_loop ?st input n (i + 64) =
            Some (fst (rfc_absorb ?st (drop (unat (i + 64)) input)), j)"
          "unat j \<le> length input"
          "snd (rfc_absorb ?st (drop (unat (i + 64)) input)) = drop (unat j) input"
    proof -
      have "length input - unat (i + 64) < length input - unat i" "unat (i + 64) \<le> length input"
        using le i64 by linarith+
      from less.hyps [OF this, of ?st] that show ?thesis by blast
    qed
    have "rfc_absorb st (drop (unat i) input) = rfc_absorb ?st (drop (unat (i + 64)) input)"
      using le i64 by (subst rfc_absorb_block) (simp_all add: MD5Transform_rfc add.commute)
    then show ?thesis using True j by (subst update_loop.simps) auto
  next
    case False
    then have "length (drop (unat i) input) < 64"
      using i63 assms by (simp add: word_less_nat_alt)
    then show ?thesis using False less.prems
      by (subst update_loop.simps) (auto simp: rfc_absorb_small)
  qed
qed

section \<open>The streaming invariant\<close>

text \<open>\<open>ctx_holds ctx m\<close>: the context is what the bytes \<open>m\<close> leave behind.\<close>

abbreviation rfc_init :: "u32 list" where
  "rfc_init \<equiv> [0x67452301, 0xefcdab89, 0x98badcfe, 0x10325476]"

definition ctx_holds :: "MD5_CTX \<Rightarrow> u8 list \<Rightarrow> bool" where
  "ctx_holds ctx m \<longleftrightarrow>
     length (ctx_buffer ctx) = 64 \<and>
     length (ctx_count ctx) = 2 \<and>
     unat (ctx_count ctx ! 0) + 2 ^ 32 * unat (ctx_count ctx ! 1) = 8 * length m mod 2 ^ 64 \<and>
     rfc_absorb rfc_init m = (ctx_state ctx, take (length m mod 64) (ctx_buffer ctx))"

lemma ctx_holds_Init: "length (ctx_buffer ctx) = 64 \<Longrightarrow> ctx_holds (MD5Init ctx) []"
  by (simp add: ctx_holds_def MD5Init_def rfc_absorb_small)

lemma low_count_mod:
  fixes c0 c1 :: u32
  assumes "unat c0 + 2 ^ 32 * unat c1 = 8 * n mod 2 ^ 64"
  shows "unat c0 = 8 * n mod 2 ^ 32"
proof -
  have "(unat c0 + 2 ^ 32 * unat c1) mod 2 ^ 32 = unat c0"
    using unsigned_less [of c0, where ?'a = nat] by simp
  moreover have "(8 * n mod 2 ^ 64) mod 2 ^ 32 = 8 * n mod 2 ^ 32"
    by (rule mod_mod_cancel) (rule le_imp_power_dvd, simp)
  ultimately show ?thesis using assms by metis
qed

lemma mult_split_mod: "k * x = k * (x mod d) + k * d * (x div d)" for k x d :: nat
  by (metis add_mult_distrib2 mod_mult_div_eq mult.assoc)

lemma eight_mod_32: "8 * n mod 2 ^ 32 = 8 * (n mod 2 ^ 29)" for n :: nat
  using mult_mod_right [of 8 n "2 ^ 29"] by simp

lemma eight_mod: "8 * n mod 2 ^ 32 div 8 mod 64 = n mod 64" for n :: nat
  unfolding eight_mod_32 by (simp add: mod_mod_cancel)

lemma ctx_index:
  assumes "ctx_holds ctx m"
  shows "unat (drop_bit 3 (ctx_count ctx ! 0) AND 0x3F) = length m mod 64"
proof -
  let ?c = "ctx_count ctx ! 0"
  have c: "unat ?c = 8 * length m mod 2 ^ 32"
    using assms low_count_mod unfolding ctx_holds_def by blast
  have "unat (drop_bit 3 ?c AND 0x3F) = unat ?c div 8 mod 64"
  proof -
    have "drop_bit 3 ?c AND 0x3F = take_bit 6 (drop_bit 3 ?c)"
      by (simp add: take_bit_eq_mask mask_eq_exp_minus_1)
    then have "unat (drop_bit 3 ?c AND 0x3F) = take_bit 6 (drop_bit 3 (unat ?c))"
      by (simp only: unsigned_take_bit_eq unat_drop_bit_eq)
    then show ?thesis by (simp add: take_bit_eq_mod drop_bit_eq_div)
  qed
  also have "\<dots> = length m mod 64"
    unfolding c by (rule eight_mod)
  finally show ?thesis .
qed

lemma two_words_mod:
  fixes s t :: nat
  assumes "s < 2 ^ 32"
  shows "s + 2 ^ 32 * (t mod 2 ^ 32) = (s + 2 ^ 32 * t) mod 2 ^ 64"
proof -
  have "(s + 2 ^ 32 * t) mod (2 ^ 32 * 2 ^ 32) =
      2 ^ 32 * ((s + 2 ^ 32 * t) div 2 ^ 32 mod 2 ^ 32) + (s + 2 ^ 32 * t) mod 2 ^ 32"
    by (rule mod_mult2_eq)
  then show ?thesis using assms by simp
qed

lemma eight_times:
  fixes n :: u32
  shows "8 * unat n = unat (push_bit 3 n) + 2 ^ 32 * unat (drop_bit 29 n)"
proof -
  have "unat (push_bit 3 n) = take_bit 32 (push_bit 3 (unat n))"
    by (simp add: unsigned_push_bit_eq del: push_bit_numeral)
  then have p: "unat (push_bit 3 n) = 8 * unat n mod 2 ^ 32" by (simp add: take_bit_eq_mod push_bit_eq_mult mult.commute)
  have q: "unat (drop_bit 29 n) = unat n div 2 ^ 29"
    unfolding unat_drop_bit_eq by (rule drop_bit_eq_div)
  show ?thesis unfolding p q eight_mod_32 using mult_split_mod [of 8 "unat n" "2 ^ 29"] by simp
qed

text \<open>The carry of an addition is seen by comparing the sum with a summand.\<close>

lemma add_carry:
  fixes a b :: u32
  shows "unat (a + b) + 2 ^ 32 * (if a + b < b then 1 else 0) = unat a + unat b"
proof -
  have lt: "unat a < 2 ^ 32" "unat b < 2 ^ 32"
    using unsigned_less [where ?'a = nat and ?'b = 32] by auto
  have m: "unat (a + b) = (unat a + unat b) mod 2 ^ 32" by (simp add: unat_word_ariths)
  show ?thesis
  proof (cases "unat a + unat b < 2 ^ 32")
    case True
    then show ?thesis using m by (simp add: word_less_nat_alt)
  next
    case False
    then have s: "unat (a + b) = unat a + unat b - 2 ^ 32" using m lt by (simp add: mod_if)
    then have "unat (a + b) < unat b" using False lt by simp
    then show ?thesis using s False by (simp add: word_less_nat_alt)
  qed
qed

lemma count_update:
  fixes c0 c1 n :: u32
  assumes "unat c0 + 2 ^ 32 * unat c1 = 8 * l mod 2 ^ 64"
  shows "unat (c0 + push_bit 3 n)
         + 2 ^ 32 * unat ((if c0 + push_bit 3 n < push_bit 3 n then c1 + 1 else c1) + drop_bit 29 n)
       = 8 * (l + unat n) mod 2 ^ 64"
proof -
  define q where "q = unat (drop_bit 29 n)"
  define k :: nat where "k = (if c0 + push_bit 3 n < push_bit 3 n then 1 else 0)"
  define s where "s = unat (c0 + push_bit 3 n)"
  have slt: "s < 2 ^ 32" unfolding s_def using unsigned_less [where ?'a = nat and ?'b = 32] by auto
  have sk: "s + 2 ^ 32 * k = unat c0 + unat (push_bit 3 n)" unfolding s_def k_def by (rule add_carry)
  have "unat ((if c0 + push_bit 3 n < push_bit 3 n then c1 + 1 else c1) + drop_bit 29 n)
      = (unat c1 + k + q) mod 2 ^ 32"
    by (simp add: k_def q_def unat_word_ariths mod_simps)
  then have "unat (c0 + push_bit 3 n) + 2 ^ 32 * unat ((if c0 + push_bit 3 n < push_bit 3 n
      then c1 + 1 else c1) + drop_bit 29 n) = s + 2 ^ 32 * ((unat c1 + k + q) mod 2 ^ 32)"
    by (simp add: s_def)
  also have "\<dots> = (s + 2 ^ 32 * (unat c1 + k + q)) mod 2 ^ 64"
    by (rule two_words_mod [OF slt])
  also have "s + 2 ^ 32 * (unat c1 + k + q) = (unat c0 + 2 ^ 32 * unat c1) + 8 * unat n"
    using sk eight_times [of n] by (simp add: q_def algebra_simps)
  also have "\<dots> mod 2 ^ 64 = 8 * (l + unat n) mod 2 ^ 64"
    unfolding assms by (simp add: mod_simps algebra_simps)
  finally show ?thesis .
qed

lemma length_memcpy_at [len_simps]:
  "at + length src \<le> length dst \<Longrightarrow> length (memcpy_at dst at src) = length dst"
  by (simp add: memcpy_at_def)

lemma ctx_holdsD:
  assumes "ctx_holds ctx m"
  shows "length (ctx_buffer ctx) = 64"
    and "rfc_absorb rfc_init (m @ inp) = rfc_absorb (ctx_state ctx) (take (length m mod 64) (ctx_buffer ctx) @ inp)"
    and "unat (ctx_count ctx ! 0) + 2 ^ 32 * unat (ctx_count ctx ! 1) = 8 * length m mod 2 ^ 64"
    and "unat (64 - (drop_bit 3 (ctx_count ctx ! 0) AND 0x3F)) = 64 - length m mod 64"
proof -
  let ?index = "drop_bit 3 (ctx_count ctx ! 0) AND 0x3F :: u32"
  have idx: "unat ?index = length m mod 64" by (rule ctx_index [OF assms])
  have "?index \<le> 64" unfolding word_le_nat_alt idx by simp
  from unat_sub [OF this] show "unat (64 - ?index) = 64 - length m mod 64" unfolding idx by simp
qed (use assms in \<open>auto simp: ctx_holds_def rfc_absorb_append [of rfc_init m inp]\<close>)

text \<open>An input that does not fill the buffer is only copied.\<close>

lemma MD5Update_short:
  assumes inv: "ctx_holds ctx m" and n: "unat n = length inp" and lt: "length m mod 64 + length inp < 64"
  shows "\<exists>ctx'. MD5Update ctx inp n = Some ctx' \<and> ctx_holds ctx' (m @ inp)"
proof -
  let ?r = "length m mod 64"
  let ?index = "drop_bit 3 (ctx_count ctx ! 0) AND 0x3F :: u32"
  note buf = ctx_holdsD(1) [OF inv] and part = ctx_holdsD(4) [OF inv]
  note cnt' = count_update [OF ctx_holdsD(3) [OF inv], of n, unfolded n, folded length_append]
  have "\<not> 64 - ?index \<le> n" using part n lt by (simp add: word_le_nat_alt)
  moreover have "(length m + length inp) mod 64 = ?r + length inp" using lt by (metis mod_add_left_eq mod_less)
  moreover have "rfc_absorb rfc_init (m @ inp) = (ctx_state ctx, take ?r (ctx_buffer ctx) @ inp)"
    unfolding ctx_holdsD(2) [OF inv] using lt buf by (simp add: rfc_absorb_small)
  moreover have "take (?r + length inp) (memcpy_at (ctx_buffer ctx) ?r inp) =
      take ?r (ctx_buffer ctx) @ inp"
    using buf lt by (simp add: memcpy_at_def)
  ultimately show ?thesis
    using lt buf cnt' ctx_index [OF inv] n
    by (auto simp: MD5Update_def Let_def ctx_holds_def length_memcpy_at)
qed

text \<open>Else the buffer is filled and transformed, then the whole blocks of the input, and the rest is copied.\<close>

lemma MD5Update_blocks:
  assumes inv: "ctx_holds ctx m" and n: "unat n = length inp" and lim: "length inp + 63 < 2 ^ 32"
    and ge: "64 - length m mod 64 \<le> length inp"
  shows "\<exists>ctx'. MD5Update ctx inp n = Some ctx' \<and> ctx_holds ctx' (m @ inp)"
proof -
  let ?r = "length m mod 64"
  let ?index = "drop_bit 3 (ctx_count ctx ! 0) AND 0x3F :: u32"
  note buf = ctx_holdsD(1) [OF inv] and part = ctx_holdsD(4) [OF inv]
  note cnt' = count_update [OF ctx_holdsD(3) [OF inv], of n, unfolded n, folded length_append]
  have r64: "?r < 64" by simp
  define buf1 where "buf1 = memcpy_at (ctx_buffer ctx) ?r (take (64 - ?r) inp)"
  have buf1: "buf1 = take ?r (ctx_buffer ctx) @ take (64 - ?r) inp"
    using ge buf r64 by (simp add: buf1_def memcpy_at_def)
  define st1 where "st1 = MD5Transform (ctx_state ctx) buf1"
  obtain j where j: "update_loop st1 inp n (64 - ?index) =
      Some (fst (rfc_absorb st1 (drop (64 - ?r) inp)), j)"
    "unat j \<le> length inp"
    "snd (rfc_absorb st1 (drop (64 - ?r) inp)) = drop (unat j) inp"
    using update_loop_absorb [OF n lim, of "64 - ?index" st1] part ge by auto
  have blk: "rfc_absorb rfc_init (m @ inp) = rfc_absorb st1 (drop (64 - ?r) inp)"
    unfolding ctx_holdsD(2) [OF inv] st1_def MD5Transform_rfc buf1
    using ge buf r64 by (subst rfc_absorb_block) simp_all
  have rest: "length (drop (unat j) inp) = length (m @ inp) mod 64"
    using rfc_absorb_rest_length [of rfc_init "m @ inp"] blk j(3) by simp
  let ?buf = "memcpy_at buf1 0 (take (unat (n - j)) (drop (unat j) inp))"
  have "unat (n - j) = length (drop (unat j) inp)" "length (drop (unat j) inp) < 64" "length buf1 = 64"
    using j(2) n rest buf1 buf ge r64 by (simp_all add: unat_sub word_le_nat_alt)
  then have "take (length (m @ inp) mod 64) ?buf = drop (unat j) inp" "length ?buf = 64"
    unfolding rest [symmetric] by (simp_all add: memcpy_at_def)
  moreover have "MD5Update ctx inp n = Some (ctx
     \<lparr>ctx_count := [ctx_count ctx ! 0 + push_bit 3 n,
        (if ctx_count ctx ! 0 + push_bit 3 n < push_bit 3 n then ctx_count ctx ! 1 + 1
         else ctx_count ctx ! 1) + drop_bit 29 n],
      ctx_state := fst (rfc_absorb st1 (drop (64 - ?r) inp)), ctx_buffer := ?buf\<rparr>)"
    using ge n j(1) part unfolding st1_def buf1_def MD5Update_def Let_def
    by (simp add: ctx_index [OF inv] word_le_nat_alt)
  moreover have "rfc_absorb rfc_init (m @ inp) =
      (fst (rfc_absorb st1 (drop (64 - ?r) inp)), drop (unat j) inp)"
    using blk j(3) by (metis prod.collapse)
  ultimately show ?thesis using cnt' by (simp add: ctx_holds_def)
qed

lemma MD5Update_holds:
  assumes "ctx_holds ctx m" "unat n = length inp" "length inp + 63 < 2 ^ 32"
  shows "\<exists>ctx'. MD5Update ctx inp n = Some ctx' \<and> ctx_holds ctx' (m @ inp)"
proof (cases "length m mod 64 + length inp < 64")
  case True
  then show ?thesis by (rule MD5Update_short [OF assms(1,2)])
next
  case False
  then show ?thesis by (intro MD5Update_blocks [OF assms]) simp
qed

lemma update_loop_take:
  assumes "unat n \<le> length input" and "unat n + 63 < 2 ^ 32" and "unat i \<le> unat n"
  shows "update_loop st input n i = update_loop st (take (unat n) input) n i"
  using assms(3)
proof (induction "unat n - unat i" arbitrary: i st rule: less_induct)
  case less
  have i63: "unat (i + 63) = unat i + 63"
    using assms less.prems by (simp add: unat_word_ariths)
  show ?case
  proof (cases "i + 63 < n")
    case True
    then have le: "unat i + 64 \<le> unat n" using i63 by (simp add: word_less_nat_alt)
    have i64: "unat (i + 64) = unat i + 64" using assms le by (simp add: unat_word_ariths)
    have "unat n - unat (i + 64) < unat n - unat i" "unat (i + 64) \<le> unat n"
      using le i64 by linarith+
    note IH = less.hyps [OF this]
    have "take 64 (drop (unat i) (take (unat n) input)) = take 64 (drop (unat i) input)"
      using le by (simp add: drop_take min_def)
    then show ?thesis using True IH
      by (simp add: update_loop.simps [of _ _ n i])
  next
    case False
    then show ?thesis by (simp add: update_loop.simps [of _ _ n i])
  qed
qed

lemma update_loop_le:
  assumes "unat n \<le> length input" and "unat n + 63 < 2 ^ 32" and "unat i \<le> unat n"
    and "update_loop st input n i = Some (st', j)"
  shows "unat j \<le> unat n"
  using assms(3,4)
proof (induction "unat n - unat i" arbitrary: i st rule: less_induct)
  case less
  have i63: "unat (i + 63) = unat i + 63"
    using assms less.prems by (simp add: unat_word_ariths)
  show ?case
  proof (cases "i + 63 < n")
    case True
    then have le: "unat i + 64 \<le> unat n" using i63 by (simp add: word_less_nat_alt)
    have i64: "unat (i + 64) = unat i + 64" using assms le by (simp add: unat_word_ariths)
    have "unat n - unat (i + 64) < unat n - unat i" "unat (i + 64) \<le> unat n"
      using le i64 by linarith+
    from less.hyps [OF this] less.prems(2) True show ?thesis
      by (simp add: update_loop.simps [of _ _ n i])
  next
    case False
    then show ?thesis using less.prems by (simp add: update_loop.simps [of _ _ n i])
  qed
qed
 
lemma MD5Update_take:
  assumes "ctx_holds ctx m" and "unat n \<le> length inp" and "unat n + 63 < 2 ^ 32"
  shows "MD5Update ctx inp n = MD5Update ctx (take (unat n) inp) n"
proof -
  let ?p = "64 - (drop_bit 3 (ctx_count ctx ! 0) AND 0x3F) :: u32"
  have t: "min (unat ?p) (unat n) = unat ?p" if "?p \<le> n"
    using that by (simp add: word_le_nat_alt min_def)
  have l: "update_loop st inp n ?p = update_loop st (take (unat n) inp) n ?p" if "?p \<le> n" for st
    using update_loop_take [OF assms(2,3), of ?p st] that unfolding word_le_nat_alt by simp
  have r: "take (unat (n - j)) (drop (unat j) (take (unat n) inp)) = take (unat (n - j)) (drop (unat j) inp)"
    if "?p \<le> n" "update_loop st (take (unat n) inp) n ?p = Some (st', j)" for st st' j
  proof -
    have "unat j \<le> unat n"
      using update_loop_le [OF assms(2,3)] that l [OF that(1)] unfolding word_le_nat_alt by metis
    then have "unat (n - j) = unat n - unat j" by (simp add: unat_sub word_le_nat_alt)
    then show ?thesis by (simp add: drop_take)
  qed
  show ?thesis
  proof (cases "?p \<le> n")
    case True
    show ?thesis
      unfolding MD5Update_def Let_def
      by (auto simp: True t [OF True] l [OF True] r [OF True] split: option.splits)
  next
    case False
    then show ?thesis by (simp add: MD5Update_def Let_def)
  qed
qed

lemma MD5Updates_holds:
  assumes "ctx_holds ctx m" and "\<forall>p \<in> set ps. length p + 63 < 2 ^ 32"
  shows "\<exists>ctx'. MD5Updates ctx ps = Some ctx' \<and> ctx_holds ctx' (m @ concat ps)"
  using assms
proof (induction ps arbitrary: ctx m)
  case Nil
  then show ?case by simp
next
  case (Cons p ps)
  have "unat (of_nat (length p) :: u32) = length p"
    using Cons.prems by (simp add: unat_of_nat)
  from MD5Update_holds [OF Cons.prems(1) this] Cons.prems(2)
  obtain c where c: "MD5Update ctx p (of_nat (length p)) = Some c" "ctx_holds c (m @ p)" by auto
  from Cons.IH [OF c(2)] Cons.prems(2) c(1) show ?case by auto
qed

section \<open>Finalization\<close>

lemma Encode_two:
  "Encode [c0, c1] 8 = map (\<lambda>k. ucast (drop_bit (8 * k) c0 AND 0xff)) [0..<4] @
     map (\<lambda>k. ucast (drop_bit (8 * k) c1 AND 0xff)) [0..<4]"
proof -
  have "[0..<4] = [0, 1, 2, 3::nat]" by (simp add: upt_rec)
  then show ?thesis by (simp add: Encode_def upt_rec)
qed

lemma byte_of_word:
  fixes c :: u32
  assumes "unat c = drop_bit s (take_bit (s + 32) x)" and "8 * k + 8 \<le> 32"
  shows "ucast (drop_bit (8 * k) c AND 0xff) = (word_of_nat (drop_bit (8 * k + s) x) :: u8)"
proof (rule bit_word_eqI)
  fix j assume j: "j < LENGTH(8)"
  have ff: "(0xff :: u32) = mask 8" by (simp add: mask_eq_exp_minus_1)
  have "bit c (8 * k + j) = bit (unat c) (8 * k + j)"
    by (simp add: bit_unsigned_iff)
  then show "bit (ucast (drop_bit (8 * k) c AND 0xff) :: u8) j =
      bit (word_of_nat (drop_bit (8 * k + s) x) :: u8) j"
    using j assms(2) unfolding ff
    by (simp add: assms(1) bit_simps ac_simps del: mask_numeral)
qed

lemma length_bytes:
  fixes c0 c1 :: u32
  assumes "unat c0 + 2 ^ 32 * unat c1 = x mod 2 ^ 64"
  shows "Encode [c0, c1] 8 = map (\<lambda>k. word_of_nat (x div 256 ^ k)) [0..<8]"
proof -
  have lt: "unat c0 < 2 ^ 32" using unsigned_less [of c0, where ?'a = nat] by simp
  have c0: "unat c0 = drop_bit 0 (take_bit (0 + 32) x)"
  proof -
    have "unat c0 = (unat c0 + 2 ^ 32 * unat c1) mod 2 ^ 32" using lt by simp
    also have "\<dots> = x mod 2 ^ 32" unfolding assms
      by (rule mod_mod_cancel) (rule le_imp_power_dvd, simp)
    finally show ?thesis by (simp add: take_bit_eq_mod)
  qed
  have c1: "unat c1 = drop_bit 32 (take_bit (32 + 32) x)"
  proof -
    have "unat c1 = (unat c0 + 2 ^ 32 * unat c1) div 2 ^ 32" using lt by simp
    then show ?thesis unfolding assms by (simp add: take_bit_eq_mod drop_bit_eq_div)
  qed
  have p: "x div 256 ^ k = drop_bit (8 * k) x" for k
    by (simp add: drop_bit_eq_div power_mult)
  have split: "[0..<8] = [0..<4] @ map (\<lambda>k. k + 4) [0..<4::nat]"
    by (simp add: upt_rec)
  show ?thesis
    unfolding Encode_two split map_append map_map p
    by (intro arg_cong2 [of _ _ _ _ "(@)"] map_cong refl)
      (use byte_of_word [OF c0] byte_of_word [OF c1] in \<open>auto simp: algebra_simps\<close>)
qed
section \<open>The byte codec\<close>

lemma word_of_bytes:
  "ucast (ucast (w AND 0xff) :: u8)
   OR push_bit 8 (ucast (ucast (drop_bit 8 w AND 0xff) :: u8))
   OR push_bit 16 (ucast (ucast (drop_bit 16 w AND 0xff) :: u8))
   OR push_bit 24 (ucast (ucast (drop_bit 24 w AND 0xff) :: u8)) = (w :: u32)"
proof -
  have byte: "ucast (ucast (x AND 0xff) :: u8) = take_bit 8 x" for x :: u32
    by (rule bit_word_eqI) (simp add: bit_simps flip: take_bit_eq_mask [of 8 x, simplified mask_eq_exp_minus_1, simplified])
  have "bit (take_bit 8 w OR push_bit 8 (take_bit 8 (drop_bit 8 w))
      OR push_bit 16 (take_bit 8 (drop_bit 16 w)) OR push_bit 24 (take_bit 8 (drop_bit 24 w))) i = bit w i"
    if i: "i < 32" for i
  proof -
    consider "i < 8" | "8 \<le> i" "i < 16" | "16 \<le> i" "i < 24" | "24 \<le> i" by linarith
    then show ?thesis
      by cases (use i in \<open>auto simp: bit_or_iff bit_push_bit_iff bit_take_bit_iff bit_drop_bit_eq less_diff_conv2\<close>)
  qed
  then show ?thesis unfolding byte by (intro bit_word_eqI) simp
qed

lemma length_Encode [len_simps]: "length (Encode ws (4 * n)) = 4 * n"
proof -
  have "(4 * n + 3) div 4 = n" by simp
  then show ?thesis by (simp add: Encode_def length_concat comp_def sum_list_triv)
qed

text \<open>
  The little-endian byte codec of the digest: decoding what \<^verbatim>\<open>Encode\<close> wrote gives the
  words back, for any number of words.
\<close>

theorem Decode_Encode:
  assumes "length ws = n"
  shows "Decode (Encode ws (4 * n)) (4 * n) = ws"
proof -
  have n: "(4 * n + 3) div 4 = n" by simp
  let ?f = "\<lambda>i. [ucast (ws ! i AND 0xff), ucast (drop_bit 8 (ws ! i) AND 0xff),
    ucast (drop_bit 16 (ws ! i) AND 0xff), ucast (drop_bit 24 (ws ! i) AND 0xff)] :: u8 list"
  have nth: "Encode ws (4 * n) ! (4 * i + k) = ?f i ! k" if "i < n" "k < 4" for i k
    unfolding Encode_def n using nth_concat_uniform [of "[0..<n]" ?f 4 i k] that by simp
  have "Decode (Encode ws (4 * n)) (4 * n) = map (\<lambda>i. ws ! i) [0..<n]"
    unfolding Decode_def n
  proof (rule map_cong [OF refl])
    fix i assume "i \<in> set [0..<n]"
    then show "ucast (Encode ws (4 * n) ! (4 * i))
            OR push_bit 8 (ucast (Encode ws (4 * n) ! (4 * i + 1)))
            OR push_bit 16 (ucast (Encode ws (4 * n) ! (4 * i + 2)))
            OR push_bit 24 (ucast (Encode ws (4 * n) ! (4 * i + 3))) = ws ! i"
      using nth [of i 0] nth [of i 1] nth [of i 2] nth [of i 3] word_of_bytes by simp
  qed
  also have "\<dots> = ws" using assms map_nth [of ws] by simp
  finally show ?thesis .
qed

theorem Decode_Encode_witness:
  "Decode (Encode [0x01234567, 0x89abcdef] (4 * 2)) (4 * 2) = [0x01234567, 0x89abcdef]"
  by (rule Decode_Encode) simp

section \<open>Finalization and the digest\<close>

definition md5_zero :: MD5_CTX where
  "md5_zero = \<lparr>ctx_state = replicate 4 0, ctx_count = replicate 2 0, ctx_buffer = replicate 64 0\<rparr>"

lemma pad_length:
  fixes index :: u32
  assumes "unat index = r" and "r < 64"
  shows "unat (if index < 56 then 56 - index else 120 - index) = Suc ((119 - r) mod 64)"
proof (cases "r < 56")
  case True
  then have "index < 56" and le: "index \<le> 56" using assms by (auto simp: word_less_nat_alt word_le_nat_alt)
  moreover have "(119 - r) mod 64 = 55 - r" using True by (simp add: mod_if)
  ultimately show ?thesis using unat_sub [OF le] assms True by simp
next
  case False
  then have "\<not> index < 56" and le: "index \<le> 120" using assms by (auto simp: word_less_nat_alt word_le_nat_alt)
  moreover have "(119 - r) mod 64 = 119 - r" using False assms by simp
  ultimately show ?thesis using unat_sub [OF le] assms by simp
qed

lemma take_PADDING: "k \<le> 63 \<Longrightarrow> take (Suc k) PADDING = 0x80 # replicate k 0"
  by (simp add: PADDING_def min_def)

lemma rfc_pad_length_mod: "length (rfc_pad m) mod 64 = 0"
proof -
  define r where "r = length m mod 64"
  have len: "length (rfc_pad m) = length m + (9 + (119 - r) mod 64)" by (simp add: rfc_pad_def r_def)
  have "r < 64" by (simp add: r_def)
  then have z: "(119 - r) mod 64 = (if r < 56 then 55 - r else 119 - r)" by (simp add: mod_if)
  have "(r + (9 + (119 - r) mod 64)) mod 64 = 0"
    unfolding z using \<open>r < 64\<close> by (cases "r < 56") simp_all
  then show ?thesis unfolding len r_def by (simp only: mod_add_left_eq)
qed

lemma MD5Final_holds:
  assumes "ctx_holds ctx m"
  shows "MD5Final ctx = Some (rfc_md5 m, md5_zero)"
proof -
  let ?r = "length m mod 64" and ?z = "(119 - length m mod 64) mod 64"
  let ?index = "drop_bit 3 (ctx_count ctx ! 0) AND 0x3F :: u32"
  let ?pad = "if ?index < 56 then 56 - ?index else 120 - ?index"
  have len: "unat ?pad = Suc ?z" by (rule pad_length [OF ctx_index [OF assms]]) simp
  have pad: "take (unat ?pad) PADDING = 0x80 # replicate ?z 0"
    unfolding len using mod_less_divisor [of 64 "119 - ?r"] by (intro take_PADDING) linarith
  have "unat ?pad \<le> length PADDING" unfolding len PADDING_def by (simp add: Suc_leI)
  moreover have "unat ?pad + 63 < 2 ^ 32" using \<open>unat ?pad \<le> length PADDING\<close> by (simp add: PADDING_def)
  ultimately have eq: "MD5Update ctx PADDING ?pad = MD5Update ctx (0x80 # replicate ?z 0) ?pad"
    using MD5Update_take [OF assms] pad by metis
  obtain c1 where c1: "MD5Update ctx PADDING ?pad = Some c1" "ctx_holds c1 (m @ 0x80 # replicate ?z 0)"
    using MD5Update_holds [OF assms, of ?pad "0x80 # replicate ?z 0"] len
      \<open>unat ?pad + 63 < 2 ^ 32\<close> unfolding eq by auto
  let ?bits = "map (\<lambda>k. word_of_nat (8 * length m div 256 ^ k)) [0..<8] :: u8 list"
  have bits: "Encode (ctx_count ctx) 8 = ?bits"
  proof -
    from assms obtain a b where ab: "ctx_count ctx = [a, b]"
      by (auto simp: ctx_holds_def length_Suc_conv numeral_2_eq_2)
    show ?thesis unfolding ab using assms by (intro length_bytes) (simp add: ctx_holds_def ab)
  qed
  obtain c2 where c2: "MD5Update c1 ?bits 8 = Some c2" "ctx_holds c2 (rfc_pad m)"
    using MD5Update_holds [OF c1(2), of 8 ?bits] by (auto simp: rfc_pad_def)
  have "ctx_state c2 = fst (rfc_absorb rfc_init (rfc_pad m))"
    using c2(2) by (simp add: ctx_holds_def)
  then show ?thesis
    using c1(1) c2(1) unfolding MD5Final_def Let_def bits by (simp add: rfc_md5_def md5_zero_def)
qed

text \<open>The digest of \<^verbatim>\<open>abc\<close> from the test suite of RFC 1321, evaluated.\<close>

lemma rfc_step_eval: "rfc_step x i (a, b, c, d) =
  (d, b + ROTATE_LEFT (a + rfc_fun i b c d + x ! rfc_word i + rfc_T ! i) (rfc_shift i), b, c)"
proof -
  have "rfc_shift i < 32" by (auto simp: rfc_shift_def nth_Cons')
  then show ?thesis by (simp add: rfc_step_def ROTATE_LEFT_eq)
qed
lemmas rfc_eval = rfc_step_eval rfc_fun_def rfc_word_def rfc_shift_def rfc_T_def ROTATE_LEFT_def

lemma abc_block: "rfc_pad [0x61, 0x62, 0x63] = [0x61, 0x62, 0x63, 0x80] @ replicate 52 0 @ [24, 0, 0, 0, 0, 0, 0, 0]"
  by (simp add: rfc_pad_def upt_rec)
lemma abc_decode: "Decode (rfc_pad [0x61, 0x62, 0x63]) 64 = [0x80636261,0,0,0,0,0,0,0,0,0,0,0,0,0,24,0]"
  unfolding abc_block by (simp add: Decode_def upt_rec nth_append nth_Cons')
lemma abc_rounds: "fold (rfc_step [0x80636261,0,0,0,0,0,0,0,0,0,0,0,0,0,24,0]) [0..<64]
    (rfc_init ! 0, rfc_init ! 1, rfc_init ! 2, rfc_init ! 3) = (0x310ade8f, 0xc08226b3, 0xe484b9d8, 0x624d8cb2)"
  by (simp add: upt_rec rfc_eval)
lemma rfc_compress_eval:
  "fold (rfc_step (Decode block 64)) [0..<64] (st ! 0, st ! 1, st ! 2, st ! 3) = (a, b, c, d) \<Longrightarrow>
   rfc_compress st block = [st ! 0 + a, st ! 1 + b, st ! 2 + c, st ! 3 + d]"
  by (simp only: rfc_compress_def Let_def case_prod_conv)

lemma rfc_md5_abc: "rfc_md5 [0x61, 0x62, 0x63] = [0x90, 0x01, 0x50, 0x98, 0x3c, 0xd2, 0x4f, 0xb0,
    0xd6, 0x96, 0x3f, 0x7d, 0x28, 0xe1, 0x7f, 0x72]"
proof -
  have len: "length (rfc_pad [0x61, 0x62, 0x63]) = 64" unfolding abc_block by simp
  have "fst (rfc_absorb rfc_init (rfc_pad [0x61, 0x62, 0x63])) =
      rfc_compress rfc_init (rfc_pad [0x61, 0x62, 0x63])"
    by (subst rfc_absorb_block) (simp_all add: len rfc_absorb_small)
  also have "\<dots> = [rfc_init ! 0 + 0x310ade8f, rfc_init ! 1 + 0xc08226b3,
      rfc_init ! 2 + 0xe484b9d8, rfc_init ! 3 + 0x624d8cb2]"
    by (rule rfc_compress_eval) (simp only: abc_decode abc_rounds)
  finally show ?thesis unfolding rfc_md5_def by (simp add: Encode_def upt_rec)
qed

text \<open>
  C22. Streaming correctness of MD5: for every context with a 64-byte buffer and every way
  of cutting a message into pieces that the 32-bit length argument can hold,
  \<^verbatim>\<open>MD5Init\<close>, one \<^verbatim>\<open>MD5Update\<close> per piece and \<^verbatim>\<open>MD5Final\<close> all return, the digest is the
  RFC 1321 digest of the concatenation, and the context is zeroed.
\<close>

theorem md5_streaming_correct:
  assumes "length (ctx_buffer ctx) = 64" and "\<forall>p \<in> set ps. length p + 63 < 2 ^ 32"
  shows "\<exists>c. MD5Updates (MD5Init ctx) ps = Some c \<and> MD5Final c = Some (rfc_md5 (concat ps), md5_zero)"
proof -
  from MD5Updates_holds [OF ctx_holds_Init [OF assms(1)] assms(2)]
  obtain c where "MD5Updates (MD5Init ctx) ps = Some c" "ctx_holds c (concat ps)" by auto
  then show ?thesis using MD5Final_holds by blast
qed



theorem md5_streaming_correct_witness:
  "\<exists>c. MD5Updates (MD5Init md5_zero) [[0x61], [0x62, 0x63]] = Some c \<and>
     MD5Final c = Some ([0x90, 0x01, 0x50, 0x98, 0x3c, 0xd2, 0x4f, 0xb0,
       0xd6, 0x96, 0x3f, 0x7d, 0x28, 0xe1, 0x7f, 0x72], md5_zero)"
  using md5_streaming_correct [of md5_zero "[[0x61], [0x62, 0x63]]"]
  by (simp add: md5_zero_def rfc_md5_abc)

end
