(* ===== verification/StringUtils.thy ===== *)
theory StringUtils
  imports Md5
begin

text \<open>
  The string helpers of \<^verbatim>\<open>src/src/stringUtils.cpp\<close>: the text form of the MD5 digest, the
  advisory lock files, trimming, numbers and text, field splitting, replacement, time
  stamps, character-set conversion and the \<^verbatim>\<open>popen\<close> wrapper.  The operating system enters
  as parameters: \<open>popen\<close> (a command to its standard output), \<open>iconv\<close>, the JSON writer of
  jsoncpp and the broken-down local time.  A \<^verbatim>\<open>const char *\<close> that the code compares with
  \<^verbatim>\<open>NULL\<close> is a \<^typ>\<open>string option\<close>; strings are shorter than \<open>2\<^sup>31\<close> bytes, so that the
  \<^verbatim>\<open>int\<close> positions of the sources are exact.
\<close>

section \<open>MD5 as text\<close>

definition bytes_of :: "string \<Rightarrow> u8 list" where
  "bytes_of s = map (\<lambda>c. of_nat (ord c)) s"

text \<open>\<^verbatim>\<open>sprintf(ptr, "%2.2x", b)\<close>\<close>

definition hex2 :: "u8 \<Rightarrow> string" where
  "hex2 b = [hex_digit (unat b div 16), hex_digit (unat b mod 16)]"

definition hex_text :: "u8 list \<Rightarrow> string" where
  "hex_text bs = concat (map hex2 bs)"

text \<open>The result is the C string left in \<open>output\<close>; \<open>ctx\<close> is the uninitialised context on
  the stack.  The outer \<^const>\<open>None\<close> stands for an update loop that does not return.\<close>

definition md5_digest :: "MD5_CTX \<Rightarrow> string option \<Rightarrow> string option \<Rightarrow> string option option" where
  "md5_digest ctx input output =
     (case (output, input) of
        (Some _, Some s) \<Rightarrow>
          (case MD5Update (MD5Init ctx) (bytes_of (c_str s)) (of_nat (length (c_str s))) of
             None \<Rightarrow> None
           | Some c \<Rightarrow> (case MD5Final c of None \<Rightarrow> None
                       | Some (digest, _) \<Rightarrow> Some (Some (hex_text digest))))
      | _ \<Rightarrow> Some output)"

definition md5 :: "MD5_CTX \<Rightarrow> string \<Rightarrow> string option" where
  "md5 ctx str =
     (if str = '''' then Some ''''
      else case md5_digest ctx (Some str) (Some '''') of
             Some (Some obuf) \<Rightarrow> Some obuf | _ \<Rightarrow> None)"

text \<open>\<^verbatim>\<open>generate_token\<close>: the seed and the time in seconds go through a 1024-byte buffer; a
  longer text is a buffer overflow, the error value \<^const>\<open>None\<close> here.\<close>

definition generate_token ::
  "MD5_CTX \<Rightarrow> u32 \<Rightarrow> string option \<Rightarrow> string option \<Rightarrow> string option option" where
  "generate_token ctx now seed output =
     (case (output, seed) of
        (Some _, Some s) \<Rightarrow>
          (let inbuf = c_str s @ dec (unat now)
           in if length inbuf < 1024 then md5_digest ctx (Some inbuf) output else None)
      | _ \<Rightarrow> Some output)"

section \<open>Lock files\<close>

text \<open>
  What the kernel keeps for \<^verbatim>\<open>open\<close> and \<^verbatim>\<open>flock\<close>, for all processes: the open descriptors, each of a
  process and a number, with the files they are open on, and for each file the descriptor holding its
  exclusive lock.  A file is an inode, whatever names lead to it.
\<close>

record 'i lock_table =
  fds :: "((nat \<times> nat) \<times> 'i) list"
  flocks :: "'i \<Rightarrow> (nat \<times> nat) option"

definition free_fd :: "nat \<Rightarrow> 'i lock_table \<Rightarrow> nat" where
  "free_fd pid t = hd (filter (\<lambda>n. (pid, n) \<notin> fst ` set (fds t)) [0..<Suc (length (fds t))])"

definition os_unlock :: "nat \<times> nat \<Rightarrow> 'i lock_table \<Rightarrow> 'i lock_table" where
  "os_unlock d t = t\<lparr> flocks := (\<lambda>i. if flocks t i = Some d then None else flocks t i) \<rparr>"

definition os_close :: "nat \<times> nat \<Rightarrow> 'i lock_table \<Rightarrow> 'i lock_table" where
  "os_close d t = (os_unlock d t)\<lparr> fds := filter (\<lambda>(e, _). e \<noteq> d) (fds t) \<rparr>"

text \<open>\<open>open_file\<close> is the file that \<^verbatim>\<open>open(O_RDWR | O_CREAT)\<close> opens under a name, if it succeeds.\<close>

definition lockFile :: "nat \<Rightarrow> (string \<Rightarrow> 'i option) \<Rightarrow> string \<Rightarrow> 'i lock_table \<Rightarrow> int \<times> 'i lock_table" where
  "lockFile pid open_file fileName t =
     (case open_file (c_str fileName) of
        None \<Rightarrow> (- 1, t)
      | Some i \<Rightarrow>
          (let fd = free_fd pid t; t1 = t\<lparr> fds := ((pid, fd), i) # fds t \<rparr>
           in case flocks t1 i of
                None \<Rightarrow> (int fd, t1\<lparr> flocks := (flocks t1)(i \<mapsto> (pid, fd)) \<rparr>)
              | Some _ \<Rightarrow> (0, os_close (pid, fd) t1)))"

definition unlockFile :: "nat \<Rightarrow> int \<Rightarrow> 'i lock_table \<Rightarrow> 'i lock_table" where
  "unlockFile pid fd t = (if fd \<le> 2 then t else os_close (pid, nat fd) (os_unlock (pid, nat fd) t))"

section \<open>Trimming, numbers, case\<close>

definition ltrim :: "string \<Rightarrow> string" where
  "ltrim str = (if str = '''' then ''''
     else case find_first (\<lambda>c. c \<noteq> SP) str 0 of None \<Rightarrow> '''' | Some i \<Rightarrow> drop i str)"

text \<open>\<^verbatim>\<open>npos + 1\<close> is 0: an all-blank string is erased from its start.\<close>

definition rtrim :: "string \<Rightarrow> string" where
  "rtrim str = (if str = '''' then ''''
     else case find_last (\<lambda>c. c \<noteq> SP) str of None \<Rightarrow> '''' | Some i \<Rightarrow> take (Suc i) str)"

definition trim :: "string \<Rightarrow> string" where
  "trim str = (if str = '''' then '''' else rtrim (ltrim str))"

abbreviation INT_MAX :: int where "INT_MAX \<equiv> 2147483647"
abbreviation INT_MIN :: int where "INT_MIN \<equiv> - 2147483648"

definition int2str :: "int \<Rightarrow> string" where
  "int2str i = dec_int i"

text \<open>An integer as \<^verbatim>\<open>>>\<close> and \<^verbatim>\<open>%d\<close> scan it: white space, an optional sign, digits.  The
  result carries the unscanned rest.\<close>

definition scan_int :: "string \<Rightarrow> (int \<times> string) option" where
  "scan_int s =
     (let s1 = dropWhile c_isspace s;
          neg = (s1 \<noteq> [] \<and> hd s1 = CHR ''-'');
          s2 = (if s1 \<noteq> [] \<and> (hd s1 = CHR ''-'' \<or> hd s1 = CHR ''+'') then tl s1 else s1);
          ds = takeWhile c_isdigit s2;
          v = int (radix_val 10 ds)
      in if ds = [] then None else Some (if neg then - v else v, dropWhile c_isdigit s2))"

text \<open>A value out of range is stored as the nearest \<^verbatim>\<open>int\<close>; no digits at all store 0.\<close>

definition str2int :: "string \<Rightarrow> int" where
  "str2int s = (if s = '''' then 0
     else case scan_int s of None \<Rightarrow> 0 | Some (v, _) \<Rightarrow> max INT_MIN (min INT_MAX v))"

definition str2Upper :: "string \<Rightarrow> string" where
  "str2Upper str = map c_toupper str"

definition str2Lower :: "string \<Rightarrow> string" where
  "str2Lower str = map c_tolower str"

fun strIsDigit :: "string \<Rightarrow> bool" where
  "strIsDigit [] = True"
| "strIsDigit (c # cs) = (if c_isdigit c then strIsDigit cs else False)"

section \<open>Splitting and replacing\<close>

function split_from :: "string \<Rightarrow> string \<Rightarrow> nat \<Rightarrow> string list \<Rightarrow> string list" where
  "split_from src token nbegin vect =
     (case find_first (\<lambda>c. c \<in> set token) src nbegin of
        None \<Rightarrow> (let sub = substr src nbegin (length src - nbegin)
                in if sub \<noteq> [] then vect @ [sub] else vect)
      | Some nend \<Rightarrow> (let sub = substr src nbegin (nend - nbegin)
                in split_from src token (nend + 1) (if sub \<noteq> [] then vect @ [sub] else vect)))"
  by pat_completeness auto
termination
  by (relation "measure (\<lambda>(src, _, nbegin, _). length src - nbegin)")
    (auto dest: find_first_bounds)

definition split :: "string \<Rightarrow> string \<Rightarrow> string list \<Rightarrow> string list" where
  "split src token vect = split_from src token 0 vect"

function split_ex_from :: "string \<Rightarrow> string \<Rightarrow> nat \<Rightarrow> string list \<Rightarrow> string list" where
  "split_ex_from src token nbegin vect =
     (case find_first (\<lambda>c. c \<in> set token) src nbegin of
        None \<Rightarrow> vect @ [substr src nbegin (length src - nbegin)]
      | Some nend \<Rightarrow> split_ex_from src token (nend + 1) (vect @ [substr src nbegin (nend - nbegin)]))"
  by pat_completeness auto
termination
  by (relation "measure (\<lambda>(src, _, nbegin, _). length src - nbegin)")
    (auto dest: find_first_bounds)

definition split_ex :: "string \<Rightarrow> string \<Rightarrow> string list \<Rightarrow> string list" where
  "split_ex src token vect = split_ex_from src token 0 vect"

declare split_from.simps [simp del] split_ex_from.simps [simp del]

text \<open>The loop of \<^verbatim>\<open>replace_all\<close> restarts the search at position 0, so it may never end:
  not returning is \<^const>\<open>None\<close>.\<close>

partial_function (option) replace_all :: "string \<Rightarrow> string \<Rightarrow> string \<Rightarrow> string option" where
  "replace_all str old_value new_value =
     (case find_sub str old_value 0 of
        None \<Rightarrow> Some str
      | Some pos \<Rightarrow> replace_all
          (take pos str @ new_value @ drop (pos + length old_value) str) old_value new_value)"

definition replace_char :: "char \<Rightarrow> string" where
  "replace_char c =
     (if c = CHR 0x5C then [CHR 0x5C, CHR 0x5C]
      else if c = DQUOTE then [DQUOTE]
      else if c = CHR ''/'' then [CHR 0x5C, CHR ''/'']
      else if c = TAB then [CHR 0x5C, CHR ''t'']
      else if c = LF then [CHR 0x5C, CHR ''n'']
      else if c = CR then [CHR 0x5C, CHR ''r'']
      else if c = CHR 0x08 then [CHR 0x5C, CHR ''b'']
      else if c = CHR 0x0C then [CHR 0x5C, CHR ''f'']
      else [c])"

definition Replace :: "string \<Rightarrow> string" where
  "Replace data = concat (map replace_char (c_str data))"

text \<open>What \<^verbatim>\<open>dump_hex\<close> prints.\<close>

definition dump_hex :: "string option \<Rightarrow> string \<Rightarrow> nat \<Rightarrow> string" where
  "dump_hex title buff len =
     ''---- '' @ (case title of None \<Rightarrow> ''(NULL)'' | Some t \<Rightarrow> c_str t) @ '' ----'' @ CRLF @
     concat (map (\<lambda>i. hex2 (of_nat (ord (buff ! i))) @ [SP] @
       (if (i + 1) mod 8 = 0 then [LF] else [])) [0..<len]) @ CRLF"

section \<open>JSON text, time stamps, character sets\<close>

text \<open>jsoncpp's parser and writer are parameters: \<open>parse\<close> reports success with the value,
  \<open>writeString\<close> takes the builder's settings.\<close>

definition string2json :: "(string \<Rightarrow> 'v option) \<Rightarrow> string \<Rightarrow> 'v \<Rightarrow> int \<times> 'v" where
  "string2json parse str data = (case parse str of Some v \<Rightarrow> (0, v) | None \<Rightarrow> (- 1, data))"

definition json_format_string ::
  "((string \<Rightarrow> string option) \<Rightarrow> 'v \<Rightarrow> string) \<Rightarrow> (string \<Rightarrow> string option) \<Rightarrow> 'v \<Rightarrow> bool \<Rightarrow> string" where
  "json_format_string writeString builder data is_format =
     (if is_format then writeString (builder(''indentation'' \<mapsto> '''')) data
      else writeString builder data)"

definition json_unformat_string ::
  "((string \<Rightarrow> string option) \<Rightarrow> 'v \<Rightarrow> string) \<Rightarrow> (string \<Rightarrow> string option) \<Rightarrow> 'v \<Rightarrow> string" where
  "json_unformat_string writeString builder data = writeString builder data"

record tm =
  tm_year :: nat
  tm_mon :: nat
  tm_mday :: nat
  tm_hour :: nat
  tm_min :: nat
  tm_sec :: nat

definition GetCurrentDTstring :: "tm \<Rightarrow> nat \<Rightarrow> string" where
  "GetCurrentDTstring t tv_usec =
     dec (tm_year t + 1900) @ ''-'' @ pad0 2 (dec (tm_mon t + 1)) @ ''-'' @ pad0 2 (dec (tm_mday t)) @
     '' '' @ pad0 2 (dec (tm_hour t)) @ '':'' @ pad0 2 (dec (tm_min t)) @ '':'' @
     pad0 2 (dec (tm_sec t)) @ ''.'' @ pad0 6 (dec tv_usec)"

definition GetCurrentDTstring2 :: "tm \<Rightarrow> string" where
  "GetCurrentDTstring2 t =
     dec (tm_year t + 1900) @ pad0 2 (dec (tm_mon t + 1)) @ pad0 2 (dec (tm_mday t)) @ ''_'' @
     pad0 2 (dec (tm_hour t)) @ pad0 2 (dec (tm_min t))"

text \<open>\<open>iconv_open to from\<close> is the descriptor (0 only on a null one), \<open>iconv cd src room\<close> the
  \<^verbatim>\<open>size_t\<close> result and the bytes it stored in the zeroed output buffer.\<close>

definition code_convert ::
  "(string \<Rightarrow> string \<Rightarrow> nat) \<Rightarrow> (nat \<Rightarrow> string \<Rightarrow> nat \<Rightarrow> u64 \<times> string) \<Rightarrow>
   string \<Rightarrow> string \<Rightarrow> string \<Rightarrow> string" where
  "code_convert iconv_open iconv from_charset to_charset sourceStr =
     (let cd = iconv_open to_charset from_charset
      in if cd = 0 then ''''
         else if length sourceStr = 0 then ''''
         else let (r, outbuf) = iconv cd sourceStr (length sourceStr * 2 + 1)
           in if r > 0 then c_str outbuf else '''')"

definition gbk_utf8 ::
  "(string \<Rightarrow> string \<Rightarrow> nat) \<Rightarrow> (nat \<Rightarrow> string \<Rightarrow> nat \<Rightarrow> u64 \<times> string) \<Rightarrow> string \<Rightarrow> string" where
  "gbk_utf8 iconv_open iconv strdata =
     (let newcode = code_convert iconv_open iconv ''gb18030'' ''utf-8'' strdata
      in if length newcode \<le> 0 then code_convert iconv_open iconv ''gb2312'' ''utf-8'' strdata
         else newcode)"

definition utf8_gbk ::
  "(string \<Rightarrow> string \<Rightarrow> nat) \<Rightarrow> (nat \<Rightarrow> string \<Rightarrow> nat \<Rightarrow> u64 \<times> string) \<Rightarrow> string \<Rightarrow> string" where
  "utf8_gbk iconv_open iconv strdata =
     (let newcode = code_convert iconv_open iconv ''utf-8'' ''gb18030'' strdata
      in if length newcode \<le> 0 then code_convert iconv_open iconv ''utf-8'' ''gb2312'' strdata
         else newcode)"

section \<open>Commands\<close>

text \<open>The pieces that repeated \<^verbatim>\<open>fgets(buf, Suc n, f)\<close> calls return: each ends after a newline
  or after \<open>n\<close> characters.\<close>

function fgets_all :: "nat \<Rightarrow> string \<Rightarrow> string list" where
  "fgets_all n s =
     (if n = 0 \<or> s = [] then []
      else let l = min n (case find_first (\<lambda>c. c = LF) s 0 of Some i \<Rightarrow> Suc i | None \<Rightarrow> length s)
           in take l s # fgets_all n (drop l s))"
  by pat_completeness auto
termination
  by (relation "measure (length \<circ> snd)") (auto split: option.splits)

declare fgets_all.simps [simp del]

type_synonym 'w popen = "'w \<Rightarrow> string \<Rightarrow> 'w \<times> string option"

definition cmd_system :: "'w popen \<Rightarrow> 'w \<Rightarrow> string option \<Rightarrow> 'w \<times> string" where
  "cmd_system popen w command =
     (case command of
        None \<Rightarrow> (w, '''')
      | Some c \<Rightarrow>
          if length (c_str c) = 0 then (w, '''')
          else case popen w (c_str c) of
                 (w', None) \<Rightarrow> (w', '''')
               | (w', Some out) \<Rightarrow>
                   (w', foldl (\<lambda>_ buf. c_str buf) '''' (fgets_all 2046 out)))"

definition calculate_file_md5 :: "'w popen \<Rightarrow> 'w \<Rightarrow> string \<Rightarrow> 'w \<times> string" where
  "calculate_file_md5 popen w file_path =
     (let cmd = ''md5sum '' @ [DQUOTE] @ file_path @ [DQUOTE];
          (w', md5) = cmd_system popen w (Some cmd);
          vect = split md5 '' '' []
      in (w', if length vect > 0 then vect ! 0 else ''''))"

text \<open>\<^verbatim>\<open>sscanf\<close> with \<^verbatim>\<open>%d.%d.%d.%d\<close>: the converted numbers, as many as matched.  A number too
  large for \<^verbatim>\<open>int\<close> keeps its low 32 bits, as glibc stores it.\<close>

definition wrap_int :: "int \<Rightarrow> int" where
  "wrap_int v = sint (word_of_int (max (- (2 ^ 63)) (min (2 ^ 63 - 1) v)) :: u32)"

fun scan_dotted :: "nat \<Rightarrow> string \<Rightarrow> int list" where
  "scan_dotted 0 s = []"
| "scan_dotted (Suc k) s =
     (case scan_int s of
        None \<Rightarrow> []
      | Some (v, r) \<Rightarrow> wrap_int v #
          (if k \<noteq> 0 \<and> r \<noteq> [] \<and> hd r = CHR ''.'' then scan_dotted k (tl r) else []))"

definition IsIpAddress :: "string \<Rightarrow> bool" where
  "IsIpAddress address =
     (let v = scan_dotted 4 (c_str address)
      in length v = 4 \<and> 0 \<le> v ! 0 \<and> v ! 0 \<le> 255 \<and> 0 \<le> v ! 1 \<and> v ! 1 \<le> 255 \<and>
         0 \<le> v ! 2 \<and> v ! 2 \<le> 255 \<and> 0 \<le> v ! 3 \<and> v ! 3 \<le> 255)"

section \<open>Fields\<close>

lemma split_ex_from_fields:
  "split_ex_from src token n vect = vect @ pieces (\<lambda>c. c \<in> set token) (drop n src)"
proof (induction src token n vect rule: split_ex_from.induct)
  case (1 src token n vect)
  show ?case
  proof (cases "find_first (\<lambda>c. c \<in> set token) src n")
    case None
    then show ?thesis
      by (simp add: split_ex_from.simps [of src token n] fields_find_first_None substr_def)
  next
    case (Some i)
    then show ?thesis using 1
      by (simp add: split_ex_from.simps [of src token n] fields_find_first_Some)
  qed
qed

lemma split_from_fields:
  "split_from src token n vect =
     vect @ filter (\<lambda>f. f \<noteq> []) (pieces (\<lambda>c. c \<in> set token) (drop n src))"
proof (induction src token n vect rule: split_from.induct)
  case (1 src token n vect)
  show ?case
  proof (cases "find_first (\<lambda>c. c \<in> set token) src n")
    case None
    then show ?thesis
      by (simp add: split_from.simps [of src token n] fields_find_first_None substr_def Let_def)
  next
    case (Some i)
    then show ?thesis using 1
      by (simp add: split_from.simps [of src token n] fields_find_first_Some Let_def)
  qed
qed

text \<open>
  Splitting: \<^verbatim>\<open>split_ex\<close> returns the maximal runs without a separator in order, none of
  them contains a separator, putting the separators of the source back between them gives
  the source, and \<^verbatim>\<open>split\<close> returns the same fields less the empty ones.
\<close>

theorem split_fields:
  "split_ex src token [] = pieces (\<lambda>c. c \<in> set token) src \<and>
   split src token [] = filter (\<lambda>f. f \<noteq> []) (split_ex src token []) \<and>
   weave (split_ex src token []) (filter (\<lambda>c. c \<in> set token) src) = src \<and>
   list_all (list_all (\<lambda>c. c \<notin> set token)) (split_ex src token [])"
  by (auto simp: split_ex_def split_def split_ex_from_fields split_from_fields weave_fields
      list_all_iff dest: fields_free)


section \<open>Numbers\<close>

lemma digit_not_special: "c_isdigit d \<Longrightarrow> \<not> c_isspace d \<and> d \<noteq> CHR ''-'' \<and> d \<noteq> CHR ''+''"
  by (auto simp: c_isdigit_def c_isspace_def)

lemma scan_digits:
  assumes "list_all c_isdigit ds" "ds \<noteq> []" "r = [] \<or> \<not> c_isdigit (hd r)"
  shows "scan_int (ds @ r) = Some (int (radix_val 10 ds), r)"
    "scan_int (CHR ''-'' # ds @ r) = Some (- int (radix_val 10 ds), r)"
proof -
  obtain d ds' where d: "ds = d # ds'" using assms(2) by (cases ds) auto
  have ok: "\<not> c_isspace d" "d \<noteq> CHR ''-''" "d \<noteq> CHR ''+''" "\<not> c_isspace (CHR ''-'')"
    using assms(1) digit_not_special [of d] by (auto simp: d c_isspace_def)
  note w = takeWhile_append_stop [OF assms(1,3)] dropWhile_append_stop [OF assms(1,3)]
  show "scan_int (ds @ r) = Some (int (radix_val 10 ds), r)"
    using w ok assms(2) unfolding scan_int_def Let_def by (simp add: d)
  show "scan_int (CHR ''-'' # ds @ r) = Some (- int (radix_val 10 ds), r)"
    using w ok assms(2) unfolding scan_int_def Let_def by simp
qed

lemma scan_int_dec:
  assumes "r = [] \<or> \<not> c_isdigit (hd r)"
  shows "scan_int (dec_int i @ r) = Some (i, r)"
  using scan_digits [OF dec_all_digits radix_nonempty assms] by (simp add: dec_int_def)

text \<open>
  \<^verbatim>\<open>str2int\<close> reads back what \<^verbatim>\<open>int2str\<close> wrote, for every 32-bit \<^verbatim>\<open>int\<close>.
\<close>

theorem str2int_int2str:
  assumes "INT_MIN \<le> i" "i \<le> INT_MAX"
  shows "str2int (int2str i) = i"
  using scan_int_dec [of "[]" i] assms
  by (simp add: str2int_def int2str_def) (simp add: dec_int_def)

theorem str2int_int2str_witness: "str2int (int2str (- 2147483648)) = - 2147483648"
  by (rule str2int_int2str) simp_all

lemma scan_nat_dec: "r = [] \<or> \<not> c_isdigit (hd r) \<Longrightarrow> scan_int (dec n @ r) = Some (int n, r)"
  using scan_int_dec [of r "int n"] by (simp add: dec_int_def)

definition dotted :: "nat list \<Rightarrow> string" where
  "dotted xs = concat (map (\<lambda>x. dec x @ ''.'') (butlast xs)) @ dec (last xs)"

lemma scan_dotted_dec: "xs \<noteq> [] \<Longrightarrow> length xs = k \<Longrightarrow> 
   scan_dotted k (dotted xs) = map (\<lambda>x. wrap_int (int x)) xs"
proof (induction xs arbitrary: k)
  case (Cons x xs)
  show ?case
  proof (cases xs)
    case Nil
    then show ?thesis using Cons.prems scan_nat_dec [of "[]"] by (auto simp: dotted_def)
  next
    case (Cons y ys)
    have "dotted (x # xs) = dec x @ CHR ''.'' # dotted xs" using Cons by (simp add: dotted_def)
    moreover have "scan_int (dec x @ CHR ''.'' # dotted xs) = Some (int x, CHR ''.'' # dotted xs)"
      by (rule scan_nat_dec) (simp add: c_isdigit_def)
    ultimately show ?thesis using Cons.IH Cons.prems Cons by auto
  qed
qed simp

lemma wrap_int_small: "x < 2 ^ 31 \<Longrightarrow> wrap_int (int x) = int x"
proof -
  assume "x < 2 ^ 31"
  then have "max (- (2 ^ 63)) (min (2 ^ 63 - 1) (int x)) = int x" by simp
  then show ?thesis using \<open>x < 2 ^ 31\<close> unfolding wrap_int_def
    by (simp add: sint_uint unsigned_of_nat signed_take_bit_int_eq_self take_bit_nat_eq_self) 
qed

lemma dotted_no_nul: "NUL \<notin> set (dotted xs)"
  by (auto simp: dotted_def c_isdigit_def dest: dec_digits)

text \<open>
  On four decimal numbers below \<open>2\<^sup>31\<close> with dots between them \<^verbatim>\<open>IsIpAddress\<close> holds exactly
  when each number is at most 255.
\<close>

theorem IsIpAddress_dotted_quad:
  assumes "a < 2 ^ 31" "b < 2 ^ 31" "c < 2 ^ 31" "d < 2 ^ 31"
  shows "IsIpAddress (dec a @ ''.'' @ dec b @ ''.'' @ dec c @ ''.'' @ dec d) \<longleftrightarrow>
     a \<le> 255 \<and> b \<le> 255 \<and> c \<le> 255 \<and> d \<le> 255"
proof -
  have "IsIpAddress (dotted [a, b, c, d]) \<longleftrightarrow> a \<le> 255 \<and> b \<le> 255 \<and> c \<le> 255 \<and> d \<le> 255"
    unfolding IsIpAddress_def using assms
    by (simp add: Let_def scan_dotted_dec dotted_no_nul wrap_int_small)
  then show ?thesis by (simp add: dotted_def)
qed

theorem IsIpAddress_dotted_quad_witness:
  "IsIpAddress (dec 10 @ ''.'' @ dec 0 @ ''.'' @ dec 255 @ ''.'' @ dec 1)"
  by (subst IsIpAddress_dotted_quad) simp_all

section \<open>Replacement\<close>

lemma find_sub_occurs: "find_sub s pat 0 = None \<longleftrightarrow> \<not> sublist pat s"
proof
  assume n: "find_sub s pat 0 = None"
  show "\<not> sublist pat s"
  proof
    assume "sublist pat s"
    then obtain a b where s: "s = a @ pat @ b" by (auto simp: sublist_def)
    then have "prefix pat (drop (length a) s)" by simp
    then show False using find_sub_None [OF n, of "length a"] s by simp
  qed
next
  assume ns: "\<not> sublist pat s"
  show "find_sub s pat 0 = None"
  proof (cases "find_sub s pat 0")
    case (Some i)
    from find_sub_Some(3) [OF this] have "sublist pat s"
      by (metis prefix_imp_sublist sublist_drop sublist_order.order.trans)
    then show ?thesis using ns by simp
  qed
qed

lemma replace_all_result:
  "replace_all str old new = Some r \<Longrightarrow> \<not> sublist old r"
proof (induction rule: replace_all.raw_induct [rotated, consumes 1, case_names step])
  case (step f str old new r)
  then show ?case by (auto simp: find_sub_occurs split: option.splits)
qed

lemma replace_all_diverges:
  assumes "sublist old new" "sublist old str"
  shows "replace_all str old new = None"
proof -
  have False if "replace_all str old new = Some r" for r
    using that assms
  proof (induction rule: replace_all.raw_induct [rotated, consumes 1, case_names step])
    case (step f str old new r)
    then obtain p where p: "find_sub str old 0 = Some p"
      by (cases "find_sub str old 0") (auto simp: find_sub_occurs)
    let ?s = "take p str @ new @ drop (p + length old) str"
    have "sublist old ?s" 
      by (rule sublist_order.order.trans [OF step.prems(1)]) (rule sublist_appendI)
    moreover have "f ?s old new = Some r" using step.hyps p by simp
    ultimately show False using step.IH step.prems(1) by blast
  qed
  then show ?thesis by (cases "replace_all str old new") auto
qed

lemma replace_all_returns:
  assumes "length new < length old"
  shows "\<exists>r. replace_all str old new = Some r"
  using assms
proof (induction "length str" arbitrary: str rule: less_induct)
  case less
  show ?case
  proof (cases "find_sub str old 0")
    case None
    then show ?thesis by (subst replace_all.simps) simp
  next
    case (Some p)
    let ?s = "take p str @ new @ drop (p + length old) str"
    have "length ?s < length str" using find_sub_Some(2) [OF Some] less.prems by simp
    from less.hyps [OF this less.prems] show ?thesis
      by (subst replace_all.simps) (simp add: Some)
  qed
qed

text \<open>
  C40. \<^verbatim>\<open>replace_all\<close>: whenever it returns, no occurrence of the old text is left; it does
  return when the new text is shorter than the old one; and it never returns when the old
  text occurs in the source and in its own replacement (in particular for an empty old
  text), because the search restarts at the beginning.
\<close>

theorem replace_all_correct:
  "(replace_all str old new = Some r \<longrightarrow> \<not> sublist old r) \<and>
   (length new < length old \<longrightarrow> (\<exists>r. replace_all str old new = Some r)) \<and>
   (sublist old new \<and> sublist old str \<longrightarrow> replace_all str old new = None)"
  using replace_all_result replace_all_returns replace_all_diverges by blast

theorem replace_all_correct_witness:
  "(\<exists>r. replace_all ''a--b---c'' ''--'' ''-'' = Some r) \<and>
   replace_all ''a/b'' ''/'' ''//'' = None"
proof
  show "\<exists>r. replace_all ''a--b---c'' ''--'' ''-'' = Some r"
    using replace_all_correct [of "''a--b---c''" "''--''" "''-''", THEN conjunct2, THEN conjunct1,
      THEN mp] by (simp only: list.size)
  have "sublist ''/'' ''//''" "sublist ''/'' ''a/b''" by (simp_all add: sublist_Cons_right)
  then show "replace_all ''a/b'' ''/'' ''//'' = None"
    using replace_all_correct [of "''a/b''" "''/''" "''//''"] by blast
qed

section \<open>Lock files\<close>

text \<open>The kernel's table: descriptors are distinct and a lock is held by a descriptor open on
  that file.\<close>

definition lock_wf :: "'i lock_table \<Rightarrow> bool" where
  "lock_wf t \<longleftrightarrow> distinct (map fst (fds t)) \<and> (\<forall>i d. flocks t i = Some d \<longrightarrow> (d, i) \<in> set (fds t))"

lemma free_fd_fresh: "(pid, free_fd pid t) \<notin> fst ` set (fds t)"
proof -
  let ?F = "fst ` set (fds t)"
  have "\<exists>n \<in> set [0..<Suc (length (fds t))]. (pid, n) \<notin> ?F"
  proof (rule ccontr)
    assume "\<not> ?thesis"
    then have "Pair pid ` set [0..<Suc (length (fds t))] \<subseteq> ?F" by auto
    then have "card (Pair pid ` set [0..<Suc (length (fds t))]) \<le> card ?F" by (intro card_mono) auto
    moreover have "card (Pair pid ` set [0..<Suc (length (fds t))]) = Suc (length (fds t))"
      by (subst card_image) (auto intro: inj_onI)
    moreover have "card ?F \<le> length (fds t)"
      by (metis card_image_le card_length finite_set le_trans)
    ultimately show False by simp
  qed
  then have "filter (\<lambda>n. (pid, n) \<notin> ?F) [0..<Suc (length (fds t))] \<noteq> []"
    by (simp only: filter_empty_conv) blast
  from hd_in_set [OF this] show ?thesis unfolding free_fd_def set_filter by blast
qed

lemma close_fresh:
  assumes "lock_wf t"
  shows "os_close (pid, free_fd pid t) (t\<lparr> fds := ((pid, free_fd pid t), i) # fds t \<rparr>) = t"
proof -
  have "filter (\<lambda>(e, _). e \<noteq> (pid, free_fd pid t)) (fds t) = fds t"
    using free_fd_fresh [of pid t] by (auto simp: filter_id_conv image_iff)
  moreover have "(\<lambda>i. if flocks t i = Some (pid, free_fd pid t) then None else flocks t i) = flocks t"
    using assms free_fd_fresh [of pid t] by (fastforce simp: lock_wf_def image_iff)
  ultimately show ?thesis by (simp add: os_close_def os_unlock_def cong: if_cong)
qed

lemma lockFile_wf: "lock_wf t \<Longrightarrow> lock_wf (snd (lockFile pid open_file f t))"
  using free_fd_fresh [of pid t] close_fresh [of t pid]
  by (auto simp: lock_wf_def lockFile_def Let_def image_iff split: option.splits)

lemma lockFile_held:
  "open_file (c_str f) = Some i \<Longrightarrow> flocks t i = Some h \<Longrightarrow> lock_wf t \<Longrightarrow> lockFile pid open_file f t = (0, t)"
  by (simp add: lockFile_def close_fresh Let_def)

text \<open>
  C38. Mutual exclusion of lock files: when \<^verbatim>\<open>lockFile\<close> returns a positive descriptor, nobody held a lock on
  the file before and that descriptor of the process holds it after; then \<^verbatim>\<open>lockFile\<close> by any process under
  any name of that file returns 0 and leaves the table as it was, and no other \<^verbatim>\<open>unlockFile\<close> touches the lock;
  \<^verbatim>\<open>unlockFile\<close> of a descriptor above 2 releases it, and it can be taken again.  Descriptors are not shared
  between processes.
\<close>

theorem lockFile_exclusive:
  assumes "lock_wf t" "lockFile pid open_file f t = (fd, t')" "fd > 0"
  shows "\<exists>i. open_file (c_str f) = Some i \<and> flocks t i = None \<and> flocks t' i = Some (pid, nat fd) \<and> lock_wf t' \<and>
    (\<forall>pid' g. open_file (c_str g) = Some i \<longrightarrow> lockFile pid' open_file g t' = (0, t')) \<and>
    (\<forall>pid' fd'. (pid', fd') \<noteq> (pid, fd) \<longrightarrow> flocks (unlockFile pid' fd' t') i = flocks t' i) \<and>
    (2 < fd \<longrightarrow> flocks (unlockFile pid fd t') i = None \<and> fst (lockFile pid open_file f (unlockFile pid fd t')) = fd)"
proof -
  from assms(2,3) obtain i where co: "open_file (c_str f) = Some i" and n: "flocks t i = None" and fd: "fd = int (free_fd pid t)"
    and t': "t' = t\<lparr> fds := ((pid, free_fd pid t), i) # fds t, flocks := (flocks t)(i \<mapsto> (pid, free_fd pid t)) \<rparr>"
    by (auto simp: lockFile_def Let_def split: option.splits)
  have wf: "lock_wf t'" using lockFile_wf [OF assms(1), of pid open_file f] assms(2) by simp
  have h: "flocks t' i = Some (pid, nat fd)" by (simp add: t' fd)
  have "filter (\<lambda>(e, _). e \<noteq> (pid, free_fd pid t)) (fds t) = fds t"
    using free_fd_fresh [of pid t] by (auto simp: filter_id_conv image_iff)
  then have u: "2 < fd \<Longrightarrow> fds (unlockFile pid fd t') = fds t \<and> flocks (unlockFile pid fd t') i = None"
    by (simp add: fd t' unlockFile_def os_close_def os_unlock_def)
  then have "2 < fd \<Longrightarrow> fst (lockFile pid open_file f (unlockFile pid fd t')) = fd"
    using co fd by (simp add: lockFile_def Let_def free_fd_def)
  moreover have "flocks (unlockFile pid' fd' t') i = flocks t' i" if "(pid', fd') \<noteq> (pid, fd)" for pid' fd'
    using that assms(3) h by (auto simp: unlockFile_def os_close_def os_unlock_def)
  ultimately show ?thesis using co n h wf u lockFile_held [of open_file, OF _ h wf] by (intro exI [of _ i]) simp
qed

theorem lockFile_exclusive_witness:
  "let t = \<lparr> fds = [((7, 0), 1), ((7, 1), 1), ((7, 2), 1)], flocks = Map.empty \<rparr> :: nat lock_table;
       r = lockFile 7 (\<lambda>s. Some (length s)) ''frs.lock'' t
   in fst r = 3 \<and> lockFile 8 (\<lambda>s. Some (length s)) ''frs.lock'' (snd r) = (0, snd r)"
proof -
  let ?t = "\<lparr> fds = [((7, 0), 1), ((7, 1), 1), ((7, 2), 1)], flocks = Map.empty \<rparr> :: nat lock_table"
  have "free_fd 7 ?t = 3" by (simp add: free_fd_def upt_rec)
  then have r: "fst (lockFile 7 (\<lambda>s. Some (length s)) ''frs.lock'' ?t) = 3" by (simp add: lockFile_def Let_def)
  have "lock_wf ?t" by (simp add: lock_wf_def)
  from lockFile_exclusive [OF this prod.collapse [symmetric], of 7 "\<lambda>s. Some (length s)" "''frs.lock''"] r
  show ?thesis by (auto simp: Let_def)
qed

section \<open>Digests as text\<close>

lemma md5_digest_eq:
  assumes "length (ctx_buffer ctx) = 64" "length (c_str s) + 63 < 2 ^ 32"
  shows "md5_digest ctx (Some s) (Some out) = Some (Some (hex_text (rfc_md5 (bytes_of (c_str s)))))"
proof -
  from assms(2) have "\<forall>p \<in> set [bytes_of (c_str s)]. length p + 63 < 2 ^ 32"
    by (simp add: bytes_of_def)
  from MD5Updates_holds [OF ctx_holds_Init [OF assms(1)] this]
  obtain c where c: "MD5Updates (MD5Init ctx) [bytes_of (c_str s)] = Some c"
    "ctx_holds c (bytes_of (c_str s))" by auto
  then have "MD5Update (MD5Init ctx) (bytes_of (c_str s)) (of_nat (length (c_str s))) = Some c"
    by (auto simp: bytes_of_def split: option.splits)
  then show ?thesis using MD5Final_holds [OF c(2)] by (simp add: md5_digest_def)
qed

text \<open>
  The text digest: for a non-empty string without NUL bytes \<^verbatim>\<open>md5\<close> returns the RFC 1321
  digest in lower-case hexadecimal, whatever the uninitialised context holds.
\<close>

theorem md5_text_correct:
  assumes "length (ctx_buffer ctx) = 64" "str \<noteq> []" "NUL \<notin> set str" "length str + 63 < 2 ^ 32"
  shows "md5 ctx str = Some (hex_text (rfc_md5 (bytes_of str)))"
  using assms md5_digest_eq [of ctx str] by (simp add: md5_def)

theorem md5_text_correct_witness: "md5 md5_zero ''abc'' = Some ''900150983cd24fb0d6963f7d28e17f72''"
proof -
  have "md5 md5_zero ''abc'' = Some (hex_text (rfc_md5 (bytes_of ''abc'')))"
    by (rule md5_text_correct) (simp_all add: md5_zero_def)
  also have "bytes_of ''abc'' = [0x61, 0x62, 0x63]" by (simp add: bytes_of_def)
  also note rfc_md5_abc
  finally show ?thesis by (simp add: hex_text_def hex2_def hex_digit_def char_of_def bit_0)
qed

lemma fgets_all_line:
  assumes "LF \<notin> set l" "length l < n"
  shows "fgets_all n (l @ [LF]) = [l @ [LF]]"
proof -
  have "find_first (\<lambda>c. c = LF) (l @ [LF]) 0 = Some (length l)"
    using assms(1) by (auto simp: find_first_Some_iff nth_append in_set_conv_nth)
  then show ?thesis using assms(2)
    by (subst fgets_all.simps) (simp add: fgets_all.simps [of n "[]"])
qed


lemma hex_text_length [len_simps]: "length (hex_text bs) = 2 * length bs"
  by (induction bs) (simp_all add: hex_text_def hex2_def)

lemma hex_text_no: "c \<in> set (hex_text bs) \<Longrightarrow> c_isalnum c"
proof -
  assume "c \<in> set (hex_text bs)"
  then obtain b where "c \<in> set (hex2 b)" by (auto simp: hex_text_def)
  then have "c = hex_digit (unat b div 16) \<or> c = hex_digit (unat b mod 16)"
    by (auto simp: hex2_def)
  moreover have "unat b div 16 < 16" "unat b mod 16 < 16"
    using unsigned_less [of b, where ?'a = nat] by auto
  ultimately obtain n where "n < 16" "c = hex_digit n" by blast
  then show ?thesis
    by (cases "n < 10") (auto simp: hex_digit_def c_isalnum_def c_isdigit_def c_islower_def)
qed

lemma split_first_word:
  assumes "w \<noteq> []" "SP \<notin> set w"
  shows "split (w @ [SP] @ r) '' '' [] ! 0 = w" "length (split (w @ [SP] @ r) '' '' []) > 0"
proof -
  have "\<forall>c \<in> set w. \<not> c \<in> set '' ''" using assms(2) by auto
  from fields_stop [of w "\<lambda>c. c \<in> set '' ''", OF this, of SP r]
  have "pieces (\<lambda>c. c \<in> set '' '') (w @ SP # r) = w # pieces (\<lambda>c. c \<in> set '' '') r" by simp
  then have "split (w @ SP # r) '' '' [] = w # filter (\<lambda>f. f \<noteq> []) (pieces (\<lambda>c. c \<in> set '' '') r)"
    using assms(1) by (simp add: split_def split_from_fields)
  then show "split (w @ [SP] @ r) '' '' [] ! 0 = w" "length (split (w @ [SP] @ r) '' '' []) > 0"
    by simp_all
qed

text \<open>The line \<^verbatim>\<open>md5sum\<close> prints for a file with a plain name.\<close>

definition md5sum_line :: "string \<Rightarrow> string \<Rightarrow> string" where
  "md5sum_line content path = hex_text (rfc_md5 (bytes_of content)) @ ''  '' @ path @ [LF]"

lemma calculate_file_md5_run:
  assumes "popen w (''md5sum '' @ [DQUOTE] @ path @ [DQUOTE]) = (w', Some (md5sum_line content path))"
    and "NUL \<notin> set path" "LF \<notin> set path" "length path < 2000"
  shows "calculate_file_md5 popen w path = (w', hex_text (rfc_md5 (bytes_of content)))"
proof -
  let ?h = "hex_text (rfc_md5 (bytes_of content))"
  have no: "LF \<notin> set ?h" "NUL \<notin> set ?h" "SP \<notin> set ?h"
    using hex_text_no by (fastforce simp: c_isalnum_def c_isdigit_def c_isupper_def c_islower_def)+
  have len: "length ?h = 32" by (simp add: rfc_md5_def hex_text_length length_Encode [of _ 4, simplified])
  have "fgets_all 2046 (md5sum_line content path) = [md5sum_line content path]"
    using fgets_all_line [of "?h @ ''  '' @ path" 2046] no len assms by (simp add: md5sum_line_def)
  moreover have "c_str (md5sum_line content path) = ?h @ [SP] @ [SP] @ path @ [LF]"
    using no assms(2) by (simp add: md5sum_line_def)
  ultimately have "cmd_system popen w (Some (''md5sum '' @ [DQUOTE] @ path @ [DQUOTE])) =
      (w', ?h @ [SP] @ [SP] @ path @ [LF])"
    using assms(1,2) by (simp add: cmd_system_def)
  moreover have "?h \<noteq> []" using len by auto
  ultimately show ?thesis
    using split_first_word [OF _ no(3), of "[SP] @ path @ [LF]"]
    by (simp add: calculate_file_md5_def Let_def)
qed

text \<open>
  \<^verbatim>\<open>calculate_file_md5\<close>: when the shell runs \<^verbatim>\<open>md5sum\<close> and it prints its documented line for
  the quoted file, the result is the hexadecimal RFC 1321 digest of the file's content.
\<close>

theorem calculate_file_md5_correct:
  assumes "popen w (''md5sum '' @ [DQUOTE] @ path @ [DQUOTE]) = (w', Some (md5sum_line content path))"
    and "NUL \<notin> set path" "LF \<notin> set path" "length path < 2000"
  shows "calculate_file_md5 popen w path = (w', hex_text (rfc_md5 (bytes_of content)))"
  using assms by (rule calculate_file_md5_run)

theorem calculate_file_md5_correct_witness:
  "calculate_file_md5 (\<lambda>w _. (w, Some (md5sum_line ''abc'' ''f''))) () ''f'' =
     ((), hex_text (rfc_md5 [0x61, 0x62, 0x63]))"
  using calculate_file_md5_correct [of "\<lambda>w _. (w, Some (md5sum_line ''abc'' ''f''))" "()" "''f''" "()" "''abc''"]
  by (simp add: bytes_of_def)

end
