(* ===== verification/FileUtils.thy ===== *)
theory FileUtils
  imports StringUtils "HOL-Library.AList"
begin

text \<open>
  The file helpers of \<^verbatim>\<open>src/src/fileUtils.cpp\<close> over a model of the file system: a tree of
  directories (ordered as \<^verbatim>\<open>readdir\<close> lists them) and regular files, POSIX path resolution
  with \<^verbatim>\<open>.\<close>, \<^verbatim>\<open>..\<close>, repeated slashes and NUL-terminated path arguments, and one definition per
  helper.  Permissions, full disks, symbolic links and name-length limits are not modelled:
  an operation fails only for the reasons the tree shows.  The last part views the tree as
  a flat store of files and interprets the interface \<open>file_store\<close> on the helpers.
\<close>

section \<open>The file system\<close>

datatype inode = Reg string | Dir "(string \<times> inode) list"

text \<open>\<open>dir_st_size\<close> is the \<^verbatim>\<open>st_size\<close> the file system reports for a directory.\<close>

record fs =
  fs_root :: inode
  fs_cwd :: "string list"
  dir_st_size :: nat

fun node_at :: "inode \<Rightarrow> string list \<Rightarrow> inode option" where
  "node_at n [] = Some n"
| "node_at (Reg s) (c # cs) = None"
| "node_at (Dir es) (c # cs) = (case map_of es c of None \<Rightarrow> None | Some n \<Rightarrow> node_at n cs)"

text \<open>Put a node at a path below existing directories, or remove it.\<close>

fun set_at :: "inode \<Rightarrow> string list \<Rightarrow> inode option \<Rightarrow> inode" where
  "set_at n [] v = (case v of Some m \<Rightarrow> m | None \<Rightarrow> n)"
| "set_at (Reg s) (c # cs) v = Reg s"
| "set_at (Dir es) [c] v =
     Dir (case v of None \<Rightarrow> AList.delete c es | Some m \<Rightarrow> AList.update c m es)"
| "set_at (Dir es) (c # d # cs) v =
     (case map_of es c of None \<Rightarrow> Dir es | Some n \<Rightarrow> Dir (AList.update c (set_at n (d # cs) v) es))"

definition is_dir_at :: "inode \<Rightarrow> string list \<Rightarrow> bool" where
  "is_dir_at r p = (case node_at r p of Some (Dir _) \<Rightarrow> True | _ \<Rightarrow> False)"

fun walk :: "inode \<Rightarrow> string list \<Rightarrow> string list \<Rightarrow> string list option" where
  "walk r cur [] = Some cur"
| "walk r cur (c # cs) =
     (if \<not> is_dir_at r cur then None
      else if c = '''' \<or> c = ''.'' then walk r cur cs
      else if c = ''..'' then walk r (butlast cur) cs
      else walk r (cur @ [c]) cs)"

abbreviation slash_pieces :: "string \<Rightarrow> string list" where
  "slash_pieces \<equiv> pieces (\<lambda>c. c = CHR ''/'')"

text \<open>The place a path argument names; the last component need not exist.\<close>

definition os_path :: "fs \<Rightarrow> string \<Rightarrow> string list option" where
  "os_path fs p =
     (let q = c_str p in
      if q = '''' then None
      else walk (fs_root fs) (if hd q = CHR ''/'' then [] else fs_cwd fs) (slash_pieces q))"

definition stat :: "fs \<Rightarrow> string \<Rightarrow> inode option" where
  "stat fs p = (case os_path fs p of None \<Rightarrow> None | Some q \<Rightarrow> node_at (fs_root fs) q)"

text \<open>Open a file for writing, creating it when its directory exists, and replace its content.\<close>

definition fs_put :: "fs \<Rightarrow> string \<Rightarrow> (string \<Rightarrow> string) \<Rightarrow> fs option" where
  "fs_put fs p f =
     (case os_path fs p of
        None \<Rightarrow> None
      | Some q \<Rightarrow>
          (case node_at (fs_root fs) q of
             Some (Dir _) \<Rightarrow> None
           | Some (Reg s) \<Rightarrow> Some (fs\<lparr> fs_root := set_at (fs_root fs) q (Some (Reg (f s))) \<rparr>)
           | None \<Rightarrow> Some (fs\<lparr> fs_root := set_at (fs_root fs) q (Some (Reg (f ''''))) \<rparr>)))"

definition strip_slashes :: "string \<Rightarrow> string" where
  "strip_slashes p = rev (dropWhile (\<lambda>c. c = CHR ''/'') (rev p))"

definition os_mkdir :: "fs \<Rightarrow> string \<Rightarrow> fs" where
  "os_mkdir fs p =
     (case os_path fs (strip_slashes (c_str p)) of
        None \<Rightarrow> fs
      | Some q \<Rightarrow> (case node_at (fs_root fs) q of
                    None \<Rightarrow> fs\<lparr> fs_root := set_at (fs_root fs) q (Some (Dir [])) \<rparr>
                  | Some _ \<Rightarrow> fs))"

text \<open>\<^verbatim>\<open>rename\<close> of a regular file.\<close>

definition os_rename :: "fs \<Rightarrow> string \<Rightarrow> string \<Rightarrow> fs" where
  "os_rename fs old new =
     (case (os_path fs old, os_path fs new) of
        (Some p, Some q) \<Rightarrow>
          (case (node_at (fs_root fs) p, node_at (fs_root fs) q) of
             (Some (Reg s), Some (Dir _)) \<Rightarrow> fs
           | (Some (Reg s), _) \<Rightarrow>
               if p = q then fs
               else fs\<lparr> fs_root := set_at (set_at (fs_root fs) q (Some (Reg s))) p None \<rparr>
           | _ \<Rightarrow> fs)
      | _ \<Rightarrow> fs)"

text \<open>\<^verbatim>\<open>remove\<close> of a regular file: 0, or -1 when there is none.\<close>

definition os_remove :: "fs \<Rightarrow> string \<Rightarrow> int \<times> fs" where
  "os_remove fs p =
     (case os_path fs p of
        None \<Rightarrow> (- 1, fs)
      | Some q \<Rightarrow> (case node_at (fs_root fs) q of
                    Some (Reg _) \<Rightarrow> (0, fs\<lparr> fs_root := set_at (fs_root fs) q None \<rparr>)
                  | Some (Dir []) \<Rightarrow> (0, fs\<lparr> fs_root := set_at (fs_root fs) q None \<rparr>)
                  | _ \<Rightarrow> (- 1, fs)))"

section \<open>The helpers\<close>

text \<open>The status and the bytes placed in \<open>data\<close>.\<close>

definition get_file_contents :: "fs \<Rightarrow> string option \<Rightarrow> string option \<Rightarrow> nat \<Rightarrow> int \<times> string" where
  "get_file_contents fs file data len =
     (case (file, data) of
        (Some f, Some _) \<Rightarrow>
          (case stat fs f of
             None \<Rightarrow> (- 1, '''')
           | Some (Dir _) \<Rightarrow> (- 1, '''')
           | Some (Reg s) \<Rightarrow> (if length (take len s) > 0 then 0 else - 1, take len s))
      | _ \<Rightarrow> (- 1, ''''))"

definition put_file_contents :: "fs \<Rightarrow> string \<Rightarrow> string option \<Rightarrow> nat \<Rightarrow> int \<times> fs" where
  "put_file_contents fs file data len =
     (let opened = fs_put fs file (\<lambda>_. '''');
          fs1 = (case opened of Some f \<Rightarrow> f | None \<Rightarrow> fs)
      in case data of
           None \<Rightarrow> (- 1, fs1)
         | Some d \<Rightarrow>
             if len \<le> 0 then (- 1, fs1)
             else (0, case opened of
                        None \<Rightarrow> fs1
                      | Some _ \<Rightarrow> (case fs_put fs1 file (\<lambda>_. take len d) of Some f \<Rightarrow> f | None \<Rightarrow> fs1)))"

definition get_file_size :: "fs \<Rightarrow> string option \<Rightarrow> nat" where
  "get_file_size fs file =
     (case file of
        None \<Rightarrow> 0
      | Some f \<Rightarrow> (case stat fs f of
                    None \<Rightarrow> 0 | Some (Reg s) \<Rightarrow> length s | Some (Dir _) \<Rightarrow> dir_st_size fs))"

definition get_file_dir :: "string \<Rightarrow> string" where
  "get_file_dir full_path_file =
     (case find_last (\<lambda>c. c = CHR ''/'') full_path_file of
        None \<Rightarrow> full_path_file | Some pos \<Rightarrow> take pos full_path_file)"

definition get_file_name :: "string \<Rightarrow> string" where
  "get_file_name full_path_file =
     (case find_last (\<lambda>c. c = CHR ''/'') full_path_file of
        None \<Rightarrow> full_path_file | Some pos \<Rightarrow> drop (pos + 1) full_path_file)"

definition get_file_ext :: "string \<Rightarrow> string" where
  "get_file_ext file =
     (let vect = split file ''.'' []
      in if length vect \<ge> 2 then vect ! (length vect - 1) else '''')"

definition is_file_exist :: "fs \<Rightarrow> string \<Rightarrow> bool" where
  "is_file_exist fs file = (if stat fs file \<noteq> None then True else False)"

definition file_exists :: "fs \<Rightarrow> string \<Rightarrow> bool" where
  "file_exists fs name = (stat fs name \<noteq> None)"

text \<open>The stream is opened for reading and writing, which an existing regular file allows.\<close>

definition file_rename :: "fs \<Rightarrow> string \<Rightarrow> string \<Rightarrow> int \<times> fs" where
  "file_rename fs oldName newName =
     (case stat fs oldName of
        Some (Reg _) \<Rightarrow> (0, os_rename fs oldName newName)
      | _ \<Rightarrow> (- 1, fs))"

definition make_dir :: "fs \<Rightarrow> string \<Rightarrow> bool \<times> fs" where
  "make_dir fs folder =
     (if is_file_exist fs folder then (True, fs)
      else let fs1 = os_mkdir fs folder in (is_file_exist fs1 folder, fs1))"

definition write_to_file :: "fs \<Rightarrow> string \<Rightarrow> string \<Rightarrow> int \<times> fs" where
  "write_to_file fs file str_write =
     (0, case fs_put fs file (\<lambda>_. str_write) of Some fs1 \<Rightarrow> fs1 | None \<Rightarrow> fs)"

definition write_to_binary_file :: "fs \<Rightarrow> string \<Rightarrow> string \<Rightarrow> int \<times> fs" where
  "write_to_binary_file fs file data =
     (0, case fs_put fs file (\<lambda>_. data) of Some fs1 \<Rightarrow> fs1 | None \<Rightarrow> fs)"

definition append_to_file :: "fs \<Rightarrow> string \<Rightarrow> string \<Rightarrow> int \<times> fs" where
  "append_to_file fs file str_write =
     (0, case fs_put fs file (\<lambda>old. old @ c_str str_write) of Some fs1 \<Rightarrow> fs1 | None \<Rightarrow> fs)"

definition append_to_file2 :: "fs \<Rightarrow> string \<Rightarrow> string \<Rightarrow> int \<times> fs" where
  "append_to_file2 fs file str_write =
     (0, case fs_put fs file (\<lambda>old. old @ str_write) of Some fs1 \<Rightarrow> fs1 | None \<Rightarrow> fs)"

definition read_from_file :: "fs \<Rightarrow> string \<Rightarrow> string" where
  "read_from_file fs file = (case stat fs file of Some (Reg s) \<Rightarrow> s | _ \<Rightarrow> '''')"

text \<open>\<open>readlink\<close> is the target of \<^verbatim>\<open>/proc/self/exe\<close>.  \<^const>\<open>None\<close> is the undefined behaviour of
  building a string from \<^verbatim>\<open>NULL\<close>, or of reading the buffer past the link when it has no slash.\<close>

definition get_owner_path :: "string option \<Rightarrow> string option" where
  "get_owner_path readlink =
     (case readlink of
        None \<Rightarrow> None
      | Some path \<Rightarrow>
          if length path \<ge> 1024 then None
          else case find_last (\<lambda>c. c = CHR ''/'') path of
                 None \<Rightarrow> None
               | Some i \<Rightarrow> Some (c_str (take (i + 1) path)))"

section \<open>Directory listings\<close>

text \<open>The recursive calls open \<^verbatim>\<open>dirpath/name\<close>, which is the entry itself.  \<^verbatim>\<open>dir_oper\<close> builds each
  path in a 200-byte buffer: a longer one overflows it, the outer \<^const>\<open>None\<close>.\<close>

fun dir_oper :: "string \<Rightarrow> inode \<Rightarrow> string list \<Rightarrow> string list option"
  and dir_oper_entries :: "string \<Rightarrow> (string \<times> inode) list \<Rightarrow> string list \<Rightarrow> string list option" where
  "dir_oper path (Reg _) list = Some list"
| "dir_oper path (Dir es) list = dir_oper_entries path es list"
| "dir_oper_entries path [] list = Some list"
| "dir_oper_entries path ((name, n) # es) list =
     (let file_path = path @ ''/'' @ name in
      if length file_path \<ge> 200 then None
      else if name = ''.'' \<or> name = ''..'' then dir_oper_entries path es list
      else case n of
        Dir _ \<Rightarrow> (case dir_oper file_path n list of
                    None \<Rightarrow> None | Some list1 \<Rightarrow> dir_oper_entries path es list1)
      | Reg _ \<Rightarrow> dir_oper_entries path es (list @ [file_path]))"

fun get_dir_list_at :: "string \<Rightarrow> inode \<Rightarrow> string list \<Rightarrow> int \<times> string list"
  and get_dir_list_entries :: "string \<Rightarrow> (string \<times> inode) list \<Rightarrow> string list \<Rightarrow> string list" where
  "get_dir_list_at dirpath (Reg _) list = (- 1, list)"
| "get_dir_list_at dirpath (Dir es) list = (0, get_dir_list_entries dirpath es list)"
| "get_dir_list_entries dirpath [] list = list"
| "get_dir_list_entries dirpath ((name, n) # es) list =
     (case n of
        Dir _ \<Rightarrow>
          if name = ''.'' \<or> name = ''..'' then get_dir_list_entries dirpath es list
          else let dirNew = dirpath @ ''/'' @ name; (rv, tempPath) = get_dir_list_at dirNew n []
            in get_dir_list_entries dirpath es
                 (if rv = 0 then list @ [dirNew] @ tempPath else list)
      | Reg _ \<Rightarrow> get_dir_list_entries dirpath es list)"

fun get_files_list_at :: "string \<Rightarrow> inode \<Rightarrow> string list \<Rightarrow> int \<times> string list"
  and get_files_list_entries :: "string \<Rightarrow> (string \<times> inode) list \<Rightarrow> string list \<Rightarrow> string list" where
  "get_files_list_at dirpath (Reg _) dirlist = (- 1, dirlist)"
| "get_files_list_at dirpath (Dir es) dirlist = (0, get_files_list_entries dirpath es dirlist)"
| "get_files_list_entries dirpath [] dirlist = dirlist"
| "get_files_list_entries dirpath ((name, n) # es) dirlist =
     (case n of
        Dir _ \<Rightarrow>
          if name = ''.'' \<or> name = ''..'' then get_files_list_entries dirpath es dirlist
          else let dirNew = dirpath @ ''/'' @ name; (rv, tempPath) = get_files_list_at dirNew n []
            in get_files_list_entries dirpath es (if rv = 0 then dirlist @ tempPath else dirlist)
      | Reg _ \<Rightarrow> get_files_list_entries dirpath es (dirlist @ [dirpath @ ''/'' @ name]))"

fun get_all_files_at :: "string \<Rightarrow> inode \<Rightarrow> string list \<Rightarrow> int \<times> string list"
  and get_all_files_entries :: "string \<Rightarrow> (string \<times> inode) list \<Rightarrow> string list \<Rightarrow> string list" where
  "get_all_files_at dirpath (Reg _) dirlist = (- 1, dirlist)"
| "get_all_files_at dirpath (Dir es) dirlist = (0, get_all_files_entries dirpath es dirlist)"
| "get_all_files_entries dirpath [] dirlist = dirlist"
| "get_all_files_entries dirpath ((name, n) # es) dirlist =
     (case n of
        Dir _ \<Rightarrow>
          if name = ''.'' \<or> name = ''..'' then get_all_files_entries dirpath es dirlist
          else let dirNew = dirpath @ ''/'' @ name; (rv, tempPath) = get_all_files_at dirNew n []
            in get_all_files_entries dirpath es (if rv = 0 then dirlist @ tempPath else dirlist)
      | Reg _ \<Rightarrow> get_all_files_entries dirpath es (dirlist @ [dirpath @ ''/'' @ name]))"

definition get_dir_list :: "fs \<Rightarrow> string \<Rightarrow> string list \<Rightarrow> int \<times> string list" where
  "get_dir_list fs dirpath list =
     (case stat fs dirpath of None \<Rightarrow> (- 1, list) | Some n \<Rightarrow> get_dir_list_at dirpath n list)"

definition get_files_list :: "fs \<Rightarrow> string \<Rightarrow> string list \<Rightarrow> int \<times> string list" where
  "get_files_list fs dirpath dirlist =
     (case stat fs dirpath of None \<Rightarrow> (- 1, dirlist) | Some n \<Rightarrow> get_files_list_at dirpath n dirlist)"

definition get_all_files :: "fs \<Rightarrow> string \<Rightarrow> string list \<Rightarrow> int \<times> string list" where
  "get_all_files fs dirpath dirlist =
     (case stat fs dirpath of None \<Rightarrow> (- 1, dirlist) | Some n \<Rightarrow> get_all_files_at dirpath n dirlist)"

text \<open>\<^verbatim>\<open>make_dir_multi_level\<close>: a folder of 512 or more characters leaves its copy without a
  terminator, the error value \<^const>\<open>None\<close>.\<close>

fun make_dirs_loop :: "fs \<Rightarrow> string \<Rightarrow> nat list \<Rightarrow> fs" where
  "make_dirs_loop fs str [] = fs"
| "make_dirs_loop fs str (i # is) =
     (if str ! i = CHR ''/''
      then make_dirs_loop
        (if stat fs (take i str) = None then os_mkdir fs (take i str) else fs) str is
      else make_dirs_loop fs str is)"

definition make_dir_multi_level :: "fs \<Rightarrow> string \<Rightarrow> fs option" where
  "make_dir_multi_level fs folder =
     (let str = c_str folder; len = length str in
      if len \<ge> 512 then None
      else let fs1 = make_dirs_loop fs str [0..<len]
        in Some (if len > 0 \<and> stat fs1 str = None then os_mkdir fs1 str else fs1))"

section \<open>Lookup and update\<close>

definition file_in :: "inode \<Rightarrow> string list \<Rightarrow> string option" where
  "file_in r p = (case node_at r p of Some (Reg s) \<Rightarrow> Some s | _ \<Rightarrow> None)"

lemma node_at_append:
  "node_at r (p @ q) = (case node_at r p of None \<Rightarrow> None | Some n \<Rightarrow> node_at n q)"
  by (induction r p rule: node_at.induct) (auto split: option.splits)

lemma is_dir_at_simps [simp]:
  "is_dir_at (Dir es) []" "\<not> is_dir_at (Reg s) p"
  "is_dir_at (Dir es) (c # cs) = (case map_of es c of None \<Rightarrow> False | Some n \<Rightarrow> is_dir_at n cs)"
  by (simp_all add: is_dir_at_def split: option.splits) (cases p; simp)

lemma file_in_simps [simp]:
  "file_in (Dir es) [] = None" "file_in (Reg s) p = (if p = [] then Some s else None)"
  "file_in (Dir es) (c # cs) = (case map_of es c of None \<Rightarrow> None | Some n \<Rightarrow> file_in n cs)"
  by (simp_all add: file_in_def split: option.splits) (cases p; simp)

lemma not_dir_Reg: "\<not> is_dir_at n [] \<longleftrightarrow> (\<exists>s. n = Reg s)"
  by (cases n) auto

lemma set_at_leaf:
  assumes "p \<noteq> []" "is_dir_at r (butlast p)" "\<not> is_dir_at r p" "v = None \<or> v = Some (Reg s)"
  shows "file_in (set_at r p v) q = (if q = p then map_option (\<lambda>_. s) v else file_in r q) \<and>
    is_dir_at (set_at r p v) q = is_dir_at r q"
  using assms
proof (induction p arbitrary: r q rule: induct_list012)
  case (2 c)
  then obtain es where r: "r = Dir es" by (cases r) auto
  show ?case using 2 unfolding r
    by (cases q) (auto simp: update_conv' delete_conv' not_dir_Reg split: option.splits)
next
  case (3 c d cs)
  then obtain es n where r: "r = Dir es" "map_of es c = Some n"
    by (cases r) (auto split: option.splits)
  show ?case using 3 unfolding r
    by (cases q) (auto simp: update_conv' r(2) split: option.splits)
qed simp

lemma set_at_remove:
  assumes "p \<noteq> []" "is_dir_at r (butlast p)" "\<not> is_dir_at r p"
  shows "file_in (set_at r p None) q = (if q = p then None else file_in r q)"
    "is_dir_at (set_at r p None) q = is_dir_at r q"
  using set_at_leaf [OF assms, of None "[]" q] by (simp_all split: if_splits)

lemma node_at_empty [simp]: "node_at (Dir []) l = (if l = [] then Some (Dir []) else None)"
  by (cases l) auto

lemma set_at_mkdir:
  assumes "p \<noteq> []" "is_dir_at r (butlast p)" "node_at r p = None"
  shows "file_in (set_at r p (Some (Dir []))) q = file_in r q \<and>
    is_dir_at (set_at r p (Some (Dir []))) q = (q = p \<or> is_dir_at r q)"
  using assms
proof (induction p arbitrary: r q rule: induct_list012)
  case (2 c)
  then obtain es where r: "r = Dir es" by (cases r) auto
  show ?case using 2 unfolding r
    by (cases q) (auto simp: update_conv' file_in_def is_dir_at_def split: option.splits)
next
  case (3 c d cs)
  then obtain es n where r: "r = Dir es" "map_of es c = Some n"
    by (cases r) (auto split: option.splits)
  show ?case using 3 unfolding r
    by (cases q) (auto simp: update_conv' r(2) split: option.splits)
qed simp

lemma is_dir_prefix: "is_dir_at r (p @ q) \<Longrightarrow> is_dir_at r p"
  unfolding is_dir_at_def node_at_append
  by (cases q) (auto split: option.splits inode.splits)

lemma node_at_split:
  "node_at r p = None \<longleftrightarrow> file_in r p = None \<and> \<not> is_dir_at r p"
  by (auto simp: file_in_def is_dir_at_def split: option.splits inode.splits)

text \<open>Resolution depends only on which paths are directories.\<close>

lemma walk_cong: "(\<And>q. is_dir_at r q = is_dir_at r' q) \<Longrightarrow> walk r cur cs = walk r' cur cs"
  by (induction r cur cs rule: walk.induct) auto

lemma walk_parent:
  "walk r cur cs = Some q \<Longrightarrow> cur = [] \<or> is_dir_at r (butlast cur) \<Longrightarrow>
   q = [] \<or> is_dir_at r (butlast q)"
proof (induction r cur cs rule: walk.induct)
  case (2 r cur c cs)
  have "is_dir_at r (butlast (butlast cur))" if "is_dir_at r cur"
    using that by (metis append_butlast_last_id butlast.simps(1) is_dir_prefix)
  then show ?case using 2 by (auto split: if_splits)
qed auto

text \<open>A file system whose root and working directory are directories.\<close>

definition fs_ok :: "fs \<Rightarrow> bool" where
  "fs_ok fs \<longleftrightarrow> is_dir_at (fs_root fs) [] \<and> is_dir_at (fs_root fs) (fs_cwd fs)"

lemma os_path_parent:
  assumes "fs_ok fs" "os_path fs p = Some q"
  shows "q = [] \<or> is_dir_at (fs_root fs) (butlast q)"
proof (rule walk_parent)
  show "walk (fs_root fs) (if hd (c_str p) = CHR ''/'' then [] else fs_cwd fs)
     (slash_pieces (c_str p)) = Some q"
    using assms(2) by (auto simp: os_path_def Let_def split: if_splits)
  have "is_dir_at (fs_root fs) (butlast (fs_cwd fs))"
    using assms(1) by (metis append_butlast_last_id butlast.simps(1) fs_ok_def is_dir_prefix)
  then show "(if hd (c_str p) = CHR ''/'' then [] else fs_cwd fs) = [] \<or>
     is_dir_at (fs_root fs) (butlast (if hd (c_str p) = CHR ''/'' then [] else fs_cwd fs))" by simp
qed

lemma os_path_cong:
  "(\<And>q. is_dir_at (fs_root fs) q = is_dir_at (fs_root fs') q) \<Longrightarrow> fs_cwd fs = fs_cwd fs' \<Longrightarrow>
   os_path fs p = os_path fs' p"
  unfolding os_path_def Let_def by (auto intro!: walk_cong)

definition fs_content :: "fs \<Rightarrow> string list \<Rightarrow> string option" where
  "fs_content fs k = file_in (fs_root fs) k"

text \<open>The place where a path can be opened as a file: it resolves, and not to a directory.\<close>

definition file_key :: "fs \<Rightarrow> string \<Rightarrow> string list option" where
  "file_key fs p = (case os_path fs p of
     None \<Rightarrow> None | Some q \<Rightarrow> if is_dir_at (fs_root fs) q then None else Some q)"

definition same_dirs :: "fs \<Rightarrow> fs \<Rightarrow> bool" where
  "same_dirs fs fs' \<longleftrightarrow> fs_cwd fs = fs_cwd fs' \<and> dir_st_size fs = dir_st_size fs' \<and>
     (\<forall>q. is_dir_at (fs_root fs) q = is_dir_at (fs_root fs') q)"

lemma same_dirs_keys: "same_dirs fs fs' \<Longrightarrow> file_key fs = file_key fs'"
  using os_path_cong [of fs fs'] by (simp add: same_dirs_def file_key_def fun_eq_iff cong: option.case_cong)

lemma same_dirs_ok: "same_dirs fs fs' \<Longrightarrow> fs_ok fs = fs_ok fs'"
  by (auto simp: same_dirs_def fs_ok_def)

lemma file_keyD:
  assumes "fs_ok fs" "file_key fs p = Some k"
  shows "os_path fs p = Some k" "k \<noteq> []" "is_dir_at (fs_root fs) (butlast k)"
    "\<not> is_dir_at (fs_root fs) k"
  using assms os_path_parent [OF assms(1), of p k]
  by (auto simp: file_key_def fs_ok_def split: option.splits if_splits)

lemma fs_put_key:
  assumes "fs_ok fs" "file_key fs p = Some k"
  shows "\<exists>fs'. fs_put fs p f = Some fs' \<and> same_dirs fs fs' \<and>
    fs_content fs' = (fs_content fs)(k \<mapsto> f (case fs_content fs k of None \<Rightarrow> [] | Some s \<Rightarrow> s))"
proof -
  note k = file_keyD [OF assms]
  let ?r = "fs_root fs"
  let ?new = "f (case fs_content fs k of None \<Rightarrow> [] | Some s \<Rightarrow> s)"
  have leaf: "file_in (set_at ?r k (Some (Reg ?new))) q = (if q = k then Some ?new else file_in ?r q) \<and>
    is_dir_at (set_at ?r k (Some (Reg ?new))) q = is_dir_at ?r q" for q
    using set_at_leaf [OF k(2-4), of "Some (Reg ?new)"] by simp
  have "fs_put fs p f = Some (fs\<lparr> fs_root := set_at ?r k (Some (Reg ?new)) \<rparr>)"
    using k(1,4) by (auto simp: fs_put_def fs_content_def file_in_def is_dir_at_def
        split: option.splits inode.splits)
  then show ?thesis using leaf by (auto simp: same_dirs_def fs_content_def fun_eq_iff)
qed

lemma fs_put_None: "file_key fs p = None \<Longrightarrow> fs_put fs p f = None"
  by (auto simp: file_key_def fs_put_def is_dir_at_def split: option.splits inode.splits if_splits)

lemma stat_file_key:
  assumes "file_key fs p = Some k"
  shows "stat fs p = map_option Reg (fs_content fs k)"
  using assms
  by (auto simp: file_key_def stat_def fs_content_def file_in_def is_dir_at_def
      split: option.splits inode.splits if_splits)

lemma os_rename_key:
  assumes "fs_ok fs" "file_key fs p = Some k" "file_key fs q = Some j" "fs_content fs k = Some s" "k \<noteq> j"
  shows "same_dirs fs (os_rename fs p q) \<and>
    fs_content (os_rename fs p q) = (fs_content fs)(j \<mapsto> s, k := None)"
proof -
  note k = file_keyD [OF assms(1,2)] and j = file_keyD [OF assms(1,3)]
  let ?r = "fs_root fs" let ?r1 = "set_at ?r j (Some (Reg s))"
  have l1: "file_in ?r1 x = (if x = j then Some s else file_in ?r x) \<and> is_dir_at ?r1 x = is_dir_at ?r x" for x
    using set_at_leaf [OF j(2-4), of "Some (Reg s)"] by simp
  have l2: "file_in (set_at ?r1 k None) x = (if x = k then None else file_in ?r1 x) \<and>
     is_dir_at (set_at ?r1 k None) x = is_dir_at ?r1 x" for x
    using set_at_remove [of k ?r1 x] k l1 by simp
  have "node_at ?r k = Some (Reg s)"
    using assms(4) by (auto simp: fs_content_def file_in_def split: option.splits inode.splits)
  moreover have "node_at ?r j \<noteq> Some (Dir es)" for es using j(4) by (auto simp: is_dir_at_def)
  ultimately have "os_rename fs p q = fs\<lparr> fs_root := set_at ?r1 k None \<rparr>"
    using k(1) j(1) assms(5) by (auto simp: os_rename_def split: option.splits inode.splits)
  then show ?thesis using l1 l2 by (auto simp: same_dirs_def fs_content_def fun_eq_iff)
qed

lemma os_remove_key:
  assumes "fs_ok fs" "file_key fs p = Some k"
  shows "same_dirs fs (snd (os_remove fs p)) \<and>
    fs_content (snd (os_remove fs p)) = (fs_content fs)(k := None) \<and>
    fst (os_remove fs p) = (if fs_content fs k = None then - 1 else 0)"
proof -
  note k = file_keyD [OF assms]
  let ?r = "fs_root fs"
  have l: "file_in (set_at ?r k None) x = (if x = k then None else file_in ?r x) \<and>
     is_dir_at (set_at ?r k None) x = is_dir_at ?r x" for x
    using set_at_remove [OF k(2-4), of x] by simp
  show ?thesis
  proof (cases "node_at ?r k")
    case None
    then show ?thesis using k(1) by (simp add: os_remove_def same_dirs_def fs_content_def file_in_def fun_eq_iff)
  next
    case (Some n)
    then obtain s where "n = Reg s" using k(4) by (cases n) (auto simp: is_dir_at_def)
    then show ?thesis using k(1) Some l
      by (auto simp: os_remove_def same_dirs_def fs_content_def fun_eq_iff file_in_def)
  qed
qed

section \<open>Listings\<close>

text \<open>Trees as the kernel builds them: names are distinct, and no entry is called \<^verbatim>\<open>.\<close> or \<^verbatim>\<open>..\<close>.\<close>

fun wf_inode :: "inode \<Rightarrow> bool" where
  "wf_inode (Reg s) = True"
| "wf_inode (Dir es) = (distinct (map fst es) \<and>
     (\<forall>e \<in> set es. fst e \<noteq> ''.'' \<and> fst e \<noteq> ''..'' \<and> wf_inode (snd e)))"

definition path_text :: "string list \<Rightarrow> string" where
  "path_text q = concat (map (\<lambda>c. CHR ''/'' # c) q)"

fun tree_files :: "inode \<Rightarrow> (string list) list" where
  "tree_files (Reg s) = [[]]"
| "tree_files (Dir es) = concat (map (\<lambda>(c, n). map (\<lambda>q. c # q) (tree_files n)) es)"

lemma tree_files_spec:
  "wf_inode n \<Longrightarrow> q \<in> set (tree_files n) \<longleftrightarrow> file_in n q \<noteq> None"
proof (induction n arbitrary: q)
  case (Dir es)
  have m: "map_of es c = Some n \<longleftrightarrow> (c, n) \<in> set es" for c n
    using Dir.prems by (simp add: map_of_eq_Some_iff)
  show ?case
  proof (cases q)
    case Nil
    then show ?thesis by auto
  next
    case (Cons c cs)
    have "q \<in> set (tree_files (Dir es)) \<longleftrightarrow> (\<exists>n. (c, n) \<in> set es \<and> cs \<in> set (tree_files n))"
      using Cons by force
    also have "\<dots> \<longleftrightarrow> (\<exists>n. (c, n) \<in> set es \<and> file_in n cs \<noteq> None)"
      using Dir.IH Dir.prems by fastforce
    also have "\<dots> \<longleftrightarrow> file_in (Dir es) q \<noteq> None"
      using Cons by (auto simp: m [symmetric] split: option.splits)
    finally show ?thesis .
  qed
qed simp

lemma get_all_files_entries_tree:
  assumes "\<And>c n d. (c, n) \<in> set es \<Longrightarrow> \<not> is_dir_at n [] \<or>
      get_all_files_at d n [] = (0, map (\<lambda>q. d @ path_text q) (tree_files n))"
    and "\<forall>e \<in> set es. fst e \<noteq> ''.'' \<and> fst e \<noteq> ''..''"
  shows "get_all_files_entries d es l = l @ map (\<lambda>q. d @ path_text q) (tree_files (Dir es))"
  using assms
proof (induction es arbitrary: l)
  case (Cons e es)
  obtain name n where e: "e = (name, n)" by (cases e)
  have rest: "get_all_files_entries d es l' = l' @ map (\<lambda>q. d @ path_text q) (tree_files (Dir es))" for l'
    by (rule Cons.IH) (use Cons.prems in \<open>simp, blast\<close>, use Cons.prems in simp)
  show ?case
  proof (cases n)
    case (Reg s)
    then show ?thesis using rest e by (simp add: path_text_def)
  next
    case (Dir ds)
    have "get_all_files_at (d @ ''/'' @ name) n [] =
        (0, map (\<lambda>q. (d @ ''/'' @ name) @ path_text q) (tree_files n))"
      using Cons.prems(1) [of name n "d @ ''/'' @ name"] Dir e by auto
    then show ?thesis using Cons.prems(2) Dir e rest
      by (simp add: path_text_def comp_def del: get_all_files_at.simps tree_files.simps)
       (simp add: comp_def)
  qed
qed simp

lemma get_all_files_tree:
  "wf_inode n \<Longrightarrow> is_dir_at n [] \<Longrightarrow>
    get_all_files_at d n l = (0, l @ map (\<lambda>q. d @ path_text q) (tree_files n))"
proof (induction n arbitrary: d l)
  case (Dir es)
  have "get_all_files_entries d es l = l @ map (\<lambda>q. d @ path_text q) (tree_files (Dir es))"
  proof (rule get_all_files_entries_tree)
    fix c n d' assume "(c, n) \<in> set es"
    then show "\<not> is_dir_at n [] \<or>
        get_all_files_at d' n [] = (0, map (\<lambda>q. d' @ path_text q) (tree_files n))"
      using Dir.IH [of "(c, n)" n] Dir.prems by force
  qed (use Dir.prems in simp)
  then show ?case by simp
qed simp

text \<open>The three listings of regular files agree.\<close>

lemma get_files_list_eq:
  "get_files_list_at d n l = get_all_files_at d n l"
  "get_files_list_entries d es l = get_all_files_entries d es l"
  by (induction d n l and d es l rule: get_files_list_at_get_files_list_entries.induct)
    (auto simp: Let_def split: inode.splits prod.splits)

text \<open>
  Listing a directory tree: \<^verbatim>\<open>get_all_files\<close> (and \<^verbatim>\<open>get_files_list\<close>) on a directory returns 0 and
  exactly the paths of the regular files below it, at every depth.
\<close>

theorem get_all_files_complete:
  assumes "stat fs d = Some (Dir es)" "wf_inode (Dir es)"
  shows "\<exists>l. get_all_files fs d [] = (0, l) \<and> get_files_list fs d [] = (0, l) \<and>
    (\<forall>f. f \<in> set l \<longleftrightarrow> (\<exists>q. file_in (Dir es) q \<noteq> None \<and> f = d @ path_text q))"
proof -
  let ?l = "map (\<lambda>q. d @ path_text q) (tree_files (Dir es))"
  have "get_all_files fs d [] = (0, ?l)"
    using get_all_files_tree [OF assms(2), of d "[]"] assms(1) by (simp add: get_all_files_def)
  moreover have "get_files_list fs d [] = get_all_files fs d []"
    by (simp add: get_files_list_def get_all_files_def get_files_list_eq split: option.split)
  moreover have "f \<in> set ?l \<longleftrightarrow> (\<exists>q. file_in (Dir es) q \<noteq> None \<and> f = d @ path_text q)" for f
    using tree_files_spec [OF assms(2)] by (auto simp del: tree_files.simps)
  ultimately show ?thesis by metis
qed


theorem get_all_files_complete_witness:
  "\<exists>l. get_all_files \<lparr> fs_root = Dir [(''a'', Dir [(''x'', Reg ''1''), (''b'', Dir [(''y'', Reg [])])])],
        fs_cwd = [], dir_st_size = 0 \<rparr> ''/a'' [] = (0, l) \<and> ''/a/b/y'' \<in> set l"
proof -
  let ?es = "[(''x'', Reg ''1''), (''b'', Dir [(''y'', Reg [])])]"
  let ?fs = "\<lparr> fs_root = Dir [(''a'', Dir ?es)], fs_cwd = [], dir_st_size = 0 \<rparr>"
  have "stat ?fs ''/a'' = Some (Dir ?es)"
    by (simp add: stat_def os_path_def c_str_def)
  from get_all_files_complete [OF this] obtain l where
    l: "get_all_files ?fs ''/a'' [] = (0, l)"
       "\<forall>f. f \<in> set l \<longleftrightarrow> (\<exists>q. file_in (Dir ?es) q \<noteq> None \<and> f = ''/a'' @ path_text q)" by auto
  have "file_in (Dir ?es) [''b'', ''y''] \<noteq> None" "''/a/b/y'' = ''/a'' @ path_text [''b'', ''y'']"
    by (simp_all add: path_text_def)
  then show ?thesis using l by blast
qed

section \<open>Plain absolute paths\<close>

definition plain :: "string \<Rightarrow> bool" where
  "plain c \<longleftrightarrow> c \<noteq> [] \<and> c \<noteq> ''.'' \<and> c \<noteq> ''..'' \<and> CHR ''/'' \<notin> set c \<and> NUL \<notin> set c"

lemma path_text_simps [simp]:
  "path_text [] = []" "path_text (c # cs) = CHR ''/'' # c @ path_text cs"
  "path_text (cs @ ds) = path_text cs @ path_text ds"
  by (simp_all add: path_text_def)

lemma path_text_no_nul: "list_all plain cs \<Longrightarrow> NUL \<notin> set (path_text cs)"
  by (induction cs) (auto simp: plain_def)

lemma pieces_path_text:
  "CHR ''/'' \<notin> set c \<Longrightarrow> list_all plain cs \<Longrightarrow> slash_pieces (c @ path_text cs) = c # cs"
proof (induction cs arbitrary: c)
  case Nil
  then show ?case by (auto intro: fields_none)
next
  case (Cons d cs)
  have "slash_pieces (c @ CHR ''/'' # d @ path_text cs) = c # slash_pieces (d @ path_text cs)"
    using Cons.prems by (intro fields_stop) auto
  then show ?case using Cons by (simp add: plain_def)
qed

lemma walk_plain:
  "list_all plain cs \<Longrightarrow> walk r cur cs = (if cs = [] \<or> is_dir_at r (cur @ butlast cs) then Some (cur @ cs) else None)"
proof (induction cs arbitrary: cur)
  case (Cons c cs)
  show ?case
    using Cons is_dir_prefix [of r cur "butlast (c # cs)"]
    by (cases cs) (auto simp: plain_def)
qed simp

lemma os_path_plain:
  assumes "cs \<noteq> []" "list_all plain cs"
  shows "os_path fs (path_text cs) =
    (if is_dir_at (fs_root fs) (butlast cs) then Some cs else None)"
proof -
  have "is_dir_at (fs_root fs) []" if "is_dir_at (fs_root fs) (butlast cs)"
    using that is_dir_prefix [of _ "[]"] by simp
  moreover have "hd (path_text cs) = CHR ''/''" "path_text cs \<noteq> []" using assms(1) by (cases cs; simp)+
  moreover have "slash_pieces (path_text cs) = [] # cs"
    using pieces_path_text [of "[]"] assms(2) by simp
  ultimately show ?thesis
    using assms path_text_no_nul [OF assms(2)] walk_plain [OF assms(2), of "fs_root fs" "[]"]
    by (auto simp: os_path_def Let_def)
qed

lemma pieces_append: "P c \<Longrightarrow> pieces P (a @ c # b) = pieces P a @ pieces P b"
proof (induction a)
  case (Cons x a)
  then show ?case by (cases "pieces P a") auto
qed simp

lemma walk_append: "walk r cur (a @ b) = (case walk r cur a of None \<Rightarrow> None | Some q \<Rightarrow> walk r q b)"
  by (induction r cur a rule: walk.induct) auto

lemma pieces_below: "list_all plain q \<Longrightarrow> slash_pieces (p @ path_text q) = slash_pieces p @ q"
proof (cases q)
  case (Cons c cs)
  assume "list_all plain q"
  then show ?thesis using Cons pieces_append [of "\<lambda>c. c = CHR ''/''" "CHR ''/''" p] pieces_path_text [of c cs]
    by (simp add: plain_def)
qed simp

lemma file_key_plain:
  assumes "cs \<noteq> []" "list_all plain cs" "is_dir_at (fs_root fs) (butlast cs)" "\<not> is_dir_at (fs_root fs) cs"
  shows "file_key fs (path_text cs) = Some cs"
  using assms by (simp add: file_key_def os_path_plain)

lemma strip_slashes_plain: "list_all plain cs \<Longrightarrow> strip_slashes (path_text cs) = path_text cs"
proof (cases cs rule: rev_cases)
  case (snoc ds d)
  assume "list_all plain cs"
  then have "d \<noteq> []" "CHR ''/'' \<notin> set d" using snoc by (auto simp: plain_def)
  then have "d \<noteq> []" "last d \<noteq> CHR ''/''" using last_in_set [of d] by metis+
  then show ?thesis using snoc 
    by (cases d rule: rev_cases) (auto simp: strip_slashes_def)
qed (simp add: strip_slashes_def)

definition ensure_dir :: "fs \<Rightarrow> string \<Rightarrow> fs" where
  "ensure_dir fs p = (if stat fs p = None then os_mkdir fs p else fs)"

definition dirs_grow :: "fs \<Rightarrow> fs \<Rightarrow> bool" where
  "dirs_grow fs fs' \<longleftrightarrow> fs_cwd fs' = fs_cwd fs \<and> fs_content fs' = fs_content fs \<and>
     (\<forall>q. is_dir_at (fs_root fs) q \<longrightarrow> is_dir_at (fs_root fs') q)"

lemma dirs_grow_refl [simp]: "dirs_grow fs fs" by (simp add: dirs_grow_def)

lemma dirs_grow_trans: "dirs_grow a b \<Longrightarrow> dirs_grow b c \<Longrightarrow> dirs_grow a c"
  by (auto simp: dirs_grow_def)

lemma ensure_dir_plain:
  assumes "list_all plain cs" "cs = [] \<or> is_dir_at (fs_root fs) (butlast cs)"
    "is_dir_at (fs_root fs) []" "fs_content fs cs = None"
  shows "dirs_grow fs (ensure_dir fs (path_text cs)) \<and>
    is_dir_at (fs_root (ensure_dir fs (path_text cs))) cs"
proof (cases "cs = []")
  case True
  then show ?thesis using assms(3)
    by (simp add: ensure_dir_def os_mkdir_def stat_def os_path_def strip_slashes_def)
next
  case False
  note p = os_path_plain [OF False assms(1), of fs]
  show ?thesis
  proof (cases "is_dir_at (fs_root fs) cs")
    case True
    then have "stat fs (path_text cs) \<noteq> None"
      using p assms(2) False by (auto simp: stat_def is_dir_at_def split: option.splits)
    then show ?thesis using True by (auto simp: ensure_dir_def)
  next
    case nd: False
    then have n: "node_at (fs_root fs) cs = None"
      using assms(4) by (simp add: node_at_split fs_content_def)
    then have "ensure_dir fs (path_text cs) =
        fs\<lparr> fs_root := set_at (fs_root fs) cs (Some (Dir [])) \<rparr>"
      using p assms(2) False path_text_no_nul [OF assms(1)]
      by (simp add: ensure_dir_def stat_def os_mkdir_def strip_slashes_plain [OF assms(1)])
    then show ?thesis using set_at_mkdir [OF False _ n] assms(2) False
      by (auto simp: dirs_grow_def fs_content_def fun_eq_iff)
  qed
qed

lemma make_dirs_loop_append:
  "make_dirs_loop fs str (xs @ ys) = make_dirs_loop (make_dirs_loop fs str xs) str ys"
  by (induction xs arbitrary: fs) auto

lemma make_dirs_loop_skip:
  "\<forall>i \<in> set is. str ! i \<noteq> CHR ''/'' \<Longrightarrow> make_dirs_loop fs str is = fs"
  by (induction "is") auto

lemma make_dirs_loop_snoc:
  assumes "plain c"
  shows "make_dirs_loop fs (path_text (cs @ [c]) @ rest) [0..<length (path_text (cs @ [c]))] =
    ensure_dir (make_dirs_loop fs (path_text (cs @ [c]) @ rest) [0..<length (path_text cs)]) (path_text cs)"
proof -
  let ?s = "path_text (cs @ [c]) @ rest" and ?n = "length (path_text cs)"
  have "[0..<length (path_text (cs @ [c]))] = [0..<?n] @ ?n # [Suc ?n..<Suc ?n + length c]"
  proof -
    have "[0..<?n + Suc (length c)] = [0..<?n] @ [?n..<?n + Suc (length c)]"
      by (rule upt_add_eq_append) simp
    also have "[?n..<?n + Suc (length c)] = ?n # [Suc ?n..<Suc ?n + length c]"
      by (subst upt_conv_Cons) simp_all
    finally show ?thesis by simp
  qed
  moreover have "?s ! ?n = CHR ''/''" by (simp add: nth_append)
  moreover have "?s ! i \<noteq> CHR ''/''" if "i \<in> set [Suc ?n..<Suc ?n + length c]" for i
  proof -
    have "?s ! i = c ! (i - Suc ?n)" using that by (auto simp: nth_append nth_Cons')
    then show ?thesis using that assms by (auto simp: plain_def in_set_conv_nth)
  qed
  ultimately show ?thesis
    by (simp add: make_dirs_loop_append make_dirs_loop_skip ensure_dir_def)
qed

lemma make_dirs_loop_plain:
  assumes "list_all plain cs" "is_dir_at (fs_root fs) []" "\<And>k. fs_content fs (take k cs) = None"
  shows "dirs_grow fs (make_dirs_loop fs (path_text cs @ rest) [0..<length (path_text cs)]) \<and>
    (cs = [] \<or>
     is_dir_at (fs_root (make_dirs_loop fs (path_text cs @ rest) [0..<length (path_text cs)])) (butlast cs))"
  using assms
proof (induction cs arbitrary: rest rule: rev_induct)
  case (snoc c cs)
  let ?fs1 = "make_dirs_loop fs (path_text (cs @ [c]) @ rest) [0..<length (path_text cs)]"
  have ks: "fs_content fs (take k cs) = None" for k
    using snoc.prems(3) [of "min k (length cs)"] by (cases "k \<le> length cs") auto
  have c: "list_all plain cs" "plain c" using snoc.prems(1) by simp_all
  have "path_text (cs @ [c]) @ rest = path_text cs @ path_text [c] @ rest" by simp
  then have 1: "dirs_grow fs ?fs1" "cs = [] \<or> is_dir_at (fs_root ?fs1) (butlast cs)"
    using snoc.IH [OF c(1) snoc.prems(2) ks] by metis+
  have "fs_content ?fs1 cs = None" "is_dir_at (fs_root ?fs1) []"
    using 1(1) snoc.prems(2) ks [of "length cs"] unfolding dirs_grow_def by simp_all
  from ensure_dir_plain [OF c(1) 1(2) this(2,1)] dirs_grow_trans [OF 1(1)]
  have "dirs_grow fs (ensure_dir ?fs1 (path_text cs))"
    "is_dir_at (fs_root (ensure_dir ?fs1 (path_text cs))) cs" by blast+
  then show ?case unfolding make_dirs_loop_snoc [OF c(2)] butlast_snoc by blast
qed simp

text \<open>
  \<^verbatim>\<open>make_dir_multi_level\<close> on an absolute path with plain components and no regular file on the
  way makes the directory with all its parents, keeps every file's content and every
  existing directory.
\<close>

theorem make_dir_multi_level_creates:
  assumes "cs \<noteq> []" "list_all plain cs" "length (path_text cs) < 512"
    "is_dir_at (fs_root fs) []" "\<forall>k. fs_content fs (take k cs) = None"
  shows "\<exists>fs'. make_dir_multi_level fs (path_text cs) = Some fs' \<and> is_dir_at (fs_root fs') cs \<and>
    fs_content fs' = fs_content fs \<and> (\<forall>q. is_dir_at (fs_root fs) q \<longrightarrow> is_dir_at (fs_root fs') q)"
proof -
  let ?fs1 = "make_dirs_loop fs (path_text cs) [0..<length (path_text cs)]"
  have 1: "dirs_grow fs ?fs1" "is_dir_at (fs_root ?fs1) (butlast cs)"
    using make_dirs_loop_plain [of cs fs "[]"] assms(1,2,4,5) unfolding append_Nil2 by blast+
  have "fs_content ?fs1 cs = None" "is_dir_at (fs_root ?fs1) []"
    using 1 assms(4,5) assms(5) [rule_format, of "length cs"] by (auto simp: dirs_grow_def)
  from ensure_dir_plain [OF assms(2) _ this(2,1)] 1(2)
  have 2: "dirs_grow ?fs1 (ensure_dir ?fs1 (path_text cs))"
    "is_dir_at (fs_root (ensure_dir ?fs1 (path_text cs))) cs" by blast+
  have "path_text cs \<noteq> []" using assms(1) by (cases cs) auto
  moreover have "\<not> 512 \<le> length (path_text cs)" using assms(3) by simp
  ultimately have "make_dir_multi_level fs (path_text cs) = Some (ensure_dir ?fs1 (path_text cs))"
    using path_text_no_nul [OF assms(2)]
    by (simp only: make_dir_multi_level_def Let_def ensure_dir_def c_str_id if_False
        length_greater_0_conv simp_thms if_True)
  then show ?thesis using dirs_grow_trans [OF 1(1) 2(1)] 2(2) unfolding dirs_grow_def by blast
qed

theorem make_dir_multi_level_creates_witness:
  "\<exists>fs'. make_dir_multi_level \<lparr> fs_root = Dir [(''app'', Dir [])], fs_cwd = [], dir_st_size = 4096 \<rparr>
     (path_text [''app'', ''dat'', ''im'']) = Some fs' \<and> is_dir_at (fs_root fs') [''app'', ''dat'', ''im'']"
proof -
  have "fs_content \<lparr> fs_root = Dir [(''app'', Dir [])], fs_cwd = [], dir_st_size = 4096 \<rparr>
      (take k [''app'', ''dat'', ''im'']) = None" for k
    by (cases k; cases "k - 1"; cases "k - 2") (auto simp: fs_content_def)
  then show ?thesis
    using make_dir_multi_level_creates [of "[''app'', ''dat'', ''im'']"
        "\<lparr> fs_root = Dir [(''app'', Dir [])], fs_cwd = [], dir_st_size = 4096 \<rparr>"]
    by (auto simp: plain_def)
qed

section \<open>The store of files\<close>

text \<open>What the upload and download handlers rely on: a store of files addressed through paths,
  where \<open>key\<close> tells the file a path opens, and \<open>view\<close> gives the files' contents.\<close>

locale file_store =
  fixes inv :: "'s \<Rightarrow> bool"
    and view :: "'s \<Rightarrow> 'k \<Rightarrow> string option"
    and key :: "'s \<Rightarrow> 'p \<Rightarrow> 'k option"
    and store :: "'s \<Rightarrow> 'p \<Rightarrow> string \<Rightarrow> 's"
    and extend :: "'s \<Rightarrow> 'p \<Rightarrow> string \<Rightarrow> 's"
    and move :: "'s \<Rightarrow> 'p \<Rightarrow> 'p \<Rightarrow> 's"
    and remove :: "'s \<Rightarrow> 'p \<Rightarrow> 's"
  assumes write_law: "inv s \<Longrightarrow> key s p = Some k \<Longrightarrow>
      inv (store s p d) \<and> key (store s p d) = key s \<and> view (store s p d) = (view s)(k \<mapsto> d)"
    and append_law: "inv s \<Longrightarrow> key s p = Some k \<Longrightarrow>
      inv (extend s p d) \<and> key (extend s p d) = key s \<and>
      view (extend s p d) = (view s)(k \<mapsto> (case view s k of None \<Rightarrow> [] | Some c \<Rightarrow> c) @ d)"
    and move_law: "inv s \<Longrightarrow> key s p = Some k \<Longrightarrow> key s q = Some j \<Longrightarrow> k \<noteq> j \<Longrightarrow>
      view s k = Some c \<Longrightarrow> inv (move s p q) \<and> key (move s p q) = key s \<and>
      view (move s p q) = (view s)(j \<mapsto> c, k := None)"
    and remove_law: "inv s \<Longrightarrow> key s p = Some k \<Longrightarrow>
      inv (remove s p) \<and> key (remove s p) = key s \<and> view (remove s p) = (view s)(k := None)"
begin

lemma append_all:
  assumes "inv s" "key s p = Some k"
  shows "let s' = foldl (\<lambda>s d. extend s p d) s ds in
    inv s' \<and> key s' = key s \<and>
    view s' = (if ds = [] then view s
      else (view s)(k \<mapsto> (case view s k of None \<Rightarrow> [] | Some c \<Rightarrow> c) @ concat ds))"
proof (induction ds rule: rev_induct)
  case (snoc d ds)
  then show ?case
    using append_law [of "foldl (\<lambda>s d. extend s p d) s ds" p k d] assms
    by (cases "ds = []") (simp_all add: Let_def fun_eq_iff)
qed (simp add: assms)

lemma write_all:
  assumes "inv s" "key s p = Some k"
  shows "let s' = foldl (\<lambda>s d. store s p d) s ds in
    inv s' \<and> key s' = key s \<and>
    view s' = (if ds = [] then view s else (view s)(k \<mapsto> last ds))"
proof (induction ds rule: rev_induct)
  case (snoc d ds)
  then show ?case
    using write_law [of "foldl (\<lambda>s d. store s p d) s ds" p k d] assms
    by (cases "ds = []") (simp_all add: Let_def fun_eq_iff)
qed (simp add: assms)

lemma staged_commit:
  assumes "inv s" "key s p = Some k" "key s q = Some j" "k \<noteq> j" "view s k = None" "ds \<noteq> []"
  shows "view (move (foldl (\<lambda>s d. extend s p d) s ds) p q) = (view s)(j \<mapsto> concat ds)"
proof -
  let ?s = "foldl (\<lambda>s d. extend s p d) s ds"
  have a: "inv ?s" "key ?s = key s" "view ?s = (view s)(k \<mapsto> concat ds)"
    using append_all [OF assms(1,2), of ds] assms(5,6) by (simp_all add: Let_def)
  have "view (move ?s p q) = ((view s)(k \<mapsto> concat ds))(j \<mapsto> concat ds, k := None)"
    using move_law [of ?s p k q j "concat ds"] a assms by simp
  then show ?thesis using assms(4,5) by auto
qed

end

lemma fs_put_law:
  assumes "fs_ok fs" "file_key fs p = Some k"
  shows "let fs' = (case fs_put fs p f of Some fs1 \<Rightarrow> fs1 | None \<Rightarrow> fs) in
    fs_ok fs' \<and> file_key fs' = file_key fs \<and>
    fs_content fs' = (fs_content fs)(k \<mapsto> f (case fs_content fs k of None \<Rightarrow> [] | Some s \<Rightarrow> s))"
proof -
  obtain fs' where fs': "fs_put fs p f = Some fs'" "same_dirs fs fs'"
    "fs_content fs' = (fs_content fs)(k \<mapsto> f (case fs_content fs k of None \<Rightarrow> [] | Some s \<Rightarrow> s))"
    using fs_put_key [OF assms, of f] by blast
  then show ?thesis using assms(1) same_dirs_keys [OF fs'(2)] same_dirs_ok [OF fs'(2)]
    by (simp add: Let_def)
qed

interpretation disk: file_store fs_ok fs_content file_key
  "\<lambda>fs p d. snd (write_to_binary_file fs p d)" "\<lambda>fs p d. snd (append_to_file2 fs p d)"
  "\<lambda>fs p q. snd (file_rename fs p q)" "\<lambda>fs p. snd (os_remove fs p)"
proof
  fix s p q d c and k j :: "string list"
  assume ok: "fs_ok s" and k: "file_key s p = Some k"
  show "fs_ok (snd (write_to_binary_file s p d)) \<and> file_key (snd (write_to_binary_file s p d)) = file_key s \<and>
      fs_content (snd (write_to_binary_file s p d)) = (fs_content s)(k \<mapsto> d)"
    using fs_put_law [OF ok k, of "\<lambda>_. d"] by (simp add: write_to_binary_file_def Let_def)
  show "fs_ok (snd (append_to_file2 s p d)) \<and> file_key (snd (append_to_file2 s p d)) = file_key s \<and>
      fs_content (snd (append_to_file2 s p d)) =
        (fs_content s)(k \<mapsto> (case fs_content s k of None \<Rightarrow> [] | Some c \<Rightarrow> c) @ d)"
    using fs_put_law [OF ok k, of "\<lambda>old. old @ d"] by (simp add: append_to_file2_def Let_def)
  show "fs_ok (snd (os_remove s p)) \<and> file_key (snd (os_remove s p)) = file_key s \<and>
      fs_content (snd (os_remove s p)) = (fs_content s)(k := None)"
    using os_remove_key [OF ok k] same_dirs_keys same_dirs_ok ok by metis
  assume "file_key s q = Some j" "k \<noteq> j" "fs_content s k = Some c"
  then show "fs_ok (snd (file_rename s p q)) \<and> file_key (snd (file_rename s p q)) = file_key s \<and>
      fs_content (snd (file_rename s p q)) = (fs_content s)(j \<mapsto> c, k := None)"
    using os_rename_key [OF ok k, of q j c] stat_file_key [OF k] same_dirs_keys same_dirs_ok ok
    by (simp add: file_rename_def) metis
qed

text \<open>
  Files received in pieces: on a path that can be opened and holds no file yet, a sequence of
  \<^verbatim>\<open>append_to_file2\<close> calls leaves the concatenation of the pieces, while a sequence of
  \<^verbatim>\<open>write_to_binary_file\<close> calls, each of which truncates, leaves only the last piece.
\<close>

theorem chunked_writes:
  assumes "fs_ok fs" "file_key fs p = Some k" "fs_content fs k = None" "ds \<noteq> []"
  shows "read_from_file (foldl (\<lambda>fs d. snd (append_to_file2 fs p d)) fs ds) p = concat ds \<and>
     read_from_file (foldl (\<lambda>fs d. snd (write_to_binary_file fs p d)) fs ds) p = last ds"
proof -
  let ?a = "foldl (\<lambda>fs d. snd (append_to_file2 fs p d)) fs ds"
  let ?w = "foldl (\<lambda>fs d. snd (write_to_binary_file fs p d)) fs ds"
  have "file_key ?a p = Some k" "fs_content ?a k = Some (concat ds)"
    using disk.append_all [OF assms(1,2), of ds] assms(2-4) by (simp_all add: Let_def)
  moreover have "file_key ?w p = Some k" "fs_content ?w k = Some (last ds)"
    using disk.write_all [OF assms(1,2), of ds] assms(2-4) by (simp_all add: Let_def)
  ultimately show ?thesis by (simp add: read_from_file_def stat_file_key)
qed

theorem chunked_writes_witness:
  "read_from_file (foldl (\<lambda>fs d. snd (append_to_file2 fs (path_text [''tmp'', ''f'']) d))
      \<lparr> fs_root = Dir [(''tmp'', Dir [])], fs_cwd = [], dir_st_size = 0 \<rparr> [''ab'', ''c'']) (path_text [''tmp'', ''f'']) = ''abc'' \<and>
   read_from_file (foldl (\<lambda>fs d. snd (write_to_binary_file fs (path_text [''tmp'', ''f'']) d))
      \<lparr> fs_root = Dir [(''tmp'', Dir [])], fs_cwd = [], dir_st_size = 0 \<rparr> [''ab'', ''c'']) (path_text [''tmp'', ''f'']) = ''c''"
proof -
  let ?fs = "\<lparr> fs_root = Dir [(''tmp'', Dir [])], fs_cwd = [], dir_st_size = 0 \<rparr>"
  have "file_key ?fs (path_text [''tmp'', ''f'']) = Some [''tmp'', ''f'']"
    by (rule file_key_plain) (simp_all add: plain_def)
  moreover have "fs_ok ?fs" "fs_content ?fs [''tmp'', ''f''] = None"
    by (simp_all add: fs_ok_def fs_content_def)
  ultimately show ?thesis using chunked_writes [of ?fs _ _ "[''ab'', ''c'']"] by simp
qed


section \<open>Well-formed trees\<close>

definition entry_name :: "string \<Rightarrow> bool" where "entry_name c \<longleftrightarrow> c \<noteq> ''.'' \<and> c \<noteq> ''..''"

text \<open>A file system as the kernel has it; \<^const>\<open>wf_inode\<close> is kept only because a resolved path has no dots.\<close>

definition wf_fs :: "fs \<Rightarrow> bool" where
  "wf_fs fs \<longleftrightarrow> wf_inode (fs_root fs) \<and> list_all entry_name (fs_cwd fs)"

lemma walk_names: "walk r cur cs = Some q \<Longrightarrow> list_all entry_name cur \<Longrightarrow> list_all entry_name q"
proof (induction r cur cs rule: walk.induct)
  case (2 r cur c cs)
  have "list_all entry_name (butlast cur)" using 2(5) by (auto simp: list_all_iff dest: in_set_butlastD)
  moreover have "c \<noteq> ''.'' \<Longrightarrow> c \<noteq> ''..'' \<Longrightarrow> entry_name c" by (simp add: entry_name_def)
  ultimately show ?case using 2 by (simp split: if_splits)
qed simp

lemma os_path_names: "wf_fs fs \<Longrightarrow> os_path fs p = Some q \<Longrightarrow> list_all entry_name q"
  using walk_names by (auto simp: os_path_def wf_fs_def Let_def split: if_splits)

lemma update_names: "set (AList.update c m es) \<subseteq> insert (c, m) (set es)"
  by (induction es) auto

lemma wf_update: "wf_inode (Dir es) \<Longrightarrow> wf_inode m \<Longrightarrow> entry_name c \<Longrightarrow> wf_inode (Dir (AList.update c m es))"
  using update_names [of c m es] by (auto simp: entry_name_def distinct_update)

lemma wf_delete: "wf_inode (Dir es) \<Longrightarrow> wf_inode (Dir (AList.delete c es))"
  by (auto simp: AList.delete_eq intro: distinct_map_filter)

lemma set_at_wf:
  "wf_inode n \<Longrightarrow> list_all entry_name p \<Longrightarrow> (\<And>m. v = Some m \<Longrightarrow> wf_inode m) \<Longrightarrow> wf_inode (set_at n p v)"
proof (induction n p v rule: set_at.induct)
  case (3 es c v)
  then show ?case using wf_update wf_delete by (auto split: option.splits simp del: wf_inode.simps)
next
  case (4 es c d cs v)
  show ?case
  proof (cases "map_of es c")
    case (Some n)
    then have "wf_inode n" using 4(2) by (auto dest: map_of_SomeD)
    then show ?thesis using 4 Some wf_update by (simp del: wf_inode.simps)
  qed (use 4 in simp)
qed (auto split: option.splits)

lemma node_at_wf: "wf_inode n \<Longrightarrow> node_at n p = Some m \<Longrightarrow> wf_inode m"
  by (induction n p rule: node_at.induct) (auto split: option.splits dest!: map_of_SomeD)

lemma put_node_wf:
  assumes "wf_fs fs" "os_path fs p = Some q"
  shows "wf_inode m \<Longrightarrow> wf_fs (fs\<lparr> fs_root := set_at (fs_root fs) q (Some m) \<rparr>)" "wf_fs (fs\<lparr> fs_root := set_at (fs_root fs) q None \<rparr>)"
  using assms(1) os_path_names [OF assms] by (auto simp: wf_fs_def intro!: set_at_wf)

lemma fs_put_wf: "wf_fs fs \<Longrightarrow> fs_put fs p f = Some fs' \<Longrightarrow> wf_fs fs'"
  using put_node_wf(1) [of fs p] by (auto simp: fs_put_def split: option.splits inode.splits)

lemma os_mkdir_wf: "wf_fs fs \<Longrightarrow> wf_fs (os_mkdir fs p)"
  using put_node_wf(1) [of fs] by (auto simp: os_mkdir_def split: option.splits)

lemma os_remove_wf: "wf_fs fs \<Longrightarrow> wf_fs (snd (os_remove fs p))"
  using put_node_wf(2) [of fs p] by (auto simp: os_remove_def split: option.splits inode.splits list.splits)

lemma os_rename_wf:
  assumes "wf_fs fs"
  shows "wf_fs (os_rename fs p q)"
proof -
  have "wf_fs (fs\<lparr> fs_root := set_at (set_at (fs_root fs) j (Some (Reg s))) k None \<rparr>)"
    if "os_path fs p = Some k" "os_path fs q = Some j" for k j s
    using assms os_path_names [OF assms that(1)] os_path_names [OF assms that(2)] by (auto simp: wf_fs_def intro!: set_at_wf)
  then show ?thesis using assms by (auto simp: os_rename_def split: option.split inode.split)
qed

lemma make_dirs_loop_wf: "wf_fs fs \<Longrightarrow> wf_fs (make_dirs_loop fs str is)"
  by (induction fs str "is" rule: make_dirs_loop.induct) (simp_all add: os_mkdir_wf)



end
