(* ===== verification/Http_Codec.thy ===== *)
theory Http_Codec
  imports FileUtils
begin

text \<open>
  The text codecs of the HTTP library, \<^verbatim>\<open>src/src/httplib.h\<close> lines 2193-2500: hexadecimal
  numbers, UTF-8, base64, percent encoding, path validation, trimming and splitting.  A
  function that returns a flag and fills an output argument returns an option.
\<close>

section \<open>Hexadecimal numbers and UTF-8\<close>

text \<open>\<^verbatim>\<open>char\<close> is signed on the targets of the program: bytes from 128 on are negative and fail
  every comparison here.\<close>

definition is_hex :: "char \<Rightarrow> nat option" where
  "is_hex c =
     (if 0x20 \<le> ord c \<and> c_isdigit c then Some (ord c - ord CHR ''0'')
      else if ord CHR ''A'' \<le> ord c \<and> ord c \<le> ord CHR ''F'' then Some (ord c - ord CHR ''A'' + 10)
      else if ord CHR ''a'' \<le> ord c \<and> ord c \<le> ord CHR ''f'' then Some (ord c - ord CHR ''a'' + 10)
      else None)"

fun from_hex_loop :: "string \<Rightarrow> nat \<Rightarrow> nat \<Rightarrow> nat \<Rightarrow> nat option" where
  "from_hex_loop s i 0 val = Some val"
| "from_hex_loop s i (Suc cnt) val =
     (if i \<ge> length s \<or> s ! i = NUL then None
      else case is_hex (s ! i) of
             Some v \<Rightarrow> from_hex_loop s (i + 1) cnt (val * 16 + v)
           | None \<Rightarrow> None)"

definition from_hex_to_i :: "string \<Rightarrow> nat \<Rightarrow> nat \<Rightarrow> nat option" where
  "from_hex_to_i s i cnt = (if i \<ge> length s then None else from_hex_loop s i cnt 0)"

fun from_i_to_hex_loop :: "nat \<Rightarrow> string \<Rightarrow> string" where
  "from_i_to_hex_loop n ret =
     (let ret' = (''0123456789abcdef'' ! (n mod 16)) # ret; n' = n div 16
      in if n' > 0 then from_i_to_hex_loop n' ret' else ret')"

declare from_i_to_hex_loop.simps [simp del]

definition from_i_to_hex :: "nat \<Rightarrow> string" where
  "from_i_to_hex n = from_i_to_hex_loop n []"

text \<open>The bytes stored in \<^verbatim>\<open>buff\<close>, whose number is the result.\<close>

definition to_utf8 :: "nat \<Rightarrow> string" where
  "to_utf8 code =
     (if code < 0x80 then [char_of (code mod 0x80)]
      else if code < 0x800 then
        [char_of (0xC0 + code div 64 mod 0x20), char_of (0x80 + code mod 0x40)]
      else if code < 0xD800 then
        [char_of (0xE0 + code div 4096 mod 0x10), char_of (0x80 + code div 64 mod 0x40),
         char_of (0x80 + code mod 0x40)]
      else if code < 0xE000 then []
      else if code < 0x10000 then
        [char_of (0xE0 + code div 4096 mod 0x10), char_of (0x80 + code div 64 mod 0x40),
         char_of (0x80 + code mod 0x40)]
      else if code < 0x110000 then
        [char_of (0xF0 + code div 262144 mod 8), char_of (0x80 + code div 4096 mod 0x40),
         char_of (0x80 + code div 64 mod 0x40), char_of (0x80 + code mod 0x40)]
      else [])"

section \<open>Base64\<close>

definition b64_lookup :: "nat \<Rightarrow> char" where
  "b64_lookup i = ''ABCDEFGHIJKLMNOPQRSTUVWXYZabcdefghijklmnopqrstuvwxyz0123456789+/'' ! i"

text \<open>
  The inner loop: \<open>val\<close> is the 32-bit accumulator, \<open>valb\<close> the position of the next group.  In the code
  the accumulator is a signed \<^verbatim>\<open>int\<close> whose shifts to the left overflow from the fourth character on, which
  C++ defines only since 2020; the model wraps, as C++20 and the compilers before it do.
\<close>

function b64_emit :: "u32 \<Rightarrow> int \<Rightarrow> string \<Rightarrow> int \<times> string" where
  "b64_emit val valb out =
     (if valb \<ge> 0
      then b64_emit val (valb - 6) (out @ [b64_lookup (unat (drop_bit (nat valb) val AND 0x3F))])
      else (valb, out))"
  by pat_completeness auto
termination by (relation "measure (\<lambda>(_, valb, _). nat (valb + 6))") auto

declare b64_emit.simps [simp del]

fun b64_loop :: "string \<Rightarrow> u32 \<Rightarrow> int \<Rightarrow> string \<Rightarrow> u32 \<times> int \<times> string" where
  "b64_loop [] val valb out = (val, valb, out)"
| "b64_loop (c # cs) val valb out =
     (let val' = push_bit 8 val + of_nat (ord c);
          (valb', out') = b64_emit val' (valb + 8) out
      in b64_loop cs val' valb' out')"

definition base64_encode :: "string \<Rightarrow> string" where
  "base64_encode inp =
     (let (val, valb, out) = b64_loop inp 0 (- 6) [];
          out1 = (if valb > - 6
            then out @ [b64_lookup (unat (drop_bit (nat (valb + 8)) (push_bit 8 val) AND 0x3F))]
            else out)
      in out1 @ replicate ((4 - length out1 mod 4) mod 4) (CHR ''=''))"

section \<open>Paths\<close>

abbreviation skip_slash :: "string \<Rightarrow> string" where
  "skip_slash \<equiv> dropWhile (\<lambda>c. c = CHR ''/'')"

lemma skip_component_shorter:
  "path \<noteq> [] \<Longrightarrow> length (skip_slash (dropWhile (\<lambda>c. c \<noteq> CHR ''/'') path)) < length path"
proof (cases path)
  case (Cons c cs)
  have "length (skip_slash (dropWhile (\<lambda>c. c \<noteq> CHR ''/'') cs)) \<le> length cs"
    by (meson dual_order.trans length_dropWhile_le)
  then show ?thesis
    using Cons length_dropWhile_le [of "\<lambda>c. c = CHR ''/''" cs] by (auto simp: less_Suc_eq_le)
qed simp

function valid_path_loop :: "nat \<Rightarrow> string \<Rightarrow> bool" where
  "valid_path_loop level path =
     (if path = [] then True
      else let comp = takeWhile (\<lambda>c. c \<noteq> CHR ''/'') path;
               rest = skip_slash (dropWhile (\<lambda>c. c \<noteq> CHR ''/'') path)
        in if comp = ''.'' then valid_path_loop level rest
           else if comp = ''..'' then
             (if level = 0 then False else valid_path_loop (level - 1) rest)
           else valid_path_loop (level + 1) rest)"
  by pat_completeness auto

termination
  by (relation "measure (length \<circ> snd)") (auto intro: skip_component_shorter)

declare valid_path_loop.simps [simp del]

definition is_valid_path :: "string \<Rightarrow> bool" where
  "is_valid_path path = valid_path_loop 0 (skip_slash path)"

section \<open>Percent encoding\<close>

definition hex_upper :: "nat \<Rightarrow> char" where
  "hex_upper n = (if n < 10 then char_of (48 + n) else char_of (55 + n))"

definition percent :: "char \<Rightarrow> string" where
  "percent c = [CHR ''%'', hex_upper (ord c div 16), hex_upper (ord c mod 16)]"

definition query_plain :: "char \<Rightarrow> bool" where
  "query_plain c \<longleftrightarrow> c_isalnum c \<or> c = CHR ''-'' \<or> c = CHR ''_'' \<or> c = CHR ''.'' \<or> c = CHR ''!'' \<or>
     c = CHR ''~'' \<or> c = CHR ''*'' \<or> c = CHR 0x27 \<or> c = CHR ''('' \<or> c = CHR '')''"

definition encode_query_param :: "string \<Rightarrow> string" where
  "encode_query_param value = concat (map (\<lambda>c. if query_plain c then [c] else percent c) value)"

definition encode_url_char :: "char \<Rightarrow> string" where
  "encode_url_char c =
     (if c = CHR '' '' then ''%20''
      else if c = CHR ''+'' then ''%2B''
      else if c = CR then ''%0D''
      else if c = LF then ''%0A''
      else if c = CHR 0x27 then ''%27''
      else if c = CHR '','' then ''%2C''
      else if c = CHR '';'' then ''%3B''
      else if ord c \<ge> 0x80 then percent c
      else [c])"

definition encode_url :: "string \<Rightarrow> string" where
  "encode_url s = concat (map encode_url_char (c_str s))"

fun decode_url :: "string \<Rightarrow> bool \<Rightarrow> string" where
  "decode_url [] convert_plus = []"
| "decode_url (c # cs) convert_plus =
     (if c = CHR ''%'' \<and> cs \<noteq> [] then
        (if hd cs = CHR ''u'' then
           (case from_hex_to_i (c # cs) 2 4 of
              Some val \<Rightarrow> to_utf8 val @ decode_url (drop 5 cs) convert_plus
            | None \<Rightarrow> c # decode_url cs convert_plus)
         else
           (case from_hex_to_i (c # cs) 1 2 of
              Some val \<Rightarrow> char_of val # decode_url (drop 2 cs) convert_plus
            | None \<Rightarrow> c # decode_url cs convert_plus))
      else if convert_plus \<and> c = CHR ''+'' then CHR '' '' # decode_url cs convert_plus
      else c # decode_url cs convert_plus)"

section \<open>Trimming and splitting\<close>

definition is_space_or_tab :: "char \<Rightarrow> bool" where
  "is_space_or_tab c \<longleftrightarrow> c = SP \<or> c = TAB"

text \<open>\<^verbatim>\<open>trim(b, e, left, right)\<close> on the text from \<^verbatim>\<open>b\<close> to \<^verbatim>\<open>e\<close>: the left bound moves up to the end of the
  text, the right bound down to 0.\<close>

definition http_trim :: "string \<Rightarrow> nat \<Rightarrow> nat \<Rightarrow> nat \<times> nat" where
  "http_trim s left right =
     (left + length (takeWhile is_space_or_tab (drop left s)),
      length (dropWhile is_space_or_tab (rev (take right s))))"

definition trim_copy :: "string \<Rightarrow> string" where
  "trim_copy s = (let (l, r) = http_trim s 0 (length s) in substr s l (r - l))"

definition trim_double_quotes_copy :: "string \<Rightarrow> string" where
  "trim_double_quotes_copy s =
     (if length s \<ge> 2 \<and> hd s = DQUOTE \<and> last s = DQUOTE then substr s 1 (length s - 2) else s)"

text \<open>The pieces that \<^verbatim>\<open>split\<close> hands to its callback, for a text with a known end; \<open>m\<close> bounds the
  number of pieces.\<close>

definition split_piece :: "string \<Rightarrow> nat \<Rightarrow> nat \<Rightarrow> string list" where
  "split_piece s beg i =
     (let (l, r) = http_trim s beg i in if l < r then [substr s l (r - l)] else [])"

function http_split_loop :: "string \<Rightarrow> char \<Rightarrow> nat option \<Rightarrow> nat \<Rightarrow> nat \<Rightarrow> nat \<Rightarrow> string list" where
  "http_split_loop s d m i beg count =
     (if i < length s then
        (if s ! i = d \<and> (case m of None \<Rightarrow> True | Some k \<Rightarrow> count < k)
         then split_piece s beg i @ http_split_loop s d m (i + 1) (i + 1) (count + 1)
         else http_split_loop s d m (i + 1) beg count)
      else if i \<noteq> 0 then split_piece s beg i else [])"
  by pat_completeness auto
termination by (relation "measure (\<lambda>(s, _, _, i, _). length s - i)") auto

declare http_split_loop.simps [simp del]

definition http_split :: "string \<Rightarrow> char \<Rightarrow> nat option \<Rightarrow> string list" where
  "http_split s d m = http_split_loop s d m 0 0 1"

definition has_crlf :: "string \<Rightarrow> bool" where
  "has_crlf s \<longleftrightarrow> list_ex (\<lambda>c. c = CR \<or> c = LF) (c_str s)"

definition compare_case_ignore :: "string \<Rightarrow> string \<Rightarrow> bool" where
  "compare_case_ignore a b \<longleftrightarrow>
     length a = length b \<and> list_all (\<lambda>i. c_tolower (a ! i) = c_tolower (b ! i)) [0..<length b]"

text \<open>\<^verbatim>\<open>file_extension\<close>: the regular expression \<^verbatim>\<open>\.([a-zA-Z0-9]+)$\<close> matches the alphanumeric tail
  after the last dot.\<close>

definition file_extension :: "string \<Rightarrow> string" where
  "file_extension path =
     (let tail = rev (takeWhile c_isalnum (rev path));
          before = dropWhile c_isalnum (rev path)
      in if tail \<noteq> [] \<and> before \<noteq> [] \<and> hd before = CHR ''.'' then tail else '''')"

section \<open>Splitting\<close>

text \<open>Without a bound \<^verbatim>\<open>split\<close> hands out the trimmed fields that are not empty.\<close>

lemma split_piece_trim:
  assumes "s = pre @ cur @ rest"
  shows "split_piece s (length pre) (length pre + length cur) = (if trim_copy cur = [] then [] else [trim_copy cur])"
proof (cases "list_all is_space_or_tab cur")
  case True
  then have tw: "takeWhile is_space_or_tab cur = cur" "dropWhile is_space_or_tab (rev cur) = []"
    by (auto simp: takeWhile_eq_all_conv list_all_iff dropWhile_eq_Nil_conv)
  have "length cur \<le> length (takeWhile is_space_or_tab (cur @ rest))"
    using True by (simp add: takeWhile_append2 list_all_iff)
  moreover have "length (dropWhile is_space_or_tab (rev (take (length pre + length cur) s))) \<le> length pre + length cur"
    using length_dropWhile_le [of is_space_or_tab "rev (take (length pre + length cur) s)"] assms by simp
  ultimately have "split_piece s (length pre) (length pre + length cur) = []"
    using assms by (simp add: split_piece_def http_trim_def)
  moreover have "trim_copy cur = []" by (simp add: trim_copy_def http_trim_def substr_def tw)
  ultimately show ?thesis by simp
next
  case False
  then obtain x where x: "x \<in> set cur" "\<not> is_space_or_tab x" by (auto simp: list_all_iff)
  let ?a = "length (takeWhile is_space_or_tab cur)" and ?b = "length (dropWhile is_space_or_tab (rev cur))"
  have l: "takeWhile is_space_or_tab (cur @ rest) = takeWhile is_space_or_tab cur"
    using x by (intro takeWhile_append1) auto
  have r: "dropWhile is_space_or_tab (rev cur @ rev pre) = dropWhile is_space_or_tab (rev cur) @ rev pre"
    using x by (intro dropWhile_append1) auto
  have split: "cur = takeWhile is_space_or_tab cur @ dropWhile is_space_or_tab cur" by simp
  have d: "dropWhile is_space_or_tab cur \<noteq> []" using x by (auto simp: dropWhile_eq_Nil_conv)
  have lt: "?a < ?b"
  proof -
    have "dropWhile is_space_or_tab (rev cur) =
        dropWhile is_space_or_tab (rev (dropWhile is_space_or_tab cur)) @ rev (takeWhile is_space_or_tab cur)"
    proof -
      have "hd (dropWhile is_space_or_tab cur) \<in> set (rev (dropWhile is_space_or_tab cur))"
        "\<not> is_space_or_tab (hd (dropWhile is_space_or_tab cur))" using d hd_dropWhile [OF d] by simp_all
      then show ?thesis
        using dropWhile_append1 [of "hd (dropWhile is_space_or_tab cur)" "rev (dropWhile is_space_or_tab cur)"
            is_space_or_tab "rev (takeWhile is_space_or_tab cur)"] by (metis rev_append split)
    qed
    moreover have "dropWhile is_space_or_tab (rev (dropWhile is_space_or_tab cur)) \<noteq> []"
      using d hd_dropWhile [OF d] by (metis dropWhile_eq_Nil_conv hd_in_set set_rev)
    ultimately show ?thesis by simp
  qed
  have b: "?b \<le> length cur" using length_dropWhile_le [of is_space_or_tab "rev cur"] by simp
  have "trim_copy cur = take (?b - ?a) (drop ?a cur)" by (simp add: trim_copy_def http_trim_def substr_def)
  moreover have "split_piece s (length pre) (length pre + length cur) = [take (?b - ?a) (drop ?a cur)]"
    using assms l r lt b by (simp add: split_piece_def http_trim_def substr_def)
  ultimately show ?thesis using lt b by auto
qed

lemma http_split_loop_pieces:
  "s = pre @ cur @ rest \<Longrightarrow> d \<notin> set cur \<Longrightarrow>
   http_split_loop s d None (length pre + length cur) (length pre) count =
     filter (\<lambda>x. x \<noteq> []) (map trim_copy (pieces (\<lambda>c. c = d) (cur @ rest)))"
proof (induction rest arbitrary: pre cur count)
  case Nil
  then have "pieces (\<lambda>c. c = d) cur = [cur]" by (intro fields_none) auto
  moreover have "trim_copy [] = []" by (simp add: trim_copy_def http_trim_def substr_def)
  ultimately show ?case using split_piece_trim [OF Nil(1)] Nil by (subst http_split_loop.simps) simp
next
  case (Cons c rest)
  have at: "s ! (length pre + length cur) = c" "length pre + length cur < length s" using Cons.prems(1) by (auto simp: nth_append)
  show ?case
  proof (cases "c = d")
    case True
    have "http_split_loop s d None (length pre + length cur + 1) (length pre + length cur + 1) (count + 1) =
        filter (\<lambda>x. x \<noteq> []) (map trim_copy (pieces (\<lambda>c. c = d) rest))"
      using Cons.IH [of "pre @ cur @ [c]" "[]" "count + 1"] Cons.prems(1) by simp
    moreover have "pieces (\<lambda>c. c = d) (cur @ c # rest) = cur # pieces (\<lambda>c. c = d) rest"
      using Cons.prems(2) True by (intro fields_stop) auto
    ultimately show ?thesis using split_piece_trim [OF Cons.prems(1)] at True
      by (subst http_split_loop.simps) simp
  next
    case False
    have "http_split_loop s d None (length pre + length (cur @ [c])) (length pre) count =
        filter (\<lambda>x. x \<noteq> []) (map trim_copy (pieces (\<lambda>c. c = d) ((cur @ [c]) @ rest)))"
      by (rule Cons.IH) (use Cons.prems False in auto)
    then show ?thesis using at False by (subst http_split_loop.simps) simp
  qed
qed

lemma http_split_pieces:
  "http_split s d None = filter (\<lambda>x. x \<noteq> []) (map trim_copy (pieces (\<lambda>c. c = d) s))"
  using http_split_loop_pieces [of s "[]" "[]" s d 1] by (simp add: http_split_def)

section \<open>Hexadecimal and percent encoding round trips\<close>

lemma hex_charset: "n < 16 \<Longrightarrow> ''0123456789abcdef'' ! n = hex_digit n"
proof -
  assume "n < 16"
  then have "n \<in> set [0..<16]" by simp
  then show ?thesis by (auto simp: upt_rec hex_digit_def char_of_def bit_0)
qed

lemma from_i_to_hex_loop_eq: "from_i_to_hex_loop n ret = radix 16 n @ ret"
proof (induction n ret rule: from_i_to_hex_loop.induct)
  case (1 n ret)
  have m: "n mod 16 < 16" by simp
  show ?case
  proof (cases "n < 16")
    case True
    then show ?thesis using hex_charset [OF m]
      by (simp add: from_i_to_hex_loop.simps [of n] radix.simps [of 16 n] Let_def)
  next
    case False
    then show ?thesis using hex_charset [OF m] 1 [OF refl refl]
      by (simp add: from_i_to_hex_loop.simps [of n] radix.simps [of 16 n] Let_def)
  qed
qed

lemma from_i_to_hex_radix: "from_i_to_hex n = radix 16 n"
  by (simp add: from_i_to_hex_def from_i_to_hex_loop_eq)

lemma is_hex_upper: "n < 16 \<Longrightarrow> is_hex (hex_upper n) = Some n"
  by (auto simp: is_hex_def hex_upper_def c_isdigit_def)

lemma hex_upper_not: "n < 16 \<Longrightarrow> hex_upper n \<noteq> NUL \<and> hex_upper n \<noteq> CHR ''u''"
proof -
  assume "n < 16"
  moreover have "is_hex NUL = None" "is_hex (CHR ''u'') = None" by (simp_all add: is_hex_def c_isdigit_def)
  ultimately show ?thesis using is_hex_upper by fastforce
qed

lemma ord_less [simp]: "ord c < 256"
  by simp

lemma from_hex_percent: "from_hex_to_i (percent c @ r) 1 2 = Some (ord c)"
proof -
  have "ord c div 16 < 16" "ord c mod 16 < 16" using ord_less [of c] by (simp_all add: less_mult_imp_div_less)
  note d = is_hex_upper [OF this(1)] is_hex_upper [OF this(2)] hex_upper_not [OF this(1)] hex_upper_not [OF this(2)]
  show ?thesis using d by (simp add: from_hex_to_i_def percent_def numeral_2_eq_2)
qed

lemma decode_percent [simp]: "decode_url (percent c @ r) p = c # decode_url r p"
proof -
  have "ord c div 16 < 16" using ord_less [of c] by (simp add: less_mult_imp_div_less)
  then have "hex_upper (ord c div 16) \<noteq> CHR ''u''" using hex_upper_not by blast
  then show ?thesis using from_hex_percent [of c r] by (simp add: percent_def)
qed

lemma query_plain_not: "query_plain c \<Longrightarrow> c \<noteq> CHR ''%'' \<and> c \<noteq> CHR ''+''"
  by (auto simp: query_plain_def c_isalnum_def c_isdigit_def c_isupper_def c_islower_def)

text \<open>
  Query parameters: \<^verbatim>\<open>decode_url\<close> gives back every byte string that \<^verbatim>\<open>encode_query_param\<close>
  encoded, whether or not plus signs are converted to blanks.
\<close>

theorem decode_encode_query:
  "decode_url (encode_query_param s) p = s"
proof (induction s)
  case (Cons c s)
  then show ?case using query_plain_not [of c] by (auto simp: encode_query_param_def)
qed (simp add: encode_query_param_def)

lemma decode_url_lit: "c \<noteq> CHR ''%'' \<Longrightarrow> c \<noteq> CHR ''+'' \<or> \<not> p \<Longrightarrow> decode_url (c # cs) p = c # decode_url cs p"
  by auto

lemma encode_url_char_cases:
  "encode_url_char c = percent c \<or> (encode_url_char c = [c] \<and> c \<noteq> CHR ''+'')"
  by (auto simp: encode_url_char_def percent_def hex_upper_def char_of_def bit_0)

text \<open>
  URLs: \<^verbatim>\<open>decode_url\<close> gives back every NUL-free text without percent signs that \<^verbatim>\<open>encode_url\<close>
  encoded.
\<close>

theorem decode_encode_url:
  assumes "NUL \<notin> set s" "CHR ''%'' \<notin> set s"
  shows "decode_url (encode_url s) p = s"
proof -
  have "CHR ''%'' \<notin> set s \<Longrightarrow> decode_url (concat (map encode_url_char s)) p = s" for s
  proof (induction s)
    case (Cons c s)
    then show ?case using encode_url_char_cases [of c] by (auto simp del: decode_url.simps simp: decode_url_lit)
  qed simp
  then show ?thesis using assms by (simp add: encode_url_def)
qed

theorem decode_encode_url_witness: "decode_url (encode_url ''/a b;c'') True = ''/a b;c''"
  by (rule decode_encode_url) simp_all

section \<open>Valid paths stay below their directory\<close>

lemma walk_skip_slash:
  "walk r cur (slash_pieces s) = Some q \<Longrightarrow>
    (skip_slash s = [] \<and> q = cur) \<or> walk r cur (slash_pieces (skip_slash s)) = Some q"
proof (induction s)
  case (Cons c s)
  then show ?case by (cases "c = CHR ''/''") (auto split: if_splits)
qed auto

lemma slash_pieces_component:
  "slash_pieces s = takeWhile (\<lambda>c. c \<noteq> CHR ''/'') s #
     (case dropWhile (\<lambda>c. c \<noteq> CHR ''/'') s of [] \<Rightarrow> [] | _ # r \<Rightarrow> slash_pieces r)"
  by (induction s) auto

lemma hd_skip_slash: "skip_slash s \<noteq> [] \<Longrightarrow> hd (skip_slash s) \<noteq> CHR ''/''"
  using hd_dropWhile [of "\<lambda>c. c = CHR ''/''" s] by simp

text \<open>After the first component the walk goes on at the component behind the slashes, or has arrived.\<close>

lemma walk_next_component:
  assumes "walk r d (case dropWhile (\<lambda>c. c \<noteq> CHR ''/'') path of [] \<Rightarrow> [] | _ # s \<Rightarrow> slash_pieces s) = Some q"
  defines "rest \<equiv> skip_slash (dropWhile (\<lambda>c. c \<noteq> CHR ''/'') path)"
  shows "q = d \<or> rest \<noteq> [] \<and> walk r d (slash_pieces rest) = Some q"
proof (cases "dropWhile (\<lambda>c. c \<noteq> CHR ''/'') path")
  case Nil
  then have "walk r d [] = Some q" using assms(1) by (simp only: list.case)
  then show ?thesis by auto
next
  case (Cons x s)
  then have "x = CHR ''/''" using hd_dropWhile [of "\<lambda>c. c \<noteq> CHR ''/''" path] by auto
  then have rest: "rest = skip_slash s" using Cons by (simp add: rest_def)
  from assms(1) Cons have "walk r d (slash_pieces s) = Some q" by simp
  from walk_skip_slash [OF this] show ?thesis
  proof
    assume a: "walk r d (slash_pieces (skip_slash s)) = Some q"
    have "q = d" if "skip_slash s = []"
    proof -
      have "slash_pieces (skip_slash s) = [[]]" unfolding that by (simp only: pieces.simps)
      then show ?thesis using a by (auto split: if_splits)
    qed
    then show ?thesis using a rest by auto
  qed simp
qed

lemma walk_step:
  "walk r d (c # t) = Some q \<Longrightarrow> c \<noteq> [] \<Longrightarrow>
    walk r (if c = ''.'' then d else if c = ''..'' then butlast d else d @ [c]) t = Some q"
  by (auto split: if_splits)

text \<open>File calls see a path up to its first NUL; the loop of \<^verbatim>\<open>is_valid_path\<close> sees all of it.\<close>

lemma c_str_component:
  assumes "NUL \<notin> set (takeWhile (\<lambda>c. c \<noteq> CHR ''/'') path)"
  shows "takeWhile (\<lambda>c. c \<noteq> CHR ''/'') (c_str path) = takeWhile (\<lambda>c. c \<noteq> CHR ''/'') path"
    "dropWhile (\<lambda>c. c \<noteq> CHR ''/'') (c_str path) = c_str (dropWhile (\<lambda>c. c \<noteq> CHR ''/'') path)"
  using assms by (induction path) (auto simp: c_str_def split: if_splits)

lemma c_str_component_cut:
  "NUL \<in> set (takeWhile (\<lambda>c. c \<noteq> CHR ''/'') path) \<Longrightarrow> CHR ''/'' \<notin> set (c_str path) \<and> NUL \<in> set path"
  by (induction path) (auto simp: c_str_def split: if_splits)

lemma skip_slash_c_str: "skip_slash (c_str s) = c_str (skip_slash s)"
  by (induction s) (auto simp: c_str_def)

lemma valid_path_confined:
  "valid_path_loop level path \<Longrightarrow> path \<noteq> [] \<Longrightarrow> hd path \<noteq> CHR ''/'' \<Longrightarrow> length ext = level \<Longrightarrow>
   walk r (base @ ext) (slash_pieces (c_str path)) = Some q \<Longrightarrow>
   prefix base q \<or> NUL \<in> set path \<and> q = butlast base \<and> is_dir_at r q"
proof (induction level path arbitrary: ext rule: valid_path_loop.induct)
  case (1 level path)
  let ?c = "takeWhile (\<lambda>c. c \<noteq> CHR ''/'') path"
  let ?d = "dropWhile (\<lambda>c. c \<noteq> CHR ''/'') path"
  let ?rest = "skip_slash ?d"
  show ?case
  proof (cases "NUL \<in> set ?c")
    case True
    note cut = c_str_component_cut [OF this]
    then have "slash_pieces (c_str path) = [c_str path]" by (intro fields_none) auto
    then have w: "walk r (base @ ext) [c_str path] = Some q" using 1(8) by simp
    then have "is_dir_at r (base @ ext)" by (simp split: if_splits)
    then have d: "ext = [] \<Longrightarrow> is_dir_at r (butlast base)" using is_dir_prefix [of r "butlast base"] by (cases base rule: rev_cases) auto
    have "prefix base q \<or> ext = [] \<and> q = butlast base"
      using w by (cases ext rule: rev_cases) (auto simp: butlast_append split: if_splits)
    then show ?thesis using d cut by blast
  next
    case False
    note cs = c_str_component [OF False]
    define ext' where "ext' = (if ?c = ''.'' then ext else if ?c = ''..'' then butlast ext else ext @ [?c])"
    define level' where "level' = (if ?c = ''.'' then level else if ?c = ''..'' then level - 1 else level + 1)"
    have ne: "?c \<noteq> []" using 1(5,6) by (cases path) auto
    have v: "valid_path_loop level' ?rest" and up: "?c = ''..'' \<Longrightarrow> level \<noteq> 0"
      using 1(4,5) by (auto simp: valid_path_loop.simps [of level path] level'_def Let_def split: if_splits)
    have len: "length ext' = level'" using 1(7) by (simp add: ext'_def level'_def)
    have bl: "butlast (base @ ext) = base @ butlast ext" if "?c = ''..''"
      using up [OF that] 1(7) by (cases ext rule: rev_cases) (auto simp: butlast_append)
    have sub: "NUL \<in> set ?rest \<Longrightarrow> NUL \<in> set path" by (meson set_dropWhileD)
    have "walk r (base @ ext') (case c_str ?d of [] \<Rightarrow> [] | _ # s \<Rightarrow> slash_pieces s) = Some q"
      (is "walk r _ ?t = _")
    proof -
      have "walk r (base @ ext) (?c # ?t) = Some q" using 1(8) unfolding slash_pieces_component [of "c_str path"] cs .
      from walk_step [OF this ne] show ?thesis using bl
        by (cases "?c = ''.''"; cases "?c = ''..''"; simp only: ext'_def append_assoc if_True if_False simp_thms)
    qed
    from walk_next_component [of r _ "c_str path", unfolded cs, OF this, unfolded skip_slash_c_str] show ?thesis
    proof
      assume a: "c_str ?rest \<noteq> [] \<and> walk r (base @ ext') (slash_pieces (c_str ?rest)) = Some q"
      have rest: "?rest \<noteq> []" using conjunct1 [OF a] by (rule contrapos_nn) (simp only: c_str_def takeWhile.simps)
      have IH: "valid_path_loop level' ?rest \<Longrightarrow> ?rest \<noteq> [] \<Longrightarrow> hd ?rest \<noteq> CHR ''/'' \<Longrightarrow>
          length ext' = level' \<Longrightarrow> walk r (base @ ext') (slash_pieces (c_str ?rest)) = Some q \<Longrightarrow>
          prefix base q \<or> NUL \<in> set ?rest \<and> q = butlast base \<and> is_dir_at r q"
        using 1(1) [OF 1(5) refl refl, of ext'] 1(2) [OF 1(5) refl refl _ _ up, of ext'] 1(3) [OF 1(5) refl refl, of ext']
        unfolding level'_def by (cases "?c = ''.''"; cases "?c = ''..''"; simp only: if_True if_False simp_thms)
      show ?thesis using IH [OF v rest hd_skip_slash [OF rest] len] a sub by blast
    qed simp
  qed
qed

text \<open>
  C39. Path confinement: a request path accepted by \<^verbatim>\<open>is_valid_path\<close>, cut at its first NUL as the file
  calls cut it and resolved from any directory of any file system, reaches places below that directory
  only, with one exception: a path with a NUL behind \<^verbatim>\<open>..\<close> is accepted, since that component is not equal
  to \<^verbatim>\<open>..\<close>, and may reach the parent of the directory.  That place is a directory, so no file outside is
  ever reached.
\<close>

theorem is_valid_path_confines:
  assumes "is_valid_path p" "walk r base (slash_pieces (c_str p)) = Some q"
  shows "prefix base q \<or> NUL \<in> set p \<and> q = butlast base \<and> is_dir_at r q"
  using walk_skip_slash [OF assms(2)]
proof
  assume a: "walk r base (slash_pieces (skip_slash (c_str p))) = Some q"
  show ?thesis
  proof (cases "skip_slash p = []")
    case True
    then have "slash_pieces (skip_slash (c_str p)) = [[]]" by (simp only: skip_slash_c_str) (simp add: c_str_def)
    then show ?thesis using a by (simp split: if_splits)
  next
    case False
    have "NUL \<in> set (skip_slash p) \<Longrightarrow> NUL \<in> set p" by (rule set_dropWhileD)
    then show ?thesis using valid_path_confined [of 0 "skip_slash p" "[]" r base q] assms(1) a False
        hd_skip_slash [OF False] by (auto simp: is_valid_path_def skip_slash_c_str)
  qed
qed simp

theorem is_valid_path_confines_witness:
  "is_valid_path ''/a/../b'' \<and> is_valid_path (''/..'' @ [NUL]) \<and>
   prefix [''srv''] (the (walk (Dir [(''srv'', Dir [(''a'', Dir [])])]) [''srv''] (slash_pieces (c_str ''/a/../b'')))) \<and>
   walk (Dir [(''srv'', Dir [])]) [''srv''] (slash_pieces (c_str (''/..'' @ [NUL]))) = Some []"
proof -
  have v: "is_valid_path ''/a/../b''" "is_valid_path (''/..'' @ [NUL])"
    by (simp_all add: is_valid_path_def valid_path_loop.simps)
  have w: "walk (Dir [(''srv'', Dir [(''a'', Dir [])])]) [''srv''] (slash_pieces (c_str ''/a/../b'')) =
      Some [''srv'', ''b'']" by (simp add: c_str_def is_dir_at_def)
  have n: "walk (Dir [(''srv'', Dir [])]) [''srv''] (slash_pieces (c_str (''/..'' @ [NUL]))) = Some []"
    by (simp add: c_str_def is_dir_at_def)
  from is_valid_path_confines [OF v(1) w] is_valid_path_confines [OF v(2) n] v w n show ?thesis by simp
qed

section \<open>Base64 against RFC 4648\<close>

text \<open>RFC 4648: three bytes give four characters; one or two bytes left over are padded.\<close>

fun b64_ref :: "nat list \<Rightarrow> string" where
  "b64_ref [] = []"
| "b64_ref [a] = [b64_lookup (a div 4), b64_lookup (a mod 4 * 16), CHR ''='', CHR ''='']"
| "b64_ref [a, b] = [b64_lookup (a div 4), b64_lookup (a mod 4 * 16 + b div 16),
     b64_lookup (b mod 16 * 4), CHR ''='']"
| "b64_ref (a # b # c # r) =
     [b64_lookup (a div 4), b64_lookup (a mod 4 * 16 + b div 16),
      b64_lookup (b mod 16 * 4 + c div 64), b64_lookup (c mod 64)] @ b64_ref r"

lemma mod_pow_div_mod: "k + 6 \<le> 32 \<Longrightarrow> ((x::nat) mod 2 ^ 32) div 2 ^ k mod 64 = x div 2 ^ k mod 64"
proof -
  assume "k + 6 \<le> 32"
  then obtain j where j: "32 = k + 6 + j" using le_Suc_ex by blast
  have "(x mod (2 ^ k * 2 ^ (6 + j))) div 2 ^ k = (x div 2 ^ k) mod 2 ^ (6 + j)"
    by (simp add: mod_mult2_eq)
  then have "(x mod 2 ^ 32) div 2 ^ k mod 64 = (x div 2 ^ k) mod 2 ^ (6 + j) mod 64"
    by (simp only: j power_add mult.assoc)
  also have "\<dots> = x div 2 ^ k mod 64"
    by (rule mod_mod_cancel) (simp add: power_add)
  finally show ?thesis .
qed

lemma unat_group:
  assumes "k + 6 \<le> 32"
  shows "unat (drop_bit k (of_nat x :: u32) AND 0x3F) = x div 2 ^ k mod 64"
proof -
  have "(0x3F :: u32) = mask 6" by (simp add: mask_eq_exp_minus_1)
  then have "unat (drop_bit k (of_nat x :: u32) AND 0x3F) = unat (take_bit 6 (drop_bit k (of_nat x :: u32)))"
    by (simp only: take_bit_eq_mask)
  also have "\<dots> = take_bit 6 (drop_bit k (unat (of_nat x :: u32)))"
    by (simp only: unsigned_take_bit_eq unat_drop_bit_eq)
  also have "\<dots> = (x mod 2 ^ 32) div 2 ^ k mod 64"
    by (simp add: drop_bit_eq_div take_bit_eq_mod unat_of_nat)
  finally show ?thesis using mod_pow_div_mod [OF assms] by simp
qed

lemma b64_acc: "push_bit 8 (of_nat x :: u32) + of_nat a = of_nat (x * 256 + a)"
  by (simp add: push_bit_eq_mult)

lemma b64_emit_steps:
  "b64_emit v 2 out = (- 4, out @ [b64_lookup (unat (drop_bit 2 v AND 0x3F))])"
  "b64_emit v 4 out = (- 2, out @ [b64_lookup (unat (drop_bit 4 v AND 0x3F))])"
  "b64_emit v 6 out = (- 6, out @ [b64_lookup (unat (drop_bit 6 v AND 0x3F)),
     b64_lookup (unat (drop_bit 0 v AND 0x3F))])"
  by (simp_all add: b64_emit.simps)

lemma group_split:
  assumes "z < m * k" "0 < m"
  shows "(y * (m * k) + z) div m mod (k * c) = y mod c * k + z div (m::nat)"
proof -
  have w: "z div m < k" using assms by (simp add: less_mult_imp_div_less mult.commute)
  have "(y * (m * k) + z) div m = y * k + z div m"
    using assms(2) div_mult_self3 [of m "y * k" z] by (simp add: algebra_simps)
  then have "(y * (m * k) + z) div m mod (k * c) = k * ((y * k + z div m) div k mod c) + (y * k + z div m) mod k"
    by (simp only: mod_mult2_eq)
  moreover have "(y * k + z div m) div k = y" "(y * k + z div m) mod k = z div m" using w by simp_all
  ultimately show ?thesis by simp
qed

lemma b64_groups:
  assumes "z < 256"
  shows "(y * 256 + z) div 4 mod 64 = (z::nat) div 4"
    "(y * 256 + z) div 16 mod 64 = y mod 4 * 16 + z div 16"
    "(y * 256 + z) div 64 mod 64 = y mod 16 * 4 + z div 64"
    "(y * 256 + z) mod 64 = z mod 64"
proof -
  show "(y * 256 + z) div 4 mod 64 = z div 4" using group_split [of z 4 64 y 1] assms by simp
  show "(y * 256 + z) div 16 mod 64 = y mod 4 * 16 + z div 16"
    using group_split [of z 16 16 y 4] assms by simp
  show "(y * 256 + z) div 64 mod 64 = y mod 16 * 4 + z div 64"
    using group_split [of z 64 4 y 16] assms by simp
  show "(y * 256 + z) mod 64 = z mod 64" using mod_mult_self3 [of "y * 4" 64 z] by (simp add: mult.commute)
qed

lemma b64_mod: "(y * 256 + z) mod 4 = (z::nat) mod 4" "(y * 256 + z) mod 16 = z mod 16"
  using mod_mult_self3 [of "y * 64" 4 z] mod_mult_self3 [of "y * 16" 16 z] by (simp_all add: mult.commute)

lemma b64_loop1:
  "b64_loop (a # r) (of_nat x) (- 6) out =
     b64_loop r (of_nat (x * 256 + ord a)) (- 4) (out @ [b64_lookup (ord a div 4)])"
  "b64_loop (a # r) (of_nat x) (- 4) out =
     b64_loop r (of_nat (x * 256 + ord a)) (- 2) (out @ [b64_lookup (x mod 4 * 16 + ord a div 16)])"
  "b64_loop (a # r) (of_nat x) (- 2) out =
     b64_loop r (of_nat (x * 256 + ord a)) (- 6)
       (out @ [b64_lookup (x mod 16 * 4 + ord a div 64), b64_lookup (ord a mod 64)])"
  using b64_groups [OF ord_less [of a], of x]
    unat_group [of 2 "x * 256 + ord a"] unat_group [of 4 "x * 256 + ord a"]
    unat_group [of 6 "x * 256 + ord a"] unat_group [of 0 "x * 256 + ord a"]
  by (simp_all add: b64_acc b64_emit_steps Let_def del: of_nat_add of_nat_mult drop_bit_0)


definition b64_finish :: "u32 \<times> int \<times> string \<Rightarrow> string" where
  "b64_finish r = (let (val, valb, out) = r;
          out1 = (if valb > - 6
            then out @ [b64_lookup (unat (drop_bit (nat (valb + 8)) (push_bit 8 val) AND 0x3F))]
            else out)
      in out1 @ replicate ((4 - length out1 mod 4) mod 4) (CHR ''=''))"

lemma b64_last:
  "unat (drop_bit 4 (push_bit 8 (of_nat x) :: u32) AND 0x3F) = x mod 4 * 16"
  "unat (drop_bit 6 (push_bit 8 (of_nat x) :: u32) AND 0x3F) = x mod 16 * 4"
proof -
  have p: "push_bit 8 (of_nat x) = (of_nat (x * 256 + 0) :: u32)" using b64_acc [of x 0] by simp
  show "unat (drop_bit 4 (push_bit 8 (of_nat x) :: u32) AND 0x3F) = x mod 4 * 16"
    using unat_group [of 4 "x * 256 + 0"] b64_groups(2) [of 0 x] unfolding p by simp
  show "unat (drop_bit 6 (push_bit 8 (of_nat x) :: u32) AND 0x3F) = x mod 16 * 4"
    using unat_group [of 6 "x * 256 + 0"] b64_groups(3) [of 0 x] unfolding p by simp
qed

lemma b64_loop_ref:
  "length out mod 4 = 0 \<Longrightarrow> b64_finish (b64_loop s (of_nat x) (- 6) out) = out @ b64_ref (map ord s)"
proof (induction "map ord s" arbitrary: s x out rule: b64_ref.induct)
  case 1
  then show ?case by (simp add: b64_finish_def Let_def)
next
  case (2 a)
  then obtain c where s: "s = [c]" "a = ord c" by auto
  show ?case using 2 unfolding s
    by (simp add: b64_loop1 b64_finish_def Let_def b64_last b64_mod mod_Suc numeral_2_eq_2
        del: of_nat_add of_nat_mult b64_loop.simps(2))
next
  case (3 a b)
  then obtain c d where s: "s = [c, d]" by auto
  show ?case using 3 b64_mod(2) [of "x * 256 + ord c" "ord d"] unfolding s
    by (simp add: b64_loop1 b64_finish_def Let_def b64_last b64_mod mod_Suc numeral_2_eq_2
        del: of_nat_add of_nat_mult b64_loop.simps(2))
next
  case (4 a b c r)
  then obtain a' b' c' r' where s: "s = a' # b' # c' # r'" "r = map ord r'" by auto
  have "length (out @ [w, x, y, z]) mod 4 = 0" for w x y z using 4(3) by (simp add: mod_Suc)
  from 4(1) [OF s(2) this] b64_mod(2) [of "x * 256 + ord a'" "ord b'"] show ?case unfolding s
    by (simp add: b64_loop1 b64_mod del: of_nat_add of_nat_mult b64_loop.simps(2))
qed

text \<open>
  \<^verbatim>\<open>base64_encode\<close>, with its 32-bit accumulator that overflows on longer inputs, computes the
  RFC 4648 encoding of every byte string.
\<close>

theorem base64_encode_rfc: "base64_encode s = b64_ref (map ord s)"
  using b64_loop_ref [of "[]" s 0] by (simp add: base64_encode_def b64_finish_def)

end
