(* ===== verification/Http_Stream.thy ===== *)
theory Http_Stream
  imports Http_Types
begin

text \<open>
  Streams of the HTTP library (\<^verbatim>\<open>src/src/httplib.h\<close>): socket and buffer streams (lines 5316-5434),
  the line reader (2499-2560), header and body readers (3667-3920) and body writers
  (3937-4143).  The virtual methods of \<^verbatim>\<open>Stream\<close> are function arguments; the interfaces
  \<open>byte_source\<close> and \<open>byte_sink\<close> state their contracts and are interpreted on both stream classes.
  A loop that depends on the peer is a partial function whose value \<^const>\<open>None\<close> is "does not
  return"; that it returns is proved from the interfaces.  Zlib and Brotli support are not
  compiled in.
\<close>

section \<open>Sockets and streams\<close>

datatype read_result = ReadBytes string | ReadEof | ReadError

type_synonym 's stream_read = "'s \<Rightarrow> nat \<Rightarrow> read_result \<times> 's"

text \<open>The result of a write: the number of bytes accepted, or \<^const>\<open>None\<close> for -1.\<close>

type_synonym 's stream_write = "'s \<Rightarrow> string \<Rightarrow> nat option \<times> 's"

text \<open>A connected socket: the pieces that arrive, in order; what follows them (the peer closes, or
  nothing more comes before the time-out); the bytes sent so far; how many more the peer
  takes (\<^const>\<open>None\<close> for no limit); and how many one \<^verbatim>\<open>send\<close> accepts.\<close>

datatype rx_end = PeerClosed | PeerSilent

record socket =
  rx :: "string list"
  rx_end :: rx_end
  tx :: string
  tx_quota :: "nat option"
  tx_max :: nat

definition select_read :: "socket \<Rightarrow> bool" where
  "select_read sk \<longleftrightarrow> list_ex (\<lambda>d. d \<noteq> []) (rx sk) \<or> rx_end sk = PeerClosed"

definition select_write :: "socket \<Rightarrow> bool" where
  "select_write sk \<longleftrightarrow> tx_quota sk \<noteq> Some 0"

definition read_socket :: "socket \<Rightarrow> nat \<Rightarrow> read_result \<times> socket" where
  "read_socket sk len =
     (case dropWhile (\<lambda>d. d = []) (rx sk) of
        [] \<Rightarrow> (case rx_end sk of PeerClosed \<Rightarrow> ReadEof | PeerSilent \<Rightarrow> ReadError, sk\<lparr> rx := [] \<rparr>)
      | d # ds \<Rightarrow> (ReadBytes (take len d), sk\<lparr> rx := drop len d # ds \<rparr>))"

definition send_socket :: "socket \<Rightarrow> string \<Rightarrow> nat option \<times> socket" where
  "send_socket sk d =
     (let n = min (length d) (min (tx_max sk) (case tx_quota sk of None \<Rightarrow> length d | Some q \<Rightarrow> q))
      in if tx_quota sk = Some 0 then (None, sk)
         else (Some n, sk\<lparr> tx := tx sk @ take n d, tx_quota := map_option (\<lambda>q. q - n) (tx_quota sk) \<rparr>))"

text \<open>A readable socket whose peek yields nothing has been closed by the peer.\<close>

definition is_socket_alive :: "socket \<Rightarrow> bool" where
  "is_socket_alive sk =
     (if \<not> select_read sk then True else list_ex (\<lambda>d. d \<noteq> []) (rx sk))"

text \<open>\<open>read_buff\<close> holds the unread part of the 4096-byte buffer.\<close>

record SocketStream =
  sock :: socket
  read_buff :: string

definition read_buff_size :: nat where "read_buff_size = 1024 * 4"

definition socket_is_readable :: "SocketStream \<Rightarrow> bool" where
  "socket_is_readable st = select_read (sock st)"

definition socket_is_writable :: "SocketStream \<Rightarrow> bool" where
  "socket_is_writable st \<longleftrightarrow> select_write (sock st) \<and> is_socket_alive (sock st)"

definition socket_read :: "SocketStream stream_read" where
  "socket_read st len =
     (if read_buff st \<noteq> [] then
        (if len \<le> length (read_buff st)
         then (ReadBytes (take len (read_buff st)), st\<lparr> read_buff := drop len (read_buff st) \<rparr>)
         else (ReadBytes (read_buff st), st\<lparr> read_buff := [] \<rparr>))
      else if \<not> socket_is_readable st then (ReadError, st)
      else if len < read_buff_size then
        (case read_socket (sock st) read_buff_size of
           (ReadBytes d, sk) \<Rightarrow>
             if length d \<le> len then (ReadBytes d, st\<lparr> sock := sk \<rparr>)
             else (ReadBytes (take len d), st\<lparr> sock := sk, read_buff := drop len d \<rparr>)
         | (r, sk) \<Rightarrow> (r, st\<lparr> sock := sk \<rparr>))
      else (case read_socket (sock st) len of (r, sk) \<Rightarrow> (r, st\<lparr> sock := sk \<rparr>)))"

definition socket_write :: "SocketStream stream_write" where
  "socket_write st d =
     (if \<not> socket_is_writable st then (None, st)
      else case send_socket (sock st) d of (r, sk) \<Rightarrow> (r, st\<lparr> sock := sk \<rparr>))"

record BufferStream =
  buffer :: string
  buf_position :: nat

definition buffer_is_writable :: "BufferStream \<Rightarrow> bool" where
  "buffer_is_writable st = True"

definition buffer_read :: "BufferStream stream_read" where
  "buffer_read st len =
     (let d = substr (buffer st) (buf_position st) len
      in (if d = [] then ReadEof else ReadBytes d,
          st\<lparr> buf_position := buf_position st + length d \<rparr>))"

definition buffer_write :: "BufferStream stream_write" where
  "buffer_write st d = (Some (length d), st\<lparr> buffer := buffer st @ d \<rparr>)"

section \<open>Lines and headers\<close>

text \<open>\<^verbatim>\<open>getline\<close> returns the line with its newline, a last line without one, or \<^const>\<open>None\<close> (false)
  at the end of the stream or on an error.\<close>

partial_function (option) getline_loop ::
  "'s stream_read \<Rightarrow> 's \<Rightarrow> string \<Rightarrow> (string option \<times> 's) option" where
  "getline_loop read s line =
     (case read s 1 of
        (ReadError, s') \<Rightarrow> Some (None, s')
      | (ReadEof, s') \<Rightarrow> Some (if line = [] then None else Some line, s')
      | (ReadBytes d, s') \<Rightarrow>
          (let line' = line @ d
           in if last d = LF then Some (Some line', s') else getline_loop read s' line'))"

definition getline :: "'s stream_read \<Rightarrow> 's \<Rightarrow> (string option \<times> 's) option" where
  "getline read s = getline_loop read s []"

definition end_with_crlf :: "string \<Rightarrow> bool" where
  "end_with_crlf line \<longleftrightarrow> length line \<ge> 2 \<and> drop (length line - 2) line = CRLF"

text \<open>\<^verbatim>\<open>parse_header\<close> on the text between \<^verbatim>\<open>beg\<close> and \<^verbatim>\<open>end\<close>: the pair handed to \<^verbatim>\<open>fn\<close>, or \<^const>\<open>None\<close> for false.\<close>

definition parse_header :: "string \<Rightarrow> (string \<times> string) option" where
  "parse_header s =
     (let s1 = rev (dropWhile is_space_or_tab (rev s));
          key = takeWhile (\<lambda>c. c \<noteq> CHR '':'') s1
      in if key = s1 then None
         else let val = dropWhile is_space_or_tab (drop (length key + 1) s1)
           in if val = [] then None
              else Some (key, if compare_case_ignore key ''Location'' then val else decode_url val False))"

abbreviation HEADER_MAX_LENGTH :: nat where "HEADER_MAX_LENGTH \<equiv> 8192"
abbreviation RECV_BUFSIZ :: nat where "RECV_BUFSIZ \<equiv> 4096"

definition add_header_line :: "string \<Rightarrow> headers \<Rightarrow> headers" where
  "add_header_line line hs =
     (case parse_header (take (length line - 2) line) of
        Some (key, val) \<Rightarrow> mm_emplace ci key val hs | None \<Rightarrow> hs)"

partial_function (option) read_headers ::
  "'s stream_read \<Rightarrow> 's \<Rightarrow> headers \<Rightarrow> (bool \<times> headers \<times> 's) option" where
  "read_headers read s hs =
     (case getline read s of
        None \<Rightarrow> None
      | Some (None, s') \<Rightarrow> Some (False, hs, s')
      | Some (Some line, s') \<Rightarrow>
          if end_with_crlf line then
            (if length line = 2 then Some (True, hs, s')
             else if length line > HEADER_MAX_LENGTH then Some (False, hs, s')
             else read_headers read s' (add_header_line line hs))
          else read_headers read s' hs)"

section \<open>Reading bodies\<close>

text \<open>A receiver gets the data with its offset and the total length, and returns whether to go on;
  \<open>'a\<close> is the state it updates.\<close>

type_synonym 'a receiver = "'a \<Rightarrow> string \<Rightarrow> nat \<Rightarrow> nat \<Rightarrow> bool \<times> 'a"

type_synonym 'a progress = "('a \<Rightarrow> nat \<Rightarrow> nat \<Rightarrow> bool \<times> 'a) option"

partial_function (option) read_length_loop ::
  "'s stream_read \<Rightarrow> 's \<Rightarrow> nat \<Rightarrow> 'a progress \<Rightarrow> 'a receiver \<Rightarrow> 'a \<Rightarrow> nat \<Rightarrow> (bool \<times> 'a \<times> 's) option" where
  "read_length_loop read s len progress out a r =
     (if r < len then
        (case read s (min (len - r) RECV_BUFSIZ) of
           (ReadBytes d, s') \<Rightarrow>
             (case out a d r len of
                (go, a') \<Rightarrow>
                  if \<not> go then Some (False, a', s')
                  else (case (case progress of None \<Rightarrow> (True, a') | Some p \<Rightarrow> p a' (r + length d) len) of
                          (go', a'') \<Rightarrow>
                            if \<not> go' then Some (False, a'', s')
                            else read_length_loop read s' len progress out a'' (r + length d)))
         | (_, s') \<Rightarrow> Some (False, a, s'))
      else Some (True, a, s))"

definition read_content_with_length ::
  "'s stream_read \<Rightarrow> 's \<Rightarrow> nat \<Rightarrow> 'a progress \<Rightarrow> 'a receiver \<Rightarrow> 'a \<Rightarrow> (bool \<times> 'a \<times> 's) option" where
  "read_content_with_length read s len progress out a = read_length_loop read s len progress out a 0"

partial_function (option) skip_length_loop ::
  "'s stream_read \<Rightarrow> 's \<Rightarrow> nat \<Rightarrow> nat \<Rightarrow> 's option" where
  "skip_length_loop read s len r =
     (if r < len then
        (case read s (min (len - r) RECV_BUFSIZ) of
           (ReadBytes d, s') \<Rightarrow> skip_length_loop read s' len (r + length d)
         | (_, s') \<Rightarrow> Some s')
      else Some s)"

definition skip_content_with_length :: "'s stream_read \<Rightarrow> 's \<Rightarrow> nat \<Rightarrow> 's option" where
  "skip_content_with_length read s len = skip_length_loop read s len 0"

partial_function (option) read_to_end_loop ::
  "'s stream_read \<Rightarrow> 's \<Rightarrow> 'a receiver \<Rightarrow> 'a \<Rightarrow> nat \<Rightarrow> (bool \<times> 'a \<times> 's) option" where
  "read_to_end_loop read s out a r =
     (case read s RECV_BUFSIZ of
        (ReadError, s') \<Rightarrow> Some (False, a, s')
      | (ReadEof, s') \<Rightarrow> Some (True, a, s')
      | (ReadBytes d, s') \<Rightarrow>
          (case out a d r 0 of
             (go, a') \<Rightarrow>
               if \<not> go then Some (False, a', s')
               else read_to_end_loop read s' out a' (r + length d)))"

definition read_content_without_length ::
  "'s stream_read \<Rightarrow> 's \<Rightarrow> 'a receiver \<Rightarrow> 'a \<Rightarrow> (bool \<times> 'a \<times> 's) option" where
  "read_content_without_length read s out a = read_to_end_loop read s out a 0"

text \<open>\<^verbatim>\<open>strtoul(s, &end, 16)\<close>: the value and whether anything was converted.\<close>

definition is_xdigit :: "char \<Rightarrow> bool" where
  "is_xdigit c \<longleftrightarrow> is_hex c \<noteq> None"

definition ULONG_MAX :: nat where "ULONG_MAX = 2 ^ 64 - 1"

definition strtoul_16 :: "string \<Rightarrow> nat option" where
  "strtoul_16 s =
     (let s1 = dropWhile c_isspace s;
          neg = (s1 \<noteq> [] \<and> hd s1 = CHR ''-'');
          s2 = (if s1 \<noteq> [] \<and> (hd s1 = CHR ''-'' \<or> hd s1 = CHR ''+'') then tl s1 else s1);
          s3 = (if length s2 > 2 \<and> s2 ! 0 = CHR ''0'' \<and> (s2 ! 1 = CHR ''x'' \<or> s2 ! 1 = CHR ''X'') \<and>
                   is_xdigit (s2 ! 2) then drop 2 s2 else s2);
          ds = takeWhile is_xdigit s3;
          v = radix_val 16 ds
      in if ds = [] then None
         else if v > ULONG_MAX then Some ULONG_MAX
         else Some (if neg \<and> v \<noteq> 0 then 2 ^ 64 - v else v))"

text \<open>The trailer of a chunked body, from the line already read.\<close>

partial_function (option) read_trailer ::
  "'s stream_read \<Rightarrow> 's \<Rightarrow> string \<Rightarrow> headers \<Rightarrow> (bool \<times> headers \<times> 's) option" where
  "read_trailer read s line hs =
     (if c_str line = CRLF then Some (True, hs, s)
      else if length line > HEADER_MAX_LENGTH then Some (False, hs, s)
      else case getline read s of
             None \<Rightarrow> None
           | Some (None, s') \<Rightarrow> Some (False, add_header_line line hs, s')
           | Some (Some line', s') \<Rightarrow> read_trailer read s' line' (add_header_line line hs))"

partial_function (option) read_chunks ::
  "'s stream_read \<Rightarrow> 's \<Rightarrow> string \<Rightarrow> headers \<Rightarrow> 'a receiver \<Rightarrow> 'a \<Rightarrow> (bool \<times> headers \<times> 'a \<times> 's) option" where
  "read_chunks read s line hs out a =
     (case strtoul_16 (c_str line) of
        None \<Rightarrow> Some (False, hs, a, s)
      | Some chunk_len \<Rightarrow>
          if chunk_len = ULONG_MAX then Some (False, hs, a, s)
          else if chunk_len = 0 then
            (case getline read s of
               None \<Rightarrow> None
             | Some (None, s') \<Rightarrow> Some (False, hs, a, s')
             | Some (Some line', s') \<Rightarrow>
                 (case read_trailer read s' line' hs of
                    None \<Rightarrow> None | Some (ok, hs', s'') \<Rightarrow> Some (ok, hs', a, s'')))
          else
            (case read_content_with_length read s chunk_len None out a of
               None \<Rightarrow> None
             | Some (ok, a', s') \<Rightarrow>
                 if \<not> ok then Some (False, hs, a', s')
                 else (case getline read s' of
                    None \<Rightarrow> None
                  | Some (None, s'') \<Rightarrow> Some (False, hs, a', s'')
                  | Some (Some line', s'') \<Rightarrow>
                      if c_str line' \<noteq> CRLF then Some (False, hs, a', s'')
                      else (case getline read s'' of
                              None \<Rightarrow> None
                            | Some (None, s3) \<Rightarrow> Some (False, hs, a', s3)
                            | Some (Some line'', s3) \<Rightarrow> read_chunks read s3 line'' hs out a'))))"

definition read_content_chunked ::
  "'s stream_read \<Rightarrow> 's \<Rightarrow> headers \<Rightarrow> 'a receiver \<Rightarrow> 'a \<Rightarrow> (bool \<times> headers \<times> 'a \<times> 's) option" where
  "read_content_chunked read s hs out a =
     (case getline read s of
        None \<Rightarrow> None
      | Some (None, s') \<Rightarrow> Some (False, hs, a, s')
      | Some (Some line, s') \<Rightarrow> read_chunks read s' line hs out a)"

definition is_chunked_transfer_encoding :: "headers \<Rightarrow> bool" where
  "is_chunked_transfer_encoding hs \<longleftrightarrow>
     map c_tolower (get_header_value hs ''Transfer-Encoding'' 0 '''') = map c_tolower ''chunked''"

text \<open>The status that \<^verbatim>\<open>prepare_content_receiver\<close> refuses a body with: no decompressor is built in.\<close>

definition prepare_content_receiver :: "headers \<Rightarrow> bool \<Rightarrow> int option" where
  "prepare_content_receiver hs decompress =
     (if decompress then
        (let encoding = get_header_value hs ''Content-Encoding'' 0 ''''
         in if encoding = ''gzip'' \<or> encoding = ''deflate'' then Some 415
            else if find_sub encoding ''br'' 0 \<noteq> None then Some 415
            else None)
      else None)"

text \<open>\<^verbatim>\<open>read_content\<close>: success, the status if it changed, the headers (with trailers), the receiver's
  state and the stream.\<close>

definition read_content ::
  "'s stream_read \<Rightarrow> 's \<Rightarrow> headers \<Rightarrow> nat \<Rightarrow> int \<Rightarrow> 'a progress \<Rightarrow> 'a receiver \<Rightarrow> bool \<Rightarrow> 'a \<Rightarrow>
   (bool \<times> int \<times> headers \<times> 'a \<times> 's) option" where
  "read_content read s hs payload_max_length status progress receiver decompress a =
     (case prepare_content_receiver hs decompress of
        Some st \<Rightarrow> Some (False, st, hs, a, s)
      | None \<Rightarrow>
          if is_chunked_transfer_encoding hs then
            (case read_content_chunked read s hs receiver a of
               None \<Rightarrow> None
             | Some (ret, hs', a', s') \<Rightarrow> Some (ret, if ret then status else 400, hs', a', s'))
          else if \<not> has_header hs ''Content-Length'' then
            (case read_content_without_length read s receiver a of
               None \<Rightarrow> None
             | Some (ret, a', s') \<Rightarrow> Some (ret, if ret then status else 400, hs, a', s'))
          else
            (let len = unat (get_header_value_u64 hs ''Content-Length'' 0 0)
             in if len > payload_max_length then
                  (case skip_content_with_length read s len of
                     None \<Rightarrow> None | Some s' \<Rightarrow> Some (False, 413, hs, a, s'))
                else if len > 0 then
                  (case read_content_with_length read s len progress receiver a of
                     None \<Rightarrow> None
                   | Some (ret, a', s') \<Rightarrow> Some (ret, if ret then status else 400, hs, a', s'))
                else Some (True, status, hs, a, s)))"

section \<open>Writing\<close>

partial_function (option) write_data :: "'s stream_write \<Rightarrow> 's \<Rightarrow> string \<Rightarrow> (bool \<times> 's) option" where
  "write_data write s d =
     (if d = [] then Some (True, s)
      else case write s d of
             (None, s') \<Rightarrow> Some (False, s')
           | (Some n, s') \<Rightarrow> write_data write s' (drop n d))"

text \<open>\<^verbatim>\<open>write_headers\<close> hands each line to one \<^verbatim>\<open>write\<close> call; a short write is not continued.\<close>

definition header_line :: "string \<times> string \<Rightarrow> string" where
  "header_line kv = c_str (fst kv) @ '': '' @ c_str (snd kv) @ CRLF"

fun write_lines :: "'s stream_write \<Rightarrow> 's \<Rightarrow> string list \<Rightarrow> int \<Rightarrow> int \<times> 's" where
  "write_lines write s [] write_len = (write_len, s)"
| "write_lines write s (l # ls) write_len =
     (case write s l of
        (None, s') \<Rightarrow> (- 1, s')
      | (Some n, s') \<Rightarrow> write_lines write s' ls (write_len + int n))"

definition write_headers :: "'s stream_write \<Rightarrow> 's \<Rightarrow> headers \<Rightarrow> int \<times> 's" where
  "write_headers write s hs = write_lines write s (map header_line hs @ [CRLF]) 0"

datatype Error = Success | Unknown | Connection | BindIPAddress | Read | Write | ExceedRedirectCount
  | Canceled | SSLConnection | SSLLoadingCerts | SSLServerVerification
  | UnsupportedMultipartBoundaryChars | Compression | ConnectionTimeout | ProxyConnection
  | SSLPeerCouldBeClosed

text \<open>The variables the sink's callbacks share with the loop.\<close>

record 's sink_state =
  sk_stream :: 's
  sk_offset :: nat
  sk_ok :: bool
  sk_data_available :: bool

definition sink_write_data ::
  "'s stream_write \<Rightarrow> 's sink_state \<Rightarrow> string \<Rightarrow> 's sink_state option" where
  "sink_write_data write t d =
     (case write_data write (sk_stream t) d of
        None \<Rightarrow> None
      | Some (ok, s') \<Rightarrow> Some (t\<lparr> sk_stream := s', sk_ok := sk_ok t \<and> ok \<rparr>))"

text \<open>The sink of \<^verbatim>\<open>write_content\<close> sets neither \<^verbatim>\<open>done\<close> callback: calling one throws, \<^const>\<open>None\<close> here.\<close>

definition plain_sink_op ::
  "('s \<Rightarrow> bool) \<Rightarrow> 's stream_write \<Rightarrow> 's sink_state \<Rightarrow> sink_op \<Rightarrow> 's sink_state option" where
  "plain_sink_op writable write t op =
     (case op of
        SinkWrite d \<Rightarrow>
          if \<not> sk_ok t then Some t
          else if \<not> writable (sk_stream t) then Some (t\<lparr> sk_ok := False \<rparr>)
          else (case write_data write (sk_stream t) d of
                  None \<Rightarrow> None
                | Some (True, s') \<Rightarrow>
                    Some (t\<lparr> sk_stream := s', sk_offset := sk_offset t + length d \<rparr>)
                | Some (False, s') \<Rightarrow> Some (t\<lparr> sk_stream := s', sk_ok := False \<rparr>))
      | _ \<Rightarrow> None)"

fun run_ops :: "('t \<Rightarrow> sink_op \<Rightarrow> 't option) \<Rightarrow> 't \<Rightarrow> sink_op list \<Rightarrow> 't option" where
  "run_ops f t [] = Some t"
| "run_ops f t (op # ops) = (case f t op of None \<Rightarrow> None | Some t' \<Rightarrow> run_ops f t' ops)"

text \<open>\<^verbatim>\<open>write_content\<close>; \<open>shut k\<close> is what \<^verbatim>\<open>is_shutting_down\<close> answers at iteration \<open>k\<close>.\<close>

partial_function (option) write_content_loop ::
  "('s \<Rightarrow> bool) \<Rightarrow> 's stream_write \<Rightarrow> 'w content_provider \<Rightarrow> 'w \<Rightarrow> (nat \<Rightarrow> bool) \<Rightarrow> nat \<Rightarrow> nat \<Rightarrow>
   's sink_state \<Rightarrow> (bool \<times> Error \<times> 's) option" where
  "write_content_loop writable write provider w shut end_offset k t =
     (if sk_offset t < end_offset \<and> \<not> shut k then
        (if \<not> writable (sk_stream t) then Some (False, Write, sk_stream t)
         else case provider w (sk_offset t) (end_offset - sk_offset t) of
                None \<Rightarrow> None
              | Some (ops, ret) \<Rightarrow>
                  (case run_ops (plain_sink_op writable write) t ops of
                     None \<Rightarrow> None
                   | Some t' \<Rightarrow>
                       if \<not> ret then Some (False, Canceled, sk_stream t')
                       else if \<not> sk_ok t' then Some (False, Write, sk_stream t')
                       else write_content_loop writable write provider w shut end_offset (k + 1) t'))
      else Some (True, Success, sk_stream t))"

definition write_content ::
  "('s \<Rightarrow> bool) \<Rightarrow> 's stream_write \<Rightarrow> 's \<Rightarrow> 'w content_provider \<Rightarrow> 'w \<Rightarrow> nat \<Rightarrow> nat \<Rightarrow> (nat \<Rightarrow> bool) \<Rightarrow>
   (bool \<times> Error \<times> 's) option" where
  "write_content writable write s provider w offset len shut =
     write_content_loop writable write provider w shut (offset + len) 0
       \<lparr> sk_stream = s, sk_offset = offset, sk_ok = True, sk_data_available = True \<rparr>"

definition open_sink_op ::
  "('s \<Rightarrow> bool) \<Rightarrow> 's stream_write \<Rightarrow> 's sink_state \<Rightarrow> sink_op \<Rightarrow> 's sink_state option" where
  "open_sink_op writable write t op =
     (case op of
        SinkWrite d \<Rightarrow>
          if \<not> sk_ok t then Some t
          else let t1 = t\<lparr> sk_offset := sk_offset t + length d \<rparr>
            in if \<not> writable (sk_stream t1) then Some (t1\<lparr> sk_ok := False \<rparr>)
               else sink_write_data write t1 d
      | SinkDone \<Rightarrow> Some (t\<lparr> sk_data_available := False \<rparr>)
      | SinkDoneWithTrailer _ \<Rightarrow> None)"

partial_function (option) write_without_length_loop ::
  "('s \<Rightarrow> bool) \<Rightarrow> 's stream_write \<Rightarrow> 'w content_provider \<Rightarrow> 'w \<Rightarrow> (nat \<Rightarrow> bool) \<Rightarrow> nat \<Rightarrow>
   's sink_state \<Rightarrow> (bool \<times> 's) option" where
  "write_without_length_loop writable write provider w shut k t =
     (if sk_data_available t \<and> \<not> shut k then
        (if \<not> writable (sk_stream t) then Some (False, sk_stream t)
         else case provider w (sk_offset t) 0 of
                None \<Rightarrow> None
              | Some (ops, ret) \<Rightarrow>
                  (case run_ops (open_sink_op writable write) t ops of
                     None \<Rightarrow> None
                   | Some t' \<Rightarrow>
                       if \<not> ret then Some (False, sk_stream t')
                       else if \<not> sk_ok t' then Some (False, sk_stream t')
                       else write_without_length_loop writable write provider w shut (k + 1) t'))
      else Some (True, sk_stream t))"

definition write_content_without_length ::
  "('s \<Rightarrow> bool) \<Rightarrow> 's stream_write \<Rightarrow> 's \<Rightarrow> 'w content_provider \<Rightarrow> 'w \<Rightarrow> (nat \<Rightarrow> bool) \<Rightarrow>
   (bool \<times> 's) option" where
  "write_content_without_length writable write s provider w shut =
     write_without_length_loop writable write provider w shut 0
       \<lparr> sk_stream = s, sk_offset = 0, sk_ok = True, sk_data_available = True \<rparr>"

text \<open>A compressor takes the data and whether it is the last, and returns success and the bytes it
  hands to its callback; \<^verbatim>\<open>nocompressor\<close> passes data through.\<close>

type_synonym compressor = "string \<Rightarrow> bool \<Rightarrow> bool \<times> string"

definition nocompressor :: compressor where
  "nocompressor data is_last = (if length data = 0 then (True, '''') else (True, data))"

definition chunk_text :: "string \<Rightarrow> string" where
  "chunk_text payload = from_i_to_hex (length payload) @ CRLF @ payload @ CRLF"

definition chunked_write ::
  "('s \<Rightarrow> bool) \<Rightarrow> 's stream_write \<Rightarrow> compressor \<Rightarrow> 's sink_state \<Rightarrow> string \<Rightarrow> 's sink_state option" where
  "chunked_write writable write compress t d =
     (if \<not> sk_ok t then Some t
      else let t1 = t\<lparr> sk_data_available := (length d > 0), sk_offset := sk_offset t + length d \<rparr>
        in case compress d False of
             (False, _) \<Rightarrow> Some (t1\<lparr> sk_ok := False \<rparr>)
           | (True, payload) \<Rightarrow>
               if payload = [] then Some t1
               else if \<not> writable (sk_stream t1) then Some (t1\<lparr> sk_ok := False \<rparr>)
               else sink_write_data write t1 (chunk_text payload))"

fun write_all :: "'s stream_write \<Rightarrow> 's sink_state \<Rightarrow> string list \<Rightarrow> 's sink_state option" where
  "write_all write t [] = Some t"
| "write_all write t (d # ds) =
     (case sink_write_data write t d of None \<Rightarrow> None | Some t' \<Rightarrow> write_all write t' ds)"

definition chunked_done ::
  "('s \<Rightarrow> bool) \<Rightarrow> 's stream_write \<Rightarrow> compressor \<Rightarrow> 's sink_state \<Rightarrow> headers \<Rightarrow> 's sink_state option" where
  "chunked_done writable write compress t trailer =
     (if \<not> sk_ok t then Some t
      else let t1 = t\<lparr> sk_data_available := False \<rparr>;
               rest = (''0'' @ CRLF) # map (\<lambda>kv. fst kv @ '': '' @ snd kv @ CRLF) trailer @ [CRLF]
        in case compress '''' True of
             (False, _) \<Rightarrow> Some (t1\<lparr> sk_ok := False \<rparr>)
           | (True, payload) \<Rightarrow>
               if payload = [] then write_all write t1 rest
               else if \<not> writable (sk_stream t1) then Some (t1\<lparr> sk_ok := False \<rparr>)
               else (case sink_write_data write t1 (chunk_text payload) of
                       None \<Rightarrow> None
                     | Some t2 \<Rightarrow> if \<not> sk_ok t2 then Some t2 else write_all write t2 rest))"

definition chunked_sink_op ::
  "('s \<Rightarrow> bool) \<Rightarrow> 's stream_write \<Rightarrow> compressor \<Rightarrow> 's sink_state \<Rightarrow> sink_op \<Rightarrow> 's sink_state option" where
  "chunked_sink_op writable write compress t op =
     (case op of
        SinkWrite d \<Rightarrow> chunked_write writable write compress t d
      | SinkDone \<Rightarrow> chunked_done writable write compress t []
      | SinkDoneWithTrailer trailer \<Rightarrow> chunked_done writable write compress t trailer)"

partial_function (option) write_chunked_loop ::
  "('s \<Rightarrow> bool) \<Rightarrow> 's stream_write \<Rightarrow> 'w content_provider \<Rightarrow> 'w \<Rightarrow> (nat \<Rightarrow> bool) \<Rightarrow> compressor \<Rightarrow> nat \<Rightarrow>
   's sink_state \<Rightarrow> (bool \<times> Error \<times> 's) option" where
  "write_chunked_loop writable write provider w shut compress k t =
     (if sk_data_available t \<and> \<not> shut k then
        (if \<not> writable (sk_stream t) then Some (False, Write, sk_stream t)
         else case provider w (sk_offset t) 0 of
                None \<Rightarrow> None
              | Some (ops, ret) \<Rightarrow>
                  (case run_ops (chunked_sink_op writable write compress) t ops of
                     None \<Rightarrow> None
                   | Some t' \<Rightarrow>
                       if \<not> ret then Some (False, Canceled, sk_stream t')
                       else if \<not> sk_ok t' then Some (False, Write, sk_stream t')
                       else write_chunked_loop writable write provider w shut compress (k + 1) t'))
      else Some (True, Success, sk_stream t))"

definition write_content_chunked ::
  "('s \<Rightarrow> bool) \<Rightarrow> 's stream_write \<Rightarrow> 's \<Rightarrow> 'w content_provider \<Rightarrow> 'w \<Rightarrow> (nat \<Rightarrow> bool) \<Rightarrow> compressor \<Rightarrow>
   (bool \<times> Error \<times> 's) option" where
  "write_content_chunked writable write s provider w shut compress =
     write_chunked_loop writable write provider w shut compress 0
       \<lparr> sk_stream = s, sk_offset = 0, sk_ok = True, sk_data_available = True \<rparr>"

section \<open>Hexadecimal lengths\<close>

lemma radix16_chars: "c \<in> set (radix 16 n) \<Longrightarrow> \<exists>k < 16. c = hex_digit k"
proof (induction "16 :: nat" n rule: radix.induct)
  case (1 n)
  then show ?case
    by (cases "n < 16") (auto simp: radix.simps [of 16 n] intro: exI [of _ "n mod 16"])
qed

lemma hex_digit_props:
  assumes "k < 16"
  shows "is_xdigit (hex_digit k)" "\<not> c_isspace (hex_digit k)" "hex_digit k \<noteq> CHR ''-''"
    "hex_digit k \<noteq> CHR ''+''" "hex_digit k \<noteq> CHR ''x''" "hex_digit k \<noteq> CHR ''X''"
    "hex_digit k \<noteq> LF" "hex_digit k \<noteq> NUL"
proof -
  have o: "ord (hex_digit k) = (if k < 10 then 48 + k else 87 + k)"
    using assms by (simp add: hex_digit_def)
  have ne: "hex_digit k \<noteq> c" if "ord c < 48 \<or> 57 < ord c \<and> ord c < 97 \<or> 102 < ord c" for c
    using that o assms by (auto split: if_splits)
  show "is_xdigit (hex_digit k)"
    using o assms by (auto simp: is_xdigit_def is_hex_def c_isdigit_def split: if_splits)
  show "\<not> c_isspace (hex_digit k)" using o by (auto simp: c_isspace_def split: if_splits)
  show "hex_digit k \<noteq> CHR ''-''" "hex_digit k \<noteq> CHR ''+''" "hex_digit k \<noteq> CHR ''x''"
    "hex_digit k \<noteq> CHR ''X''" "hex_digit k \<noteq> LF" "hex_digit k \<noteq> NUL"
    by (rule ne; simp)+
qed

lemma strtoul_16_hex:
  assumes "n \<le> ULONG_MAX"
  shows "strtoul_16 (c_str (radix 16 n @ CRLF)) = Some n"
proof -
  let ?h = "radix 16 n"
  have p: "is_xdigit c \<and> \<not> c_isspace c \<and> c \<noteq> CHR ''-'' \<and> c \<noteq> CHR ''+'' \<and> c \<noteq> CHR ''x'' \<and>
      c \<noteq> CHR ''X'' \<and> c \<noteq> NUL" if "c \<in> set ?h" for c
    using radix16_chars [OF that] hex_digit_props by metis
  obtain d ds where d: "?h = d # ds" by (cases ?h) auto
  have x: "(?h @ CRLF) ! 1 \<noteq> CHR ''x'' \<and> (?h @ CRLF) ! 1 \<noteq> CHR ''X''"
    using p unfolding d by (cases ds) auto
  have c: "c_str (?h @ CRLF) = ?h @ CRLF" using p by (intro c_str_id) auto
  have tw: "takeWhile is_xdigit (?h @ CRLF) = ?h"
    using p by (intro takeWhile_append_stop) (auto simp: list_all_iff is_xdigit_def is_hex_def c_isdigit_def)
  have "dropWhile c_isspace (?h @ CRLF) = ?h @ CRLF" "hd (?h @ CRLF) \<noteq> CHR ''-''" "hd (?h @ CRLF) \<noteq> CHR ''+''"
    using p unfolding d by auto
  then show ?thesis unfolding c strtoul_16_def Let_def using x tw assms by simp
qed

section \<open>Interfaces of streams\<close>

text \<open>A receiver fed with pieces until it refuses one.\<close>

fun feed_receiver :: "'a receiver \<Rightarrow> 'a \<Rightarrow> string list \<Rightarrow> nat \<Rightarrow> nat \<Rightarrow> bool \<times> 'a" where
  "feed_receiver out a [] r len = (True, a)"
| "feed_receiver out a (d # ds) r len =
     (case out a d r len of
        (go, a') \<Rightarrow> if go then feed_receiver out a' ds (r + length d) len else (False, a'))"

text \<open>A receiver that takes all of a text, in whatever pieces: \<open>P a t\<close> tells that in the state \<open>a\<close> the text \<open>t\<close>
  is still welcome, and \<open>f\<close> is what a piece does to the state.  A quiet progress callback lets the transfer go on.\<close>

definition accepts :: "'a receiver \<Rightarrow> ('a \<Rightarrow> string \<Rightarrow> 'a) \<Rightarrow> ('a \<Rightarrow> string \<Rightarrow> bool) \<Rightarrow> bool" where
  "accepts out f P \<longleftrightarrow> (\<forall>a x y r l. P a (x @ y) \<longrightarrow> out a x r l = (True, f a x) \<and> P (f a x) y)"

definition quiet :: "'a progress \<Rightarrow> bool" where
  "quiet progress \<longleftrightarrow> (\<forall>p a n l. progress = Some p \<longrightarrow> p a n l = (True, a))"

text \<open>A source of lines: \<open>view s t\<close> tells that the next characters to come are \<open>t\<close>; \<open>other\<close> is what reading
  them one by one, as \<^verbatim>\<open>stream_line_reader\<close> does, leaves alone.\<close>

locale line_source =
  fixes rd :: "'s stream_read"
    and view :: "'s \<Rightarrow> string \<Rightarrow> bool"
    and other :: "'s \<Rightarrow> 'o"
  assumes next_char: "view s (c # r) \<Longrightarrow> \<exists>s'. rd s 1 = (ReadBytes [c], s') \<and> view s' r \<and> other s' = other s"
begin

lemma getline_loop_line:
  "view s (l @ LF # r) \<Longrightarrow> LF \<notin> set l \<Longrightarrow>
   \<exists>s'. getline_loop rd s acc = Some (Some (acc @ l @ [LF]), s') \<and> view s' r \<and> other s' = other s"
proof (induction l arbitrary: s acc)
  case Nil
  then obtain s' where "rd s 1 = (ReadBytes [LF], s')" "view s' r" "other s' = other s"
    using next_char [of s LF r] by auto
  then show ?case by (subst getline_loop.simps) (simp add: Let_def)
next
  case (Cons c l)
  then obtain s1 where s1: "rd s 1 = (ReadBytes [c], s1)" "view s1 (l @ LF # r)" "other s1 = other s"
    using next_char [of s c "l @ LF # r"] by auto
  from Cons.IH [OF s1(2), of "acc @ [c]"] Cons.prems(2) s1 show ?case
    by (subst getline_loop.simps) (auto simp: Let_def)
qed

lemma getline_crlf:
  assumes "view s (l @ CRLF @ r)" "LF \<notin> set l"
  obtains s' where "getline rd s = Some (Some (l @ CRLF), s')" "view s' r" "other s' = other s"
proof -
  have "view s ((l @ [CR]) @ LF # r)" "LF \<notin> set (l @ [CR])" using assms by auto
  from getline_loop_line [OF this, of "[]"] that show ?thesis by (auto simp: getline_def)
qed

end

text \<open>Reading: \<open>pending\<close> is what is still to come; a read of at least one byte returns a non-empty
  prefix of it while there is one, and fails or ends otherwise.  \<open>keep\<close> is untouched state.\<close>

locale byte_source =
  fixes read :: "'s stream_read"
    and pending :: "'s \<Rightarrow> string"
    and keep :: "'s \<Rightarrow> 'o"
  assumes read_more: "pending s \<noteq> [] \<Longrightarrow> 0 < n \<Longrightarrow>
      \<exists>d s'. read s n = (ReadBytes d, s') \<and> d \<noteq> [] \<and> length d \<le> n \<and>
        pending s = d @ pending s' \<and> keep s' = keep s"
    and read_none: "pending s = [] \<Longrightarrow> 0 < n \<Longrightarrow>
      \<exists>r s'. read s n = (r, s') \<and> (r = ReadEof \<or> r = ReadError) \<and> pending s' = [] \<and> keep s' = keep s"
begin

lemma read_one: "pending s = c # r \<Longrightarrow> \<exists>s'. read s 1 = (ReadBytes [c], s') \<and> pending s' = r \<and> keep s' = keep s"
proof -
  assume p: "pending s = c # r"
  then obtain d s' where d: "read s 1 = (ReadBytes d, s')" "d \<noteq> []" "length d \<le> 1"
      "pending s = d @ pending s'" "keep s' = keep s"
    using read_more [of s 1] by auto
  then have "d = [c]" using p by (cases d) auto
  then show ?thesis using d p by auto
qed

end

sublocale byte_source \<subseteq> lines: line_source read "\<lambda>s t. pending s = t" keep
  by unfold_locales (rule read_one)

context byte_source
begin

lemma getline_loop_total:
  "\<exists>r s'. getline_loop read s acc = Some (r, s') \<and> keep s' = keep s \<and>
     length (pending s') \<le> length (pending s) \<and>
     (r \<noteq> None \<and> acc = [] \<longrightarrow> length (pending s') < length (pending s))"
proof (induction "pending s" arbitrary: s acc)
  case Nil
  then obtain r s' where "read s 1 = (r, s')" "r = ReadEof \<or> r = ReadError" "pending s' = []" "keep s' = keep s"
    using read_none [of s 1] by auto
  then show ?case by (subst getline_loop.simps) (auto simp: Nil [symmetric])
next
  case (Cons c rest)
  then obtain s1 where s1: "read s 1 = (ReadBytes [c], s1)" "pending s1 = rest" "keep s1 = keep s"
    using read_one [of s c rest] by auto
  from Cons.hyps(1) [of s1 "acc @ [c]"] s1(2) obtain r s' where
    "getline_loop read s1 (acc @ [c]) = Some (r, s')" "keep s' = keep s1" "length (pending s') \<le> length (pending s1)" by blast
  then show ?case using s1 Cons.hyps(2) [symmetric]
    by (subst getline_loop.simps) (auto simp: Let_def)
qed

lemma getline_total:
  obtains r s' where "getline read s = Some (r, s')" "keep s' = keep s"
    "r \<noteq> None \<Longrightarrow> length (pending s') < length (pending s)" "length (pending s') \<le> length (pending s)"
  using getline_loop_total [of s "[]"] by (auto simp: getline_def)

lemma read_headers_total:
  "\<exists>ok hs' s'. read_headers read s hs = Some (ok, hs', s') \<and> keep s' = keep s \<and>
     length (pending s') \<le> length (pending s)"
proof (induction "length (pending s)" arbitrary: s hs rule: less_induct)
  case less
  obtain r s' where g: "getline read s = Some (r, s')" "keep s' = keep s"
    "r \<noteq> None \<Longrightarrow> length (pending s') < length (pending s)" "length (pending s') \<le> length (pending s)"
    using getline_total [of s] by blast
  show ?case
  proof (cases r)
    case None
    then show ?thesis using g by (subst read_headers.simps) (simp, blast)
  next
    case (Some line)
    have IH: "\<exists>ok hs'' s''. read_headers read s' hs' = Some (ok, hs'', s'') \<and> keep s'' = keep s \<and>
      length (pending s'') \<le> length (pending s)" for hs'
      using less [of s' hs'] g Some by fastforce
    show ?thesis using g Some IH by (subst read_headers.simps) auto
  qed
qed

lemma read_length_accepting:
  assumes acc: "accepts out f P" and q: "quiet progress"
  shows "pending s = d @ rest \<Longrightarrow> r + length d = len \<Longrightarrow> P a (d @ e) \<Longrightarrow>
    \<exists>ds s'. read_length_loop read s len progress out a r = Some (True, foldl f a ds, s') \<and>
      concat ds = d \<and> pending s' = rest \<and> keep s' = keep s \<and> P (foldl f a ds) e"
proof (induction "length d" arbitrary: s d a r rule: less_induct)
  case less
  show ?case
  proof (cases "d = []")
    case True
    then show ?thesis using less.prems
      by (subst read_length_loop.simps) (auto intro: exI [of _ "[]"])
  next
    case False
    then have n: "0 < min (len - r) RECV_BUFSIZ" "pending s \<noteq> []" "r < len" using less.prems by auto
    from read_more [OF n(2,1)] obtain x s1 where x: "read s (min (len - r) RECV_BUFSIZ) = (ReadBytes x, s1)"
      "x \<noteq> []" "length x \<le> min (len - r) RECV_BUFSIZ" "pending s = x @ pending s1" "keep s1 = keep s" by blast
    have lx: "length x \<le> length d" using x(3) less.prems(2) by linarith
    then obtain y where y: "d = x @ y" "pending s1 = y @ rest"
      using less.prems(1) x(4) by (metis append_eq_append_conv_if append_take_drop_id append.assoc same_append_eq)
    have "P a (x @ (y @ e))" using less.prems(3) y(1) by simp
    then have o: "out a x r len = (True, f a x)" "P (f a x) (y @ e)" using acc unfolding accepts_def by blast+
    have "length y < length d" "r + length x + length y = len" using y x(2) less.prems(2) by auto
    from less.hyps [OF this(1) y(2) this(2) o(2)] obtain ds s' where
      ds: "read_length_loop read s1 len progress out (f a x) (r + length x) = Some (True, foldl f (f a x) ds, s')"
      "concat ds = y" "pending s' = rest" "keep s' = keep s1" "P (foldl f (f a x) ds) e" by blast
    have "read_length_loop read s len progress out a r = Some (True, foldl f a (x # ds), s')"
      using n(3) x(1) ds(1) o(1) q by (subst read_length_loop.simps) (auto simp: quiet_def split: option.splits)
    then show ?thesis using ds(2-5) x(5) y(1) by (intro exI [of _ "x # ds"] exI [of _ s']) simp
  qed
qed

text \<open>The pieces of a body do not depend on who receives them.\<close>

lemma read_length_pieces:
  "pending s = d @ rest \<Longrightarrow> r + length d = len \<Longrightarrow>
    \<exists>ds s'. concat ds = d \<and> pending s' = rest \<and> keep s' = keep s \<and>
      (d \<noteq> [] \<longrightarrow> (\<exists>s1. read s (min (len - r) RECV_BUFSIZ) = (ReadBytes (hd ds), s1) \<and> ds \<noteq> [])) \<and>
      (\<forall>out (a :: 'z) a'. feed_receiver out a ds r len = (True, a') \<longrightarrow>
        read_length_loop read s len None out a r = Some (True, a', s'))"
proof (induction "length d" arbitrary: s d r rule: less_induct)
  case less
  show ?case
  proof (cases "d = []")
    case True
    then show ?thesis using less.prems
      by (intro exI [of _ "[]"] exI [of _ s]) (auto simp: read_length_loop.simps)
  next
    case False
    then have n: "0 < min (len - r) RECV_BUFSIZ" "pending s \<noteq> []" "r < len" using less.prems by auto
    from read_more [OF n(2,1)] obtain x s1 where x: "read s (min (len - r) RECV_BUFSIZ) = (ReadBytes x, s1)"
      "x \<noteq> []" "length x \<le> min (len - r) RECV_BUFSIZ" "pending s = x @ pending s1" "keep s1 = keep s" by blast
    have "length x \<le> length d" using x(3) less.prems(2) by linarith
    then obtain y where y: "d = x @ y" "pending s1 = y @ rest"
      using less.prems(1) x(4) by (metis append_eq_append_conv_if append_take_drop_id append.assoc same_append_eq)
    then have "length y < length d" "r + length x + length y = len" using x(2) less.prems(2) by auto
    from less.hyps [OF this(1) y(2) this(2)] obtain ds s' where
      ds: "concat ds = y" "pending s' = rest" "keep s' = keep s1"
      "\<And>out (a :: 'z) a'. feed_receiver out a ds (r + length x) len = (True, a') \<Longrightarrow>
        read_length_loop read s1 len None out a (r + length x) = Some (True, a', s')" by blast
    have "read_length_loop read s len None out a r = Some (True, a', s')"
      if "feed_receiver out a (x # ds) r len = (True, a')" for out and a a' :: 'z
      using that n(3) x(1) ds(4) by (subst read_length_loop.simps) (auto split: prod.splits if_splits)
    then show ?thesis using ds(1-3) y(1) x(1,5) by (intro exI [of _ "x # ds"] exI [of _ s']) auto
  qed
qed

text \<open>A chunked body, as the writer emits it.\<close>

lemma read_chunk_accepting:
  assumes acc: "accepts out f P" "P a (c @ e)"
    and p: "pending s = chunk_text c @ tail" and c: "c \<noteq> []" "length c < ULONG_MAX"
  obtains ds s' where "read_content_chunked read s hs out a = read_content_chunked read s' hs out (foldl f a ds)"
    "concat ds = c" "pending s' = tail" "keep s' = keep s" "P (foldl f a ds) e"
proof -
  let ?h = "radix 16 (length c)"
  have "pending s = ?h @ CRLF @ (c @ CRLF @ tail)" using p by (simp add: chunk_text_def from_i_to_hex_radix)
  moreover have "LF \<notin> set ?h" using radix16_chars hex_digit_props(7) by metis
  ultimately obtain s1 where s1: "getline read s = Some (Some (?h @ CRLF), s1)"
    "pending s1 = c @ CRLF @ tail" "keep s1 = keep s" by (rule lines.getline_crlf)
  have z: "strtoul_16 (c_str (?h @ CRLF)) = Some (length c)"
    using strtoul_16_hex [of "length c"] c by simp
  have q: "quiet None" by (simp add: quiet_def)
  from read_length_accepting [OF acc(1) q s1(2), of 0 "length c" a e] acc(2)
  obtain ds s2 where s2: "read_content_with_length read s1 (length c) None out a = Some (True, foldl f a ds, s2)"
    "concat ds = c" "pending s2 = [] @ CRLF @ tail" "keep s2 = keep s1" "P (foldl f a ds) e" by (auto simp: read_content_with_length_def)
  from s2(3) obtain s3 where s3: "getline read s2 = Some (Some CRLF, s3)" "pending s3 = tail" "keep s3 = keep s2"
    by (rule lines.getline_crlf) auto
  have "read_chunks read s1 (?h @ CRLF) hs out a = read_content_chunked read s3 hs out (foldl f a ds)"
    using z c s2 s3 by (subst read_chunks.simps) (auto simp: read_content_chunked_def c_str_def split: option.splits prod.splits)
  then have "read_content_chunked read s hs out a = read_content_chunked read s3 hs out (foldl f a ds)"
    using s1(1) by (simp add: read_content_chunked_def)
  then show ?thesis using that s1(3) s2(2,4,5) s3(2,3) by metis
qed

lemma read_chunks_accepting:
  assumes acc: "accepts out f P"
  shows "pending s = concat (map chunk_text cs) @ ''0'' @ CRLF @ CRLF @ rest \<Longrightarrow>
    (\<forall>c \<in> set cs. c \<noteq> [] \<and> length c < ULONG_MAX) \<Longrightarrow> P a (concat cs) \<Longrightarrow>
    \<exists>ds s'. read_content_chunked read s hs out a = Some (True, hs, foldl f a ds, s') \<and>
      concat ds = concat cs \<and> pending s' = rest \<and> keep s' = keep s"
proof (induction cs arbitrary: s a)
  case Nil
  from Nil have "pending s = ''0'' @ CRLF @ CRLF @ rest" by simp
  then obtain s1 where s1: "getline read s = Some (Some (''0'' @ CRLF), s1)" "pending s1 = [] @ CRLF @ rest"
    "keep s1 = keep s" by (rule lines.getline_crlf) auto
  from s1(2) obtain s2 where s2: "getline read s1 = Some (Some CRLF, s2)" "pending s2 = rest" "keep s2 = keep s1"
    by (rule lines.getline_crlf) auto
  have z: "strtoul_16 (c_str (''0'' @ CRLF)) = Some 0"
    by (simp add: strtoul_16_def c_str_def c_isspace_def is_xdigit_def is_hex_def c_isdigit_def
        radix_val_def digit_val_def ULONG_MAX_def)
  have "read_chunks read s1 (''0'' @ CRLF) hs out a = Some (True, hs, a, s2)"
    using s2 z by (subst read_chunks.simps) (simp add: ULONG_MAX_def read_trailer.simps c_str_def)
  then show ?case using s1 s2 by (auto simp: read_content_chunked_def intro!: exI [of _ "[]"])
next
  case (Cons c cs)
  then have "P a (c @ concat cs)" "pending s = chunk_text c @ concat (map chunk_text cs) @ ''0'' @ CRLF @ CRLF @ rest"
    "c \<noteq> []" "length c < ULONG_MAX" by simp_all
  from read_chunk_accepting [OF acc this, of hs]
  obtain ds s1 where d: "read_content_chunked read s hs out a = read_content_chunked read s1 hs out (foldl f a ds)"
    "concat ds = c" "pending s1 = concat (map chunk_text cs) @ ''0'' @ CRLF @ CRLF @ rest" "keep s1 = keep s"
    "P (foldl f a ds) (concat cs)" by metis
  from Cons.IH [OF d(3) _ d(5)] Cons.prems(2) obtain es s' where
    "read_content_chunked read s1 hs out (foldl f a ds) = Some (True, hs, foldl f a (ds @ es), s')"
    "concat es = concat cs" "pending s' = rest" "keep s' = keep s1" by auto
  moreover from this have "concat (ds @ es) = concat (c # cs)" using d by simp
  ultimately show ?case using d(1,4) by metis
qed

text \<open>Chunks without the last one, of length zero: the reader fails where the input ends.\<close>

lemma getline_end:
  assumes "pending s = []"
  obtains s' where "getline read s = Some (None, s')" "pending s' = []" "keep s' = keep s"
  using read_none [OF assms, of 1] by (auto simp: getline_def getline_loop.simps)

lemma read_chunks_truncated:
  assumes acc: "accepts out f P"
  shows "pending s = concat (map chunk_text cs) \<Longrightarrow> (\<forall>c \<in> set cs. c \<noteq> [] \<and> length c < ULONG_MAX) \<Longrightarrow> P a (concat cs) \<Longrightarrow>
    \<exists>ds s'. read_content_chunked read s hs out a = Some (False, hs, foldl f a ds, s') \<and> concat ds = concat cs"
proof (induction cs arbitrary: s a)
  case Nil
  then obtain s' where "getline read s = Some (None, s')" using getline_end [of s] by auto
  then show ?case by (auto simp: read_content_chunked_def intro!: exI [of _ "[]"])
next
  case (Cons c cs)
  then have "P a (c @ concat cs)" "pending s = chunk_text c @ concat (map chunk_text cs)" "c \<noteq> []" "length c < ULONG_MAX" by simp_all
  from read_chunk_accepting [OF acc this, of hs]
  obtain ds s1 where d: "read_content_chunked read s hs out a = read_content_chunked read s1 hs out (foldl f a ds)"
    "concat ds = c" "pending s1 = concat (map chunk_text cs)" "P (foldl f a ds) (concat cs)" by metis
  from Cons.IH [OF d(3) _ d(4)] Cons.prems(2) obtain es s' where
    "read_content_chunked read s1 hs out (foldl f a ds) = Some (False, hs, foldl f a (ds @ es), s')" "concat es = concat cs" by auto
  moreover from this have "concat (ds @ es) = concat (c # cs)" using d by simp
  ultimately show ?case using d(1) by metis
qed

text \<open>Every reader returns, whatever its callbacks answer: the input is finite.\<close>

lemma read_cases:
  assumes "0 < n"
  obtains (bytes) d s' where "read s n = (ReadBytes d, s')" "length (pending s') < length (pending s)" "keep s' = keep s"
  | (stop) r s' where "read s n = (r, s')" "r = ReadEof \<or> r = ReadError" "length (pending s') \<le> length (pending s)" "keep s' = keep s"
proof (cases "pending s = []")
  case True
  then show ?thesis using read_none [OF True assms] stop by fastforce
next
  case False
  from read_more [OF this assms] obtain d s' where "read s n = (ReadBytes d, s')" "d \<noteq> []" "pending s = d @ pending s'" "keep s' = keep s" by blast
  then show ?thesis using bytes by simp
qed

lemma read_length_total:
  "\<exists>ok a' s'. read_length_loop read s len progress out a r = Some (ok, a', s') \<and> length (pending s') \<le> length (pending s) \<and> keep s' = keep s"
proof (induction "length (pending s)" arbitrary: s a r rule: less_induct)
  case less
  show ?case
  proof (cases "r < len")
    case True
    then have n: "0 < min (len - r) RECV_BUFSIZ" by simp
    from n show ?thesis
    proof (cases rule: read_cases [of _ s])
      case (bytes d s')
      then show ?thesis using True less [OF bytes(2)]
        by (subst read_length_loop.simps) (fastforce split: prod.splits)
    next
      case (stop q s')
      then show ?thesis using True by (subst read_length_loop.simps) auto
    qed
  qed (subst read_length_loop.simps, auto)
qed

lemma skip_length_total:
  "\<exists>s'. skip_length_loop read s len r = Some s' \<and> length (pending s') \<le> length (pending s) \<and> keep s' = keep s"
proof (induction "length (pending s)" arbitrary: s r rule: less_induct)
  case less
  show ?case
  proof (cases "r < len")
    case True
    then have n: "0 < min (len - r) RECV_BUFSIZ" by simp
    from n show ?thesis
    proof (cases rule: read_cases [of _ s])
      case (bytes d s')
      then show ?thesis using True less [OF bytes(2), of "r + length d"] by (subst skip_length_loop.simps) auto
    next
      case (stop q s')
      then show ?thesis using True by (subst skip_length_loop.simps) auto
    qed
  qed (subst skip_length_loop.simps, auto)
qed

lemma read_to_end_total:
  "\<exists>ok a' s'. read_to_end_loop read s out a r = Some (ok, a', s') \<and> length (pending s') \<le> length (pending s) \<and> keep s' = keep s"
proof (induction "length (pending s)" arbitrary: s a r rule: less_induct)
  case less
  have n: "0 < RECV_BUFSIZ" by simp
  from n show ?case
  proof (cases rule: read_cases [of _ s])
    case (bytes d s')
    then show ?thesis using less [OF bytes(2)]
      by (subst read_to_end_loop.simps) (fastforce split: prod.splits)
  next
    case (stop q s')
    then show ?thesis by (subst read_to_end_loop.simps) auto
  qed
qed

lemma read_trailer_total:
  "\<exists>ok hs' s'. read_trailer read s line hs = Some (ok, hs', s') \<and> length (pending s') \<le> length (pending s) \<and> keep s' = keep s"
proof (induction "length (pending s)" arbitrary: s line hs rule: less_induct)
  case less
  obtain r s' where g: "getline read s = Some (r, s')" "keep s' = keep s"
    "r \<noteq> None \<Longrightarrow> length (pending s') < length (pending s)" "length (pending s') \<le> length (pending s)"
    using getline_total [of s] by blast
  show ?case
  proof (cases r)
    case None
    then show ?thesis using g by (subst read_trailer.simps) auto
  next
    case (Some l)
    have "length (pending s') < length (pending s)" using g(3) Some by simp
    from less [OF this, of l "add_header_line line hs"] g Some show ?thesis
      by (subst read_trailer.simps) fastforce
  qed
qed

lemma read_chunks_total:
  "\<exists>ok hs' a' s'. read_chunks read s line hs out a = Some (ok, hs', a', s') \<and> length (pending s') \<le> length (pending s) \<and> keep s' = keep s"
proof (induction "length (pending s)" arbitrary: s line a rule: less_induct)
  case less
  obtain r1 s1 where g: "getline read s = Some (r1, s1)" "keep s1 = keep s" "length (pending s1) \<le> length (pending s)"
    using getline_total [of s] by blast
  obtain t: "\<exists>ok hs' s'. read_trailer read s1 (the r1) hs = Some (ok, hs', s') \<and> length (pending s') \<le> length (pending s) \<and> keep s' = keep s"
    using read_trailer_total [of s1 "the r1" hs] g(2,3) by fastforce
  have body: ?case if b: "strtoul_16 (c_str line) = Some n" "n \<noteq> ULONG_MAX" "n \<noteq> 0" for n
  proof -
    obtain ok a1 s2 where l: "read_content_with_length read s n None out a = Some (ok, a1, s2)"
      "length (pending s2) \<le> length (pending s)" "keep s2 = keep s"
      using read_length_total [of s n None out a 0] by (auto simp: read_content_with_length_def)
    obtain r3 s3 where l3: "getline read s2 = Some (r3, s3)" "keep s3 = keep s2"
      "r3 \<noteq> None \<Longrightarrow> length (pending s3) < length (pending s2)" "length (pending s3) \<le> length (pending s2)"
      using getline_total [of s2] by blast
    obtain r4 s4 where l4: "getline read s3 = Some (r4, s4)" "keep s4 = keep s3"
      "r4 \<noteq> None \<Longrightarrow> length (pending s4) < length (pending s3)" "length (pending s4) \<le> length (pending s3)"
      using getline_total [of s3] by blast
    have "length (pending s4) < length (pending s)" if "r4 \<noteq> None" using l4(3) [OF that] l3(4) l(2) by simp
    from less [OF this, of "the r4" a1] show ?thesis using b l l3 l4
      by (subst read_chunks.simps) (cases r3; cases r4; fastforce)
  qed
  show ?case
  proof (cases "strtoul_16 (c_str line)")
    case None
    then show ?thesis by (subst read_chunks.simps) auto
  next
    case (Some n)
    consider "n = ULONG_MAX" | "n \<noteq> ULONG_MAX" "n = 0" | "n \<noteq> ULONG_MAX" "n \<noteq> 0" by blast
    then show ?thesis
    proof cases
      case 1
      then show ?thesis using Some by (subst read_chunks.simps) auto
    next
      case 2
      then show ?thesis using Some g t by (subst read_chunks.simps) (cases r1; fastforce)
    next
      case 3
      then show ?thesis by (rule body [OF Some])
    qed
  qed
qed

lemma read_content_chunked_total:
  "\<exists>ok hs' a' s'. read_content_chunked read s hs out a = Some (ok, hs', a', s') \<and> keep s' = keep s"
proof -
  obtain r s1 where g: "getline read s = Some (r, s1)" "keep s1 = keep s" using getline_total [of s] by blast
  then show ?thesis using read_chunks_total [of s1 "the r" hs out a]
    by (cases r) (auto simp: read_content_chunked_def)
qed

lemma read_content_total:
  "\<exists>ok st' hs' a' s'. read_content read s hs limit st progress out decompress a = Some (ok, st', hs', a', s') \<and> keep s' = keep s"
proof -
  define n where "n = unat (get_header_value_u64 hs ''Content-Length'' 0 0)"
  obtain ok1 hs1 a1 s1 where chunked: "read_content_chunked read s hs out a = Some (ok1, hs1, a1, s1)" "keep s1 = keep s"
    using read_content_chunked_total [of s hs out a] by auto
  obtain ok2 a2 s2 where len: "read_content_with_length read s n progress out a = Some (ok2, a2, s2)" "keep s2 = keep s"
    using read_length_total [of s n progress out a 0] by (auto simp: read_content_with_length_def)
  obtain ok3 a3 s3 where whole: "read_content_without_length read s out a = Some (ok3, a3, s3)" "keep s3 = keep s"
    using read_to_end_total [of s out a 0] by (auto simp: read_content_without_length_def)
  obtain s4 where skip: "skip_content_with_length read s n = Some s4" "keep s4 = keep s"
    using skip_length_total [of s n 0] by (auto simp: skip_content_with_length_def)
  show ?thesis unfolding read_content_def Let_def n_def [symmetric]
    using chunked len whole skip by (cases "prepare_content_receiver hs decompress") auto
qed


end

text \<open>Writing: on a live stream every write of a non-empty text accepts at least one byte.\<close>

definition sink_live :: "('s \<Rightarrow> bool) \<Rightarrow> 's sink_state \<Rightarrow> bool" where
  "sink_live live t \<longleftrightarrow> live (sk_stream t) \<and> sk_ok t"

text \<open>
  A provider of the pieces of \<open>c\<close>, \<open>z\<close> bytes a call, that may also find nothing at some call (\<open>there k\<close> is false)
  and then cancels; the loop can also be stopped by the shutdown.  Whole pieces are sent up to the first such
  call \<open>j\<close>, and the end of the content only when all of it was sent.
\<close>

definition chunks_sent :: "string \<Rightarrow> nat \<Rightarrow> (nat \<Rightarrow> bool) \<Rightarrow> (nat \<Rightarrow> bool) \<Rightarrow> nat \<Rightarrow> nat \<Rightarrow> string list \<Rightarrow> bool \<Rightarrow> Error \<Rightarrow> string \<Rightarrow> bool" where
  "chunks_sent c z there shut k j cs ok err body \<longleftrightarrow>
     k \<le> j \<and> (\<forall>i. k \<le> i \<and> i < j \<longrightarrow> there i \<and> \<not> shut i) \<and>
     concat cs = drop (k * z) (take (j * z) c) \<and> (\<forall>x \<in> set cs. x \<noteq> [] \<and> length x \<le> z) \<and>
     (if length c \<le> j * z then ok \<and> err = Success \<and> body = concat (map chunk_text cs) @ ''0'' @ CRLF @ CRLF
      else body = concat (map chunk_text cs) \<and> (if shut j then ok else \<not> there j \<and> \<not> ok \<and> err = Canceled))"

lemma take_drop_split:
  assumes "a + z \<le> m"
  shows "take z (drop a c) @ drop (a + z) (take m c) = drop a (take m c)"
  using take_add [of z "m - a - z" "drop a c"] assms by (simp add: drop_take add.commute)

lemma chunks_sent_Cons:
  assumes "chunks_sent c z there shut (Suc k) j cs ok err body" "there k" "\<not> shut k" "k * z < length c" "0 < z"
    and "d = take z (drop (k * z) c)"
  shows "chunks_sent c z there shut k j (d # cs) ok err (chunk_text d @ body)"
proof -
  have "Suc k * z \<le> j * z" using assms(1) by (simp add: chunks_sent_def del: mult_Suc)
  then have "d @ drop (Suc k * z) (take (j * z) c) = drop (k * z) (take (j * z) c)"
    unfolding assms(6) using take_drop_split [of "k * z" z "j * z" c] by (simp add: add.commute)
  moreover have "\<forall>i. k < i \<and> i < j \<longrightarrow> there i \<and> \<not> shut i" "Suc k \<le> j"
    using assms(1) unfolding chunks_sent_def Suc_le_eq by blast+
  then have "\<forall>i. k \<le> i \<and> i < j \<longrightarrow> there i \<and> \<not> shut i" using assms(2,3) by (metis le_less)
  moreover have "d \<noteq> []" "length d \<le> z" using assms(4-6) by auto
  ultimately show ?thesis using assms(1) by (simp add: chunks_sent_def del: mult_Suc)
qed

locale byte_sink =
  fixes wr :: "'s stream_write"
    and writable :: "'s \<Rightarrow> bool"
    and written :: "'s \<Rightarrow> string"
    and live :: "'s \<Rightarrow> bool"
  assumes live_writable: "live s \<Longrightarrow> writable s"
    and write_live: "live s \<Longrightarrow> d \<noteq> [] \<Longrightarrow>
      \<exists>n s'. wr s d = (Some n, s') \<and> 0 < n \<and> n \<le> length d \<and> written s' = written s @ take n d \<and> live s'"
begin

lemma write_data_live:
  "live s \<Longrightarrow> \<exists>s'. write_data wr s d = Some (True, s') \<and> written s' = written s @ d \<and> live s'"
proof (induction "length d" arbitrary: s d rule: less_induct)
  case less
  show ?case
  proof (cases "d = []")
    case True
    then show ?thesis using less.prems by (subst write_data.simps) simp
  next
    case False
    from write_live [OF less.prems this] obtain n s1 where
      n: "wr s d = (Some n, s1)" "0 < n" "n \<le> length d" "written s1 = written s @ take n d" "live s1" by blast
    have "length (drop n d) < length d" using n False by simp
    from less.hyps [OF this n(5)] n show ?thesis
      by (subst write_data.simps) (auto simp: False)
  qed
qed

lemma sink_write_live:
  assumes "sink_live live t"
  obtains t' where "sink_write_data wr t d = Some t'" "sink_live live t'"
    "written (sk_stream t') = written (sk_stream t) @ d" "sk_offset t' = sk_offset t"
    "sk_data_available t' = sk_data_available t"
  using write_data_live [of "sk_stream t" d] assms
  by (auto simp: sink_live_def sink_write_data_def)

lemma write_all_live:
  "sink_live live t \<Longrightarrow> \<exists>t'. write_all wr t ds = Some t' \<and> sink_live live t' \<and>
    written (sk_stream t') = written (sk_stream t) @ concat ds \<and> sk_offset t' = sk_offset t \<and>
    sk_data_available t' = sk_data_available t"
proof (induction ds arbitrary: t)
  case (Cons d ds)
  from sink_write_live [OF Cons.prems, of d] obtain t1 where t1: "sink_write_data wr t d = Some t1" "sink_live live t1"
    "written (sk_stream t1) = written (sk_stream t) @ d" "sk_offset t1 = sk_offset t"
    "sk_data_available t1 = sk_data_available t" by blast
  from Cons.IH [OF t1(2)] t1 show ?case by auto
qed simp

lemma chunked_write_live:
  assumes "sink_live live t" "d \<noteq> []"
  obtains t' where "chunked_write writable wr nocompressor t d = Some t'" "sink_live live t'"
    "written (sk_stream t') = written (sk_stream t) @ chunk_text d" "sk_offset t' = sk_offset t + length d"
    "sk_data_available t'"
proof -
  let ?t1 = "t\<lparr> sk_data_available := (length d > 0), sk_offset := sk_offset t + length d \<rparr>"
  have "sink_live live ?t1" using assms(1) by (simp add: sink_live_def)
  from sink_write_live [OF this, of "chunk_text d"] obtain t' where t':
    "sink_write_data wr ?t1 (chunk_text d) = Some t'" "sink_live live t'"
    "written (sk_stream t') = written (sk_stream ?t1) @ chunk_text d" "sk_offset t' = sk_offset ?t1"
    "sk_data_available t' = sk_data_available ?t1" by blast
  moreover have "chunked_write writable wr nocompressor t d = sink_write_data wr ?t1 (chunk_text d)"
    using assms live_writable by (simp add: chunked_write_def nocompressor_def sink_live_def Let_def)
  ultimately show ?thesis using that assms(2) by simp
qed

lemma chunked_done_live:
  assumes "sink_live live t"
  obtains t' where "chunked_done writable wr nocompressor t [] = Some t'" "sink_live live t'"
    "written (sk_stream t') = written (sk_stream t) @ ''0'' @ CRLF @ CRLF" "\<not> sk_data_available t'"
proof -
  let ?t1 = "t\<lparr> sk_data_available := False \<rparr>"
  have "sink_live live ?t1" using assms(1) by (simp add: sink_live_def)
  from write_all_live [OF this, of "[''0'' @ CRLF, CRLF]"] obtain t' where t':
    "write_all wr ?t1 [''0'' @ CRLF, CRLF] = Some t'" "sink_live live t'"
    "written (sk_stream t') = written (sk_stream ?t1) @ concat [''0'' @ CRLF, CRLF]"
    "sk_data_available t' = sk_data_available ?t1" by blast
  moreover have "chunked_done writable wr nocompressor t [] = write_all wr ?t1 [''0'' @ CRLF, CRLF]"
    using assms by (simp add: chunked_done_def nocompressor_def sink_live_def Let_def del: write_all.simps)
  ultimately show ?thesis using that by simp
qed

text \<open>One call of a provider that hands out a piece, the last one with the end of the content.\<close>

lemma write_chunked_piece:
  assumes p: "provider w (sk_offset t) 0 = Some (SinkWrite d # (if fin then [SinkDone] else []), True)" "d \<noteq> []"
    and t: "sink_live live t" "sk_data_available t" "\<not> shut k"
  obtains t' where "sink_live live t'" "sk_data_available t' \<longleftrightarrow> \<not> fin" "\<not> fin \<Longrightarrow> sk_offset t' = sk_offset t + length d"
    "written (sk_stream t') = written (sk_stream t) @ chunk_text d @ (if fin then ''0'' @ CRLF @ CRLF else [])"
    "write_chunked_loop writable wr provider w shut nocompressor k t =
      write_chunked_loop writable wr provider w shut nocompressor (k + 1) t'"
proof -
  from chunked_write_live [OF t(1) p(2)] obtain t1 where t1:
    "chunked_write writable wr nocompressor t d = Some t1" "sink_live live t1"
    "written (sk_stream t1) = written (sk_stream t) @ chunk_text d" "sk_offset t1 = sk_offset t + length d"
    "sk_data_available t1" by blast
  have w: "writable (sk_stream t)" using t(1) live_writable by (simp add: sink_live_def)
  have loop: "write_chunked_loop writable wr provider w shut nocompressor k t =
      write_chunked_loop writable wr provider w shut nocompressor (k + 1) t'"
    if "run_ops (chunked_sink_op writable wr nocompressor) t1 (if fin then [SinkDone] else []) = Some t'" "sink_live live t'" for t'
    using that t w p t1(1) by (subst write_chunked_loop.simps) (simp add: chunked_sink_op_def sink_live_def)
  show ?thesis
  proof (cases fin)
    case True
    from chunked_done_live [OF t1(2)] obtain t2 where t2:
      "chunked_done writable wr nocompressor t1 [] = Some t2" "sink_live live t2"
      "written (sk_stream t2) = written (sk_stream t1) @ ''0'' @ CRLF @ CRLF" "\<not> sk_data_available t2" by blast
    show ?thesis using that [of t2] t2 t1(3) loop [of t2] True by (simp add: chunked_sink_op_def)
  next
    case False
    then show ?thesis using that [of t1] t1 loop [of t1] by simp
  qed
qed

lemma write_chunked_stop:
  assumes "sink_live live t" "sk_data_available t" "\<not> shut k \<Longrightarrow> provider w (sk_offset t) 0 = Some ([], False)"
  shows "write_chunked_loop writable wr provider w shut nocompressor k t =
    Some (shut k, if shut k then Success else Canceled, sk_stream t)"
  using assms live_writable by (subst write_chunked_loop.simps) (auto simp: sink_live_def)

lemma write_chunked_run:
  assumes prov: "\<And>k. k * z < length c \<Longrightarrow> provider w (k * z) 0 =
      (if there k then Some (SinkWrite (take z (drop (k * z) c)) # (if length c \<le> Suc k * z then [SinkDone] else []), True)
       else Some ([], False))"
    and z: "0 < z"
  shows "sink_live live t \<Longrightarrow> sk_data_available t \<Longrightarrow> sk_offset t = k * z \<Longrightarrow> k * z < length c \<Longrightarrow>
    \<exists>ok err s' j cs body. write_chunked_loop writable wr provider w shut nocompressor k t = Some (ok, err, s') \<and> live s' \<and>
      written s' = written (sk_stream t) @ body \<and> chunks_sent c z there shut k j cs ok err body"
proof (induction "length c - k * z" arbitrary: t k rule: less_induct)
  case less
  let ?d = "take z (drop (k * z) c)" and ?last = "length c \<le> Suc k * z"
  show ?case
  proof (cases "shut k \<or> \<not> there k")
    case True
    have "chunks_sent c z there shut k k [] (shut k) (if shut k then Success else Canceled) []"
      using True less.prems(4) by (auto simp: chunks_sent_def)
    moreover have "write_chunked_loop writable wr provider w shut nocompressor k t =
        Some (shut k, if shut k then Success else Canceled, sk_stream t)"
      using True prov [OF less.prems(4)] less.prems(3) by (intro write_chunked_stop [OF less.prems(1,2)]) auto
    ultimately show ?thesis using less.prems(1) unfolding sink_live_def by (metis append_Nil2)
  next
    case False
    then have 3: "\<not> shut k" "there k" by simp_all
    have "?d \<noteq> []" using less.prems(4) z by simp
    from write_chunked_piece [of provider w t ?d ?last shut k, OF _ this less.prems(1,2) 3(1)] prov [OF less.prems(4)] 3(2) less.prems(3)
    obtain t1 where t1: "sink_live live t1" "sk_data_available t1 \<longleftrightarrow> \<not> ?last" "\<not> ?last \<Longrightarrow> sk_offset t1 = k * z + length ?d"
      "written (sk_stream t1) = written (sk_stream t) @ chunk_text ?d @ (if ?last then ''0'' @ CRLF @ CRLF else [])"
      "write_chunked_loop writable wr provider w shut nocompressor k t =
        write_chunked_loop writable wr provider w shut nocompressor (k + 1) t1" by (auto simp del: mult_Suc)
    show ?thesis
    proof (cases ?last)
      case True
      have "write_chunked_loop writable wr provider w shut nocompressor k t = Some (True, Success, sk_stream t1)"
        using t1(2,5) True by (simp add: write_chunked_loop.simps [of _ _ _ _ _ _ _ t1])
      moreover have "chunks_sent c z there shut (Suc k) (Suc k) [] True Success (''0'' @ CRLF @ CRLF)"
        using True by (auto simp: chunks_sent_def)
      note chunks_sent_Cons [OF this 3(2,1) less.prems(4) z refl]
      ultimately show ?thesis using t1(1,4) True by (auto simp: sink_live_def)
    next
      case False
      then have "sk_offset t1 = Suc k * z" using t1(3) by (simp add: add.commute)
      then obtain ok err s' j cs body where r: "live s'" "written s' = written (sk_stream t1) @ body"
        "write_chunked_loop writable wr provider w shut nocompressor (Suc k) t1 = Some (ok, err, s')"
        "chunks_sent c z there shut (Suc k) j cs ok err body"
        using less.hyps [of "Suc k" t1] t1(1,2) False z less.prems(4) by fastforce
      show ?thesis using chunks_sent_Cons [OF r(4) 3(2,1) less.prems(4) z refl] r(1,2,3) t1(4,5) False by auto
    qed
  qed
qed

end

section \<open>The stream classes satisfy the interfaces\<close>

definition socket_pending :: "SocketStream \<Rightarrow> string" where
  "socket_pending st = read_buff st @ concat (rx (sock st))"

definition socket_live :: "SocketStream \<Rightarrow> bool" where
  "socket_live st \<longleftrightarrow> tx_quota (sock st) = None \<and> 0 < tx_max (sock st) \<and> is_socket_alive (sock st)"

definition buffer_pending :: "BufferStream \<Rightarrow> string" where
  "buffer_pending st = drop (buf_position st) (buffer st)"

lemma concat_dropWhile_empty: "concat (dropWhile (\<lambda>d. d = []) ds) = concat ds"
  by (induction ds) auto

lemma read_socket_more:
  assumes "concat (rx sk) \<noteq> []" "0 < n"
  obtains d sk' where "read_socket sk n = (ReadBytes d, sk')" "d \<noteq> []" "length d \<le> n"
    "concat (rx sk) = d @ concat (rx sk')" "sk'\<lparr> rx := [] \<rparr> = sk\<lparr> rx := [] \<rparr>"
proof -
  from assms(1) have "dropWhile (\<lambda>d. d = []) (rx sk) \<noteq> []"
    by (metis concat.simps(1) concat_dropWhile_empty)
  then obtain e es where e: "dropWhile (\<lambda>d. d = []) (rx sk) = e # es" by (cases "dropWhile (\<lambda>d. d = []) (rx sk)") auto
  then have "e \<noteq> []" using hd_dropWhile [of "\<lambda>d. d = []" "rx sk"] by simp
  moreover have "concat (rx sk) = e @ concat es" using concat_dropWhile_empty [of "rx sk"] e by simp
  ultimately show ?thesis using e assms(2) by (intro that [of "take n e" "sk\<lparr> rx := drop n e # es \<rparr>"]) (auto simp: read_socket_def)
qed

lemma read_socket_none:
  assumes "concat (rx sk) = []"
  obtains r where "read_socket sk n = (r, sk\<lparr> rx := [] \<rparr>)" "r = ReadEof \<or> r = ReadError"
proof -
  have e: "dropWhile (\<lambda>d. d = []) (rx sk) = []" using assms by (auto simp: dropWhile_eq_Nil_conv)
  have "read_socket sk n = (case rx_end sk of PeerClosed \<Rightarrow> ReadEof | PeerSilent \<Rightarrow> ReadError, sk\<lparr> rx := [] \<rparr>)"
    by (simp only: read_socket_def e list.case)
  then show ?thesis using that by (cases "rx_end sk") auto
qed

lemma select_read_pending: "concat (rx sk) \<noteq> [] \<Longrightarrow> select_read sk"
  by (auto simp: select_read_def list_ex_iff)

interpretation socket_in: byte_source socket_read socket_pending "\<lambda>st. (sock st)\<lparr> rx := [] \<rparr>"
proof
  fix st :: SocketStream and n :: nat
  assume n: "0 < n"
  { assume p: "socket_pending st \<noteq> []"
    show "\<exists>d s'. socket_read st n = (ReadBytes d, s') \<and> d \<noteq> [] \<and> length d \<le> n \<and>
        socket_pending st = d @ socket_pending s' \<and> (sock s')\<lparr> rx := [] \<rparr> = (sock st)\<lparr> rx := [] \<rparr>"
    proof (cases "read_buff st = []")
      case False
      then show ?thesis using n by (auto simp: socket_read_def socket_pending_def)
    next
      case True
      then have c: "concat (rx (sock st)) \<noteq> []" using p by (simp add: socket_pending_def)
      have b: "0 < read_buff_size" by (simp add: read_buff_size_def)
      obtain d sk where d: "read_socket (sock st) read_buff_size = (ReadBytes d, sk)" "d \<noteq> []"
        "concat (rx (sock st)) = d @ concat (rx sk)" "sk\<lparr> rx := [] \<rparr> = (sock st)\<lparr> rx := [] \<rparr>" by (rule read_socket_more [OF c b])
      obtain e sk' where e: "read_socket (sock st) n = (ReadBytes e, sk')" "e \<noteq> []" "length e \<le> n"
        "concat (rx (sock st)) = e @ concat (rx sk')" "sk'\<lparr> rx := [] \<rparr> = (sock st)\<lparr> rx := [] \<rparr>" by (rule read_socket_more [OF c n])
      show ?thesis using True n d e select_read_pending [OF c]
        by (auto simp: socket_read_def socket_pending_def socket_is_readable_def)
    qed }
  { assume p: "socket_pending st = []"
    then have c: "read_buff st = []" "concat (rx (sock st)) = []" by (simp_all add: socket_pending_def)
    obtain r where r: "read_socket (sock st) n = (r, (sock st)\<lparr> rx := [] \<rparr>)" "r = ReadEof \<or> r = ReadError"
      using read_socket_none [OF c(2), of n] by metis
    obtain q where q: "read_socket (sock st) read_buff_size = (q, (sock st)\<lparr> rx := [] \<rparr>)" "q = ReadEof \<or> q = ReadError"
      using read_socket_none [OF c(2), of read_buff_size] by metis
    show "\<exists>r s'. socket_read st n = (r, s') \<and> (r = ReadEof \<or> r = ReadError) \<and> socket_pending s' = [] \<and>
        (sock s')\<lparr> rx := [] \<rparr> = (sock st)\<lparr> rx := [] \<rparr>"
      using c r q by (auto simp: socket_read_def socket_pending_def) }
qed

lemma take_drop_length_take: "take n xs @ drop (length (take n xs)) xs = xs"
  by (cases "n \<le> length xs") simp_all

interpretation buffer_in: byte_source buffer_read buffer_pending buffer
proof
  fix st :: BufferStream and n :: nat
  assume n: "0 < n"
  let ?d = "take n (drop (buf_position st) (buffer st))"
  { assume "buffer_pending st \<noteq> []"
    then have "?d \<noteq> []" using n by (simp add: buffer_pending_def)
    then have "buffer_read st n = (ReadBytes ?d, st\<lparr> buf_position := buf_position st + length ?d \<rparr>)"
      by (simp add: buffer_read_def Let_def substr_def)
    moreover have "buffer_pending st = ?d @ buffer_pending (st\<lparr> buf_position := buf_position st + length ?d \<rparr>)"
      using take_drop_length_take [of n "drop (buf_position st) (buffer st)"]
      unfolding buffer_pending_def drop_drop by (simp add: add.commute del: length_take)
    ultimately show "\<exists>d s'. buffer_read st n = (ReadBytes d, s') \<and> d \<noteq> [] \<and> length d \<le> n \<and>
        buffer_pending st = d @ buffer_pending s' \<and> buffer s' = buffer st"
      using \<open>?d \<noteq> []\<close> by (intro exI [of _ ?d] exI [of _ "st\<lparr> buf_position := buf_position st + length ?d \<rparr>"]) simp }
  { assume "buffer_pending st = []"
    then have "buffer_read st n = (ReadEof, st\<lparr> buf_position := buf_position st + 0 \<rparr>)"
      by (simp add: buffer_read_def Let_def buffer_pending_def substr_def)
    then show "\<exists>r s'. buffer_read st n = (r, s') \<and> (r = ReadEof \<or> r = ReadError) \<and> buffer_pending s' = [] \<and>
        buffer s' = buffer st"
      using \<open>buffer_pending st = []\<close> by (simp add: buffer_pending_def) }
qed

interpretation socket_out: byte_sink socket_write socket_is_writable "\<lambda>st. tx (sock st)" socket_live
proof
  fix st :: SocketStream and d :: string
  assume l: "socket_live st"
  then show w: "socket_is_writable st"
    by (simp add: socket_live_def socket_is_writable_def select_write_def)
  assume "d \<noteq> []"
  then show "\<exists>n s'. socket_write st d = (Some n, s') \<and> 0 < n \<and> n \<le> length d \<and>
      tx (sock s') = tx (sock st) @ take n d \<and> socket_live s'"
    using l w by (auto simp: socket_write_def send_socket_def socket_live_def Let_def is_socket_alive_def select_read_def)
qed

interpretation buffer_out: byte_sink buffer_write buffer_is_writable buffer "\<lambda>_. True"
  by standard (auto simp: buffer_write_def buffer_is_writable_def)


section \<open>Round trips\<close>

definition append_receiver :: "string receiver" where
  "append_receiver a d r len = (True, a @ d)"

lemma append_receiver_accepts: "accepts append_receiver (@) (\<lambda>_ _. True)"
  by (simp add: accepts_def append_receiver_def)

lemma foldl_concat: "foldl (@) a ds = a @ concat ds"
  by (induction ds arbitrary: a) auto

text \<open>A text as chunks.\<close>

definition chunked_body :: "string \<Rightarrow> string \<Rightarrow> bool" where
  "chunked_body c body \<longleftrightarrow> (\<exists>cs. concat cs = c \<and> (\<forall>x \<in> set cs. x \<noteq> [] \<and> length x < ULONG_MAX) \<and>
     body = concat (map chunk_text cs) @ ''0'' @ CRLF @ CRLF)"

lemma chunked_written:
  assumes prov: "\<And>off len. off < length c \<Longrightarrow> provider w off len =
      Some (SinkWrite (take z (drop off c)) # (if length c - off \<le> z then [SinkDone] else []), True)"
    and "c \<noteq> []" "0 < z" "z < ULONG_MAX" "socket_live st" "\<And>k. \<not> shut k"
  shows "\<exists>st' body.
    write_content_chunked socket_is_writable socket_write st provider w shut nocompressor = Some (True, Success, st') \<and>
    tx (sock st') = tx (sock st) @ body \<and> chunked_body c body"
proof -
  let ?t = "\<lparr> sk_stream = st, sk_offset = 0, sk_ok = True, sk_data_available = True \<rparr>"
  have "sink_live socket_live ?t" using assms(5) by (simp add: sink_live_def)
  moreover have "length c - k * z \<le> z \<longleftrightarrow> length c \<le> Suc k * z" for k by auto
  ultimately obtain ok err st' j cs body where
    st': "write_content_chunked socket_is_writable socket_write st provider w shut nocompressor = Some (ok, err, st')"
    "tx (sock st') = tx (sock st) @ body" "chunks_sent c z (\<lambda>_. True) shut 0 j cs ok err body"
    using socket_out.write_chunked_run [of z c provider w "\<lambda>_. True" ?t 0 shut] prov assms(2,3)
    by (auto simp: write_content_chunked_def simp del: mult_Suc)
  then have "ok" "err = Success" "concat cs = c" "body = concat (map chunk_text cs) @ ''0'' @ CRLF @ CRLF"
    "\<forall>x \<in> set cs. x \<noteq> [] \<and> length x < ULONG_MAX"
    using assms(4,6) by (auto simp: chunks_sent_def split: if_splits)
  then show ?thesis using st'(1,2) unfolding chunked_body_def by (intro exI [of _ st'] exI [of _ body]) auto
qed

lemma chunked_body_read:
  assumes "chunked_body c body" "socket_pending peer = body @ rest"
  shows "\<exists>peer'. read_content_chunked socket_read peer hs append_receiver [] = Some (True, hs, c, peer') \<and> socket_pending peer' = rest"
proof -
  from assms(1) obtain cs where cs: "concat cs = c" "\<forall>x \<in> set cs. x \<noteq> [] \<and> length x < ULONG_MAX"
    "body = concat (map chunk_text cs) @ ''0'' @ CRLF @ CRLF" by (auto simp: chunked_body_def)
  then show ?thesis
    using socket_in.read_chunks_accepting [OF append_receiver_accepts, where s = peer and cs = cs and rest = rest and a = "[]" and hs = hs]
      assms(2) by (auto simp: foldl_concat)
qed

lemma chunked_transfer:
  assumes prov: "\<And>off len. off < length c \<Longrightarrow> provider w off len =
      Some (SinkWrite (take z (drop off c)) # (if length c - off \<le> z then [SinkDone] else []), True)"
    and "c \<noteq> []" "0 < z" "z < ULONG_MAX" "socket_live st" "\<And>k. \<not> shut k"
  shows "\<exists>st' body.
    write_content_chunked socket_is_writable socket_write st provider w shut nocompressor = Some (True, Success, st') \<and>
    tx (sock st') = tx (sock st) @ body \<and>
    (\<forall>peer rest hs. socket_pending peer = body @ rest \<longrightarrow>
      (\<exists>peer'. read_content_chunked socket_read peer hs append_receiver [] = Some (True, hs, c, peer') \<and>
        socket_pending peer' = rest))"
  using chunked_written [of c provider w z st shut, OF assms] chunked_body_read by metis

text \<open>
  C29. Chunked transfer: for a provider that hands out a non-empty content in pieces of at most \<open>z\<close>
  bytes and closes after the last, \<^verbatim>\<open>write_content_chunked\<close> on a live socket returns true, however
  few bytes each \<^verbatim>\<open>send\<close> accepts; and \<^verbatim>\<open>read_content_chunked\<close> on a connection that delivers the
  written bytes, cut into segments in any way, returns exactly the content and leaves the
  bytes that follow.
\<close>

theorem chunked_round_trip:
  assumes prov: "\<And>off len. off < length c \<Longrightarrow> provider w off len =
      Some (SinkWrite (take z (drop off c)) # (if length c - off \<le> z then [SinkDone] else []), True)"
    and "c \<noteq> []" "0 < z" "z < ULONG_MAX" "socket_live st" "\<And>k. \<not> shut k"
  shows "\<exists>st' body.
    write_content_chunked socket_is_writable socket_write st provider w shut nocompressor = Some (True, Success, st') \<and>
    tx (sock st') = tx (sock st) @ body \<and>
    (\<forall>peer rest hs. socket_pending peer = body @ rest \<longrightarrow>
      (\<exists>peer'. read_content_chunked socket_read peer hs append_receiver [] = Some (True, hs, c, peer') \<and>
        socket_pending peer' = rest))"
  using assms by (rule chunked_transfer)

subsection \<open>Headers\<close>

definition wire_header :: "string \<times> string \<Rightarrow> bool" where
  "wire_header kv \<longleftrightarrow> fst kv \<noteq> [] \<and> CHR '':'' \<notin> set (fst kv) \<and> snd kv \<noteq> [] \<and>
     \<not> is_space_or_tab (hd (snd kv)) \<and> \<not> is_space_or_tab (last (snd kv)) \<and> CHR ''%'' \<notin> set (snd kv) \<and>
     set (fst kv @ snd kv) \<inter> {NUL, CR, LF} = {} \<and> length (fst kv) + length (snd kv) + 4 \<le> HEADER_MAX_LENGTH"

lemma decode_no_percent: "CHR ''%'' \<notin> set s \<Longrightarrow> decode_url s False = s"
  by (induction s) auto

lemma parse_header_line:
  assumes "wire_header (k, v)"
  shows "parse_header (k @ '': '' @ v) = Some (k, v)"
proof -
  have w: "CHR '':'' \<notin> set k" "v \<noteq> []" "\<not> is_space_or_tab (hd v)" "\<not> is_space_or_tab (last v)"
    "CHR ''%'' \<notin> set v" using assms by (auto simp: wire_header_def)
  have r: "dropWhile is_space_or_tab (rev (k @ '': '' @ v)) = rev (k @ '': '' @ v)"
    using w(2,4) by (cases v rule: rev_cases) auto
  have t: "takeWhile (\<lambda>c. c \<noteq> CHR '':'') (k @ '': '' @ v) = k"
    using w(1) by (intro takeWhile_append_stop) (auto simp: list_all_iff)
  have "dropWhile is_space_or_tab ('' '' @ v) = v"
    using w(2,3) by (cases v) (auto simp: is_space_or_tab_def)
  then show ?thesis unfolding parse_header_def Let_def r rev_rev_ident t
    using w(2,5) decode_no_percent by simp
qed

lemma emplace_end: "\<forall>e \<in> set m. \<not> lt k (fst e) \<Longrightarrow> mm_emplace lt k v m = m @ [(k, v)]"
  by (induction m) auto

context line_source
begin

lemma read_headers_wire:
  assumes "mm_sorted ci (done @ hs)" "\<forall>kv \<in> set hs. wire_header kv"
    "view s (concat (map header_line hs) @ CRLF @ rest)"
  shows "\<exists>s'. read_headers rd s done = Some (True, done @ hs, s') \<and> view s' rest \<and> other s' = other s"
  using assms
proof (induction hs arbitrary: s "done")
  case Nil
  then have "view s ([] @ CRLF @ rest)" by simp
  then obtain s' where "getline rd s = Some (Some CRLF, s')" "view s' rest" "other s' = other s"
    by (rule getline_crlf) auto
  then show ?case by (subst read_headers.simps) (simp add: end_with_crlf_def)
next
  case (Cons kv hs)
  obtain k v where kv: "kv = (k, v)" by (cases kv)
  have w: "wire_header (k, v)" using Cons.prems(2) kv by simp
  let ?l = "k @ '': '' @ v"
  have nn: "NUL \<notin> set k" "NUL \<notin> set v" "LF \<notin> set ?l" using w by (auto simp: wire_header_def)
  have "view s (?l @ CRLF @ (concat (map header_line hs) @ CRLF @ rest))"
    using Cons.prems(3) nn by (simp add: kv header_line_def [of "(k, v)"])
  from this nn(3) obtain s1 where s1: "getline rd s = Some (Some (?l @ CRLF), s1)"
    "view s1 (concat (map header_line hs) @ CRLF @ rest)" "other s1 = other s" by (rule getline_crlf)
  have add: "add_header_line (?l @ CRLF) done = done @ [kv]"
    using parse_header_line [OF w] Cons.prems(1)
    by (auto simp: add_header_line_def kv mm_sorted_def sorted_wrt_append intro!: emplace_end)
  have "read_headers rd s done = read_headers rd s1 (done @ [kv])"
    using s1(1) w add by (subst read_headers.simps) (simp add: end_with_crlf_def wire_header_def)
  then show ?case using Cons.IH [of "done @ [kv]" s1] Cons.prems s1(2,3) by simp
qed

end

text \<open>
  The head of a message that arrives in segments: \<open>t\<close> of it is still to come, from the buffer and from segments
  of which the last holds \<open>first\<close> behind the end of the head, or, when the buffer has that segment, from there.
\<close>

definition head_view :: "string \<Rightarrow> string list \<Rightarrow> SocketStream \<Rightarrow> string \<Rightarrow> bool" where
  "head_view first segs st t \<longleftrightarrow>
     read_buff st = t @ first \<and> rx (sock st) = [] # segs \<or>
     (\<exists>pre x. t = read_buff st @ concat pre @ x \<and> x \<noteq> [] \<and> rx (sock st) = pre @ (x @ first) # segs \<and>
        length (x @ first) \<le> read_buff_size)"

lemma head_viewI:
  "read_buff st = t @ first \<Longrightarrow> rx (sock st) = [] # segs \<Longrightarrow> head_view first segs st t"
  "t = read_buff st @ concat pre @ x \<Longrightarrow> x \<noteq> [] \<Longrightarrow> rx (sock st) = pre @ (x @ first) # segs \<Longrightarrow>
    length (x @ first) \<le> read_buff_size \<Longrightarrow> head_view first segs st t"
  unfolding head_view_def by blast+

lemma socket_read_segment:
  assumes "read_buff st = []" "dropWhile (\<lambda>d. d = []) (rx (sock st)) = d # ds"
  shows "socket_read st 1 = (ReadBytes [hd d], st\<lparr> sock := (sock st)\<lparr> rx := drop read_buff_size d # ds \<rparr>,
    read_buff := drop 1 (take read_buff_size d) \<rparr>)"
proof -
  have d: "d \<noteq> []" "d \<in> set (rx (sock st))"
    using hd_dropWhile [of "\<lambda>d. d = []" "rx (sock st)"] set_dropWhileD [of d "\<lambda>d. d = []" "rx (sock st)"] assms(2) by auto
  then have "select_read (sock st)" by (auto simp: select_read_def list_ex_iff)
  moreover obtain c e where "d = c # e" using d(1) by (cases d) auto
  ultimately show ?thesis using assms
    by (cases e) (simp_all add: socket_read_def socket_is_readable_def read_socket_def read_buff_size_def)
qed

lemma head_view_char:
  assumes "head_view first segs st (c # t)"
  shows "\<exists>st'. socket_read st 1 = (ReadBytes [c], st') \<and> head_view first segs st' t \<and> (sock st')\<lparr> rx := [] \<rparr> = (sock st)\<lparr> rx := [] \<rparr>"
proof (cases "read_buff st")
  case (Cons a b)
  then have r: "socket_read st 1 = (ReadBytes [a], st\<lparr> read_buff := b \<rparr>)" by (simp add: socket_read_def)
  from assms consider "c = a" "b = t @ first" "rx (sock st) = [] # segs"
    | pre x where "c = a" "t = b @ concat pre @ x" "x \<noteq> []" "rx (sock st) = pre @ (x @ first) # segs" "length (x @ first) \<le> read_buff_size"
    unfolding head_view_def Cons by auto
  then have "c = a \<and> head_view first segs (st\<lparr> read_buff := b \<rparr>) t"
    by cases (auto intro: head_viewI(1) head_viewI(2) [where st = "st\<lparr> read_buff := b \<rparr>", simplified])
  then show ?thesis using r by simp
next
  case Nil
  with assms obtain pre x where p: "c # t = concat pre @ x" "x \<noteq> []" "rx (sock st) = pre @ (x @ first) # segs" "length (x @ first) \<le> read_buff_size"
    unfolding head_view_def by auto
  show ?thesis
  proof (cases "dropWhile (\<lambda>d. d = []) pre")
    case none: Nil
    then have "dropWhile (\<lambda>d. d = []) (rx (sock st)) = (x @ first) # segs" "concat pre = []"
      using p(2,3) concat_dropWhile_empty [of pre] by (auto simp: dropWhile_append dropWhile_eq_Nil_conv)
    from socket_read_segment [OF Nil this(1)] p(1,2,4) this(2) show ?thesis
      by (auto intro!: head_viewI(1) simp: Cons_eq_append_conv)
  next
    case (Cons y ys)
    then have "\<not> (\<forall>d \<in> set pre. d = [])" by (simp flip: dropWhile_eq_Nil_conv)
    then have "dropWhile (\<lambda>d. d = []) (rx (sock st)) = dropWhile (\<lambda>d. d = []) pre @ (x @ first) # segs"
      unfolding p(3) dropWhile_append by (rule if_not_P)
    then have d: "dropWhile (\<lambda>d. d = []) (rx (sock st)) = y # ys @ (x @ first) # segs" "concat pre = y @ concat ys" "y \<noteq> []"
      using concat_dropWhile_empty [of pre] hd_dropWhile [of "\<lambda>d. d = []" pre] unfolding Cons by simp_all
    from d(3) obtain y' where y: "y = c # y'" "t = y' @ concat ys @ x" using p(1) d(2) by (cases y) auto
    have "drop 1 (take read_buff_size y) @ drop read_buff_size y = y'"
      using append_take_drop_id [of read_buff_size y] by (simp add: y(1) read_buff_size_def)
    then have "t = drop 1 (take read_buff_size y) @ concat (drop read_buff_size y # ys) @ x" using y(2) by simp
    from socket_read_segment [OF Nil d(1)] head_viewI(2) [of t "st\<lparr> sock := (sock st)\<lparr> rx := drop read_buff_size y # ys @ (x @ first) # segs \<rparr>,
        read_buff := drop 1 (take read_buff_size y) \<rparr>" "drop read_buff_size y # ys" x first segs] this p(2,4) y(1)
    show ?thesis by simp
  qed
qed

text \<open>When the head has been read, what came with its end is in the buffer.\<close>

lemma head_view_done: "head_view first segs st [] \<Longrightarrow> read_buff st = first \<and> rx (sock st) = [] # segs"
  by (auto simp: head_view_def)

interpretation socket_head: line_source socket_read "head_view first segs" "\<lambda>st. (sock st)\<lparr> rx := [] \<rparr>" for first segs
  by unfold_locales (rule head_view_char)

lemma write_lines_buffer:
  "\<exists>n st'. write_lines buffer_write st ls len = (n, st') \<and> buffer st' = buffer st @ concat ls \<and> n = len + int (length (concat ls))"
proof (induction ls arbitrary: st len)
  case (Cons l ls)
  from Cons.IH [of "st\<lparr> buffer := buffer st @ l \<rparr>" "len + int (length l)"]
  show ?case by (auto simp: buffer_write_def)
qed simp

text \<open>
  Headers: \<^verbatim>\<open>write_headers\<close> into a buffer emits a text from which \<^verbatim>\<open>read_headers\<close>, over any
  segmentation of the connection, reads the same header map back, for names without colons
  and values without percent signs, line breaks or surrounding blanks, each line within the
  limit.
\<close>

theorem headers_round_trip:
  assumes "mm_sorted ci hs" "\<forall>kv \<in> set hs. wire_header kv"
  shows "\<exists>n st' text. write_headers buffer_write st hs = (n, st') \<and> buffer st' = buffer st @ text \<and>
    n = int (length text) \<and>
    (\<forall>peer rest. socket_pending peer = text @ rest \<longrightarrow>
      (\<exists>peer'. read_headers socket_read peer [] = Some (True, hs, peer') \<and> socket_pending peer' = rest))"
proof -
  let ?text = "concat (map header_line hs @ [CRLF])"
  obtain n st' where w: "write_headers buffer_write st hs = (n, st')" "buffer st' = buffer st @ ?text"
    "n = int (length ?text)"
    using write_lines_buffer [of st "map header_line hs @ [CRLF]" 0] unfolding write_headers_def by auto
  have "\<exists>peer'. read_headers socket_read peer [] = Some (True, hs, peer') \<and> socket_pending peer' = rest"
    if "socket_pending peer = ?text @ rest" for peer rest
    using socket_in.lines.read_headers_wire [of "[]" hs peer rest] assms that by auto
  then show ?thesis using w by blast
qed

text \<open>
  Bodies with a length: when a request has a \<^verbatim>\<open>Content-Length\<close> within the payload limit,
  \<^verbatim>\<open>read_content\<close> delivers exactly that many bytes to the receiver, over any segmentation, keeps
  the status and leaves the following bytes on the connection.
\<close>

theorem read_content_with_length_exact:
  assumes "prepare_content_receiver hs decomp = None" "\<not> is_chunked_transfer_encoding hs"
    "has_header hs ''Content-Length''" "get_header_value_u64 hs ''Content-Length'' 0 0 = of_nat (length d)"
    "length d < 2 ^ 64" "length d \<le> payload_max" "socket_pending s = d @ rest"
  shows "\<exists>s'. read_content socket_read s hs payload_max status None append_receiver decomp a =
      Some (True, status, hs, a @ d, s') \<and> socket_pending s' = rest"
proof -
  have n: "unat (get_header_value_u64 hs ''Content-Length'' 0 0) = length d"
    using assms(4,5) by (simp add: unat_of_nat)
  show ?thesis
  proof (cases "d = []")
    case True
    then show ?thesis using assms n by (simp add: read_content_def)
  next
    case False
    from socket_in.read_length_accepting [OF append_receiver_accepts, where progress = None and s = s and d = d and rest = rest and r = 0 and len = "length d" and a = a] assms(7)
    obtain ds s' where "read_length_loop socket_read s (length d) None append_receiver a 0 = Some (True, foldl (@) a ds, s')"
      "concat ds = d" "socket_pending s' = rest" by (auto simp: quiet_def)
    then show ?thesis using assms n False
      by (simp add: read_content_def read_content_with_length_def foldl_concat)
  qed
qed

section \<open>Witnesses\<close>

definition demo_socket :: "string list \<Rightarrow> SocketStream" where
  "demo_socket ds = \<lparr> sock = \<lparr> rx = ds, rx_end = PeerSilent, tx = [], tx_quota = None, tx_max = 2 \<rparr>, read_buff = [] \<rparr>"

lemma demo_socket_simps [simp]:
  "socket_pending (demo_socket ds) = concat ds" "socket_live (demo_socket [])"
  "tx (sock (demo_socket ds)) = []"
  by (simp_all add: demo_socket_def socket_pending_def socket_live_def is_socket_alive_def select_read_def)

theorem chunked_round_trip_witness:
  "\<exists>st' body.
    write_content_chunked socket_is_writable socket_write (demo_socket [])
      (\<lambda>_ off _. Some (SinkWrite (take 2 (drop off ''hello'')) # (if 5 - off \<le> 2 then [SinkDone] else []), True))
      () (\<lambda>_. False) nocompressor = Some (True, Success, st') \<and>
    tx (sock st') = body \<and>
    (\<exists>peer'. read_content_chunked socket_read (demo_socket [body]) [] append_receiver [] =
       Some (True, [], ''hello'', peer'))"
proof -
  let ?p = "\<lambda>_ off _. Some (SinkWrite (take 2 (drop off ''hello'')) # (if 5 - off \<le> 2 then [SinkDone] else []), True)"
  have "?p () off len = Some (SinkWrite (take 2 (drop off ''hello'')) #
      (if length ''hello'' - off \<le> 2 then [SinkDone] else []), True)" for off and len :: nat by (simp add: eval_nat_numeral)
  from chunked_round_trip [of "''hello''" ?p "()" 2 "demo_socket []" "\<lambda>_. False", OF this]
  obtain st' body where st':
    "write_content_chunked socket_is_writable socket_write (demo_socket []) ?p () (\<lambda>_. False) nocompressor =
       Some (True, Success, st')" "tx (sock st') = body"
    "\<forall>peer rest hs. socket_pending peer = body @ rest \<longrightarrow>
      (\<exists>peer'. read_content_chunked socket_read peer hs append_receiver [] = Some (True, hs, ''hello'', peer') \<and>
        socket_pending peer' = rest)"
    by (auto simp: ULONG_MAX_def)
  have "\<exists>peer'. read_content_chunked socket_read (demo_socket [body]) [] append_receiver [] =
       Some (True, [], ''hello'', peer')"
    using st'(3) [rule_format, of "demo_socket [body]" "[]" "[]"] by auto
  with st'(1,2) show ?thesis by blast
qed

theorem headers_round_trip_witness:
  "\<exists>peer'. read_headers socket_read (demo_socket [''Host: a'', CRLF @ [CR], [LF]]) [] =
     Some (True, [(''Host'', ''a'')], peer')"
proof -
  have "mm_sorted ci [(''Host'', ''a'')]" "\<forall>kv \<in> set [(''Host'', ''a'')]. wire_header kv"
    by (simp_all add: mm_sorted_def wire_header_def is_space_or_tab_def)
  from headers_round_trip [OF this, of "\<lparr> buffer = [], buf_position = 0 \<rparr>"] obtain n st' wire where
    t: "write_headers buffer_write \<lparr> buffer = [], buf_position = 0 \<rparr> [(''Host'', ''a'')] = (n, st')" "buffer st' = wire"
    "\<forall>peer rest. socket_pending peer = wire @ rest \<longrightarrow>
      (\<exists>peer'. read_headers socket_read peer [] = Some (True, [(''Host'', ''a'')], peer') \<and> socket_pending peer' = rest)"
    by auto
  have "wire = ''Host: a'' @ CRLF @ CRLF"
    using t(1,2) by (auto simp: write_headers_def header_line_def buffer_write_def c_str_def)
  then show ?thesis using t(3) [rule_format, of "demo_socket [''Host: a'', CRLF @ [CR], [LF]]" "[]"] by auto
qed

theorem read_content_with_length_exact_witness:
  "\<exists>s'. read_content socket_read (demo_socket [''ab'', ''cdEF'']) [(''Content-Length'', ''4'')] 10 200 None
      append_receiver True [] = Some (True, 200, [(''Content-Length'', ''4'')], ''abcd'', s') \<and>
     socket_pending s' = ''EF''"
proof -
  let ?hs = "[(''Content-Length'', ''4'')]"
  have q: "mm_equal_range ci k ?hs = (if map c_tolower k = map c_tolower ''Content-Length'' then ?hs else [])" for k
    by (simp add: mm_equal_range_def ci_equiv)
  have len: "map c_tolower k \<noteq> map c_tolower ''Content-Length''" if "length k \<noteq> 14" for k
    using that by (auto dest: arg_cong [of _ _ length])
  have "prepare_content_receiver ?hs True = None"
    using len [of "''Content-Encoding''"]
    by (simp add: prepare_content_receiver_def get_header_value_def q find_sub_def Let_def)
  moreover have "\<not> is_chunked_transfer_encoding ?hs"
    using len [of "''Transfer-Encoding''"] by (simp add: is_chunked_transfer_encoding_def get_header_value_def q)
  moreover have "has_header ?hs ''Content-Length''" by (simp add: has_header_def q)
  moreover have "get_header_value_u64 ?hs ''Content-Length'' 0 0 = of_nat (length ''abcd'')"
    by (simp add: get_header_value_u64_def q strtoull_10_def c_str_def scan_int_def c_isspace_def c_isdigit_def
        radix_val_def digit_val_def Let_def)
  ultimately show ?thesis
    using read_content_with_length_exact [of ?hs True "''abcd''" 10 "demo_socket [''ab'', ''cdEF'']" "''EF''" 200 "[]"]
    by simp
qed

end
