(* ===== verification/Http_Multipart.thy ===== *)
theory Http_Multipart
  imports Http_Stream
begin

text \<open>
  Structured request texts of the HTTP library (\<^verbatim>\<open>src/src/httplib.h\<close> lines 4176-4532): query
  strings, multipart boundaries, content dispositions, range headers and the incremental
  \<^verbatim>\<open>MultipartFormDataParser\<close>.  The regular expressions of the sources are written out as
  matching functions.  The parser works on the unread text of its buffer; the buffer with
  its two positions is modelled next to it and refines that view.
\<close>

section \<open>Queries, dispositions and boundaries\<close>

definition params_to_query_str :: "params \<Rightarrow> string" where
  "params_to_query_str params =
     concat (map (\<lambda>i. (if i \<noteq> 0 then ''&'' else '''') @ fst (params ! i) @ ''='' @
       encode_query_param (snd (params ! i))) [0..<length params])"

text \<open>The inner callback: the first piece is the key, the last of the others the value.\<close>

definition key_and_value :: "string \<Rightarrow> string \<times> string" where
  "key_and_value kv =
     foldl (\<lambda>(key, val) piece. if key = [] then (piece, val) else (key, piece)) ([], [])
       (http_split kv (CHR ''='') None)"

fun parse_pairs :: "(string \<Rightarrow> string) \<Rightarrow> string list \<Rightarrow> string list \<Rightarrow> params \<Rightarrow> params" where
  "parse_pairs dec_fn cache [] params = params"
| "parse_pairs dec_fn cache (kv # kvs) params =
     (if kv \<in> set cache then parse_pairs dec_fn cache kvs params
      else let (key, val) = key_and_value kv
        in parse_pairs dec_fn (kv # cache) kvs
             (if key \<noteq> [] then mm_emplace string_less (dec_fn key) (dec_fn val) params else params))"

definition parse_query_text :: "string \<Rightarrow> params \<Rightarrow> params" where
  "parse_query_text s params =
     parse_pairs (\<lambda>x. decode_url x True) [] (http_split s (CHR ''&'') None) params"

definition parse_disposition_params :: "string \<Rightarrow> params \<Rightarrow> params" where
  "parse_disposition_params s params =
     parse_pairs trim_double_quotes_copy [] (http_split s (CHR '';'') None) params"

definition parse_multipart_boundary :: "string \<Rightarrow> string option" where
  "parse_multipart_boundary content_type =
     (case find_sub content_type ''boundary='' 0 of
        None \<Rightarrow> None
      | Some pos \<Rightarrow>
          (let beg = pos + length ''boundary='';
               value = (case find_first (\<lambda>c. c = CHR '';'') content_type pos of
                          None \<Rightarrow> drop beg content_type
                        | Some e \<Rightarrow> substr content_type beg (e - beg));
               boundary = trim_double_quotes_copy value
           in if boundary = [] then None else Some boundary))"

section \<open>Range headers\<close>

text \<open>\<^verbatim>\<open>\d*-\d*\<close>: the two digit strings.\<close>

definition match_range :: "string \<Rightarrow> (string \<times> string) option" where
  "match_range s =
     (let a = takeWhile c_isdigit s; r = dropWhile c_isdigit s
      in if r \<noteq> [] \<and> hd r = CHR ''-'' \<and> list_all c_isdigit (tl r) then Some (a, tl r) else None)"

text \<open>\<^verbatim>\<open>stoll\<close> throws when the number does not fit, \<^const>\<open>None\<close> here; an empty string is left at -1.\<close>

definition range_bound :: "string \<Rightarrow> int option" where
  "range_bound s =
     (if s = [] then Some (- 1)
      else if radix_val 10 s > 2 ^ 63 - 1 then None else Some (int (radix_val 10 s)))"

fun parse_range_pieces :: "string list \<Rightarrow> (int \<times> int) list \<Rightarrow> bool \<times> (int \<times> int) list" where
  "parse_range_pieces [] ranges = (True, ranges)"
| "parse_range_pieces (p # ps) ranges =
     (case match_range (dropWhile c_isspace p) of
        None \<Rightarrow> parse_range_pieces ps ranges
      | Some (a, b) \<Rightarrow>
          (case (range_bound a, range_bound b) of
             (Some first, Some last_) \<Rightarrow>
               if first \<noteq> - 1 \<and> last_ \<noteq> - 1 \<and> first > last_ then (False, ranges)
               else parse_range_pieces ps (ranges @ [(first, last_)])
           | _ \<Rightarrow> (False, ranges)))"

definition parse_range_header :: "string \<Rightarrow> (int \<times> int) list \<Rightarrow> bool \<times> (int \<times> int) list" where
  "parse_range_header s ranges =
     (let body = drop 6 s; fs = pieces (\<lambda>c. c = CHR '','') body
      in if prefix ''bytes='' s \<and> match_range (hd fs) \<noteq> None \<and>
            list_all (\<lambda>f. match_range (dropWhile c_isspace f) \<noteq> None) (tl fs)
         then parse_range_pieces (http_split body (CHR '','') None) ranges
         else (False, ranges))"

section \<open>The multipart parser\<close>

record mp_parser =
  mp_boundary :: string
  mp_state :: nat
  mp_valid :: bool
  mp_file :: MultipartFormData
  mp_buf :: string

definition mp_init :: "string \<Rightarrow> mp_parser" where
  "mp_init boundary =
     \<lparr> mp_boundary = boundary, mp_state = 0, mp_valid = False, mp_file = MultipartFormData_default, mp_buf = [] \<rparr>"

definition dash_boundary_crlf :: "mp_parser \<Rightarrow> string" where
  "dash_boundary_crlf p = ''--'' @ mp_boundary p @ CRLF"

definition crlf_dash_boundary :: "mp_parser \<Rightarrow> string" where
  "crlf_dash_boundary p = CRLF @ ''--'' @ mp_boundary p"

definition buf_find :: "string \<Rightarrow> string \<Rightarrow> nat" where
  "buf_find buf s = (case find_sub buf s 0 of Some i \<Rightarrow> i | None \<Rightarrow> length buf)"

definition start_with_case_ignore :: "string \<Rightarrow> string \<Rightarrow> bool" where
  "start_with_case_ignore a b \<longleftrightarrow>
     length b \<le> length a \<and> list_all (\<lambda>i. c_tolower (a ! i) = c_tolower (b ! i)) [0..<length b]"

definition no_newline :: "string \<Rightarrow> bool" where
  "no_newline s \<longleftrightarrow> list_all (\<lambda>c. c \<noteq> CR \<and> c \<noteq> LF) s"

text \<open>\<^verbatim>\<open>^Content-Disposition:\s*form-data;\s*(.*)$\<close>, ignoring case.\<close>

definition match_disposition :: "string \<Rightarrow> string option" where
  "match_disposition header =
     (if \<not> start_with_case_ignore header ''Content-Disposition:'' then None
      else let r = dropWhile c_isspace (drop 20 header)
        in if \<not> start_with_case_ignore r ''form-data;'' then None
           else let v = dropWhile c_isspace (drop 10 r) in if no_newline v then Some v else None)"

text \<open>\<^verbatim>\<open>^UTF-8''(.+?)$\<close>, ignoring case.\<close>

definition match_rfc5987 :: "string \<Rightarrow> string option" where
  "match_rfc5987 s =
     (let v = drop 7 s
      in if start_with_case_ignore s (''UTF-8'' @ [CHR 0x27, CHR 0x27]) \<and> v \<noteq> [] \<and> no_newline v
         then Some v else None)"

definition param_find :: "params \<Rightarrow> string \<Rightarrow> string option" where
  "param_find params key =
     (case mm_equal_range string_less key params of [] \<Rightarrow> None | e # _ \<Rightarrow> Some (snd e))"

text \<open>One header line of a part; \<^const>\<open>None\<close> makes the request invalid and ends the parse, so that the
  fields set before the failure are not kept.\<close>

definition mp_header_field :: "string \<Rightarrow> MultipartFormData \<Rightarrow> MultipartFormData option" where
  "mp_header_field header file =
     (if start_with_case_ignore header ''Content-Type:''
      then Some (file\<lparr> mfd_content_type := trim_copy (drop 13 header) \<rparr>)
      else if start_with_case_ignore header ''Content-Length:'' then Some file
      else case match_disposition header of
             None \<Rightarrow> None
           | Some v \<Rightarrow>
               (let params = parse_disposition_params v []
                in case param_find params ''name'' of
                     None \<Rightarrow> None
                   | Some name \<Rightarrow>
                       (let file1 = file\<lparr> mfd_name := name \<rparr>;
                            file2 = (case param_find params ''filename'' of
                                       Some f \<Rightarrow> file1\<lparr> mfd_filename := f \<rparr> | None \<Rightarrow> file1)
                        in case param_find params ''filename*'' of
                             None \<Rightarrow> Some file2
                           | Some e \<Rightarrow>
                               (case match_rfc5987 e of
                                  Some f \<Rightarrow> Some (file2\<lparr> mfd_filename := decode_url f False \<rparr>)
                                | None \<Rightarrow> None))))"

datatype hdr_result = HdrFail | HdrMore | HdrDone

type_synonym 'a header_callback = "'a \<Rightarrow> MultipartFormData \<Rightarrow> bool \<times> 'a"
type_synonym 'a content_callback = "'a \<Rightarrow> string \<Rightarrow> bool \<times> 'a"

text \<open>The loop over the header lines in state 2.\<close>

function mp_headers :: "'a header_callback \<Rightarrow> mp_parser \<Rightarrow> 'a \<Rightarrow> hdr_result \<times> mp_parser \<times> 'a" where
  "mp_headers header_callback p a =
     (let buf = mp_buf p; pos = buf_find buf CRLF in
      if pos < length buf then
        (if pos = 0 then
           (case header_callback a (mp_file p) of
              (ok, a') \<Rightarrow>
                if \<not> ok then (HdrFail, p\<lparr> mp_valid := False \<rparr>, a')
                else (HdrDone, p\<lparr> mp_buf := drop 2 buf, mp_state := 3 \<rparr>, a'))
         else
           (case mp_header_field (take pos buf) (mp_file p) of
              None \<Rightarrow> (HdrFail, p\<lparr> mp_valid := False \<rparr>, a)
            | Some f \<Rightarrow>
                mp_headers header_callback (p\<lparr> mp_file := f, mp_buf := drop (pos + 2) buf \<rparr>) a))
      else (HdrMore, p, a))"
  by pat_completeness auto
termination by (relation "measure (\<lambda>(_, p, _). length (mp_buf p))") auto

declare mp_headers.simps [simp del]

text \<open>\<^verbatim>\<open>parse\<close>: the flag it returns, the parser and the callbacks' state.\<close>

partial_function (option) mp_loop ::
  "'a content_callback \<Rightarrow> 'a header_callback \<Rightarrow> mp_parser \<Rightarrow> 'a \<Rightarrow> (bool \<times> mp_parser \<times> 'a) option" where
  "mp_loop content_callback header_callback p a =
     (let buf = mp_buf p in
      if buf = [] then Some (True, p, a)
      else if mp_state p = 0 then
        (let d = dash_boundary_crlf p; buf1 = drop (buf_find buf d) buf in
         if length d > length buf1 then Some (True, p\<lparr> mp_buf := buf1 \<rparr>, a)
         else if \<not> prefix d buf1 then Some (False, p\<lparr> mp_buf := buf1 \<rparr>, a)
         else mp_loop content_callback header_callback
                (p\<lparr> mp_buf := drop (length d) buf1, mp_state := 1 \<rparr>) a)
      else if mp_state p = 1 then
        mp_loop content_callback header_callback
          (p\<lparr> mp_file := (mp_file p)\<lparr> mfd_name := [], mfd_filename := [], mfd_content_type := [] \<rparr>,
             mp_state := 2 \<rparr>) a
      else if mp_state p = 2 then
        (if buf_find buf CRLF > HEADER_MAX_LENGTH then Some (False, p, a)
         else case mp_headers header_callback p a of
                (r, p', a') \<Rightarrow>
                  if r = HdrFail then Some (False, p', a')
                  else if r = HdrMore then Some (True, p', a')
                  else mp_loop content_callback header_callback p' a')
      else if mp_state p = 3 then
        (let d = crlf_dash_boundary p; pos = buf_find buf d in
         if length d > length buf then Some (True, p, a)
         else if pos < length buf then
           (case content_callback a (take pos buf) of
              (ok, a') \<Rightarrow>
                if \<not> ok then Some (False, p\<lparr> mp_valid := False \<rparr>, a')
                else mp_loop content_callback header_callback
                       (p\<lparr> mp_buf := drop (pos + length d) buf, mp_state := 4 \<rparr>) a')
         else
           (let len = length buf - length d in
            if len > 0 then
              (case content_callback a (take len buf) of
                 (ok, a') \<Rightarrow>
                   if \<not> ok then Some (False, p\<lparr> mp_valid := False \<rparr>, a')
                   else Some (True, p\<lparr> mp_buf := drop len buf \<rparr>, a'))
            else Some (True, p, a)))
      else
        (if length buf < 2 then Some (True, p, a)
         else if prefix CRLF buf then
           mp_loop content_callback header_callback (p\<lparr> mp_buf := drop 2 buf, mp_state := 1 \<rparr>) a
         else if prefix ''--'' buf then
           mp_loop content_callback header_callback (p\<lparr> mp_buf := [], mp_valid := True \<rparr>) a
         else Some (True, p, a)))"

definition mp_parse ::
  "mp_parser \<Rightarrow> string \<Rightarrow> 'a content_callback \<Rightarrow> 'a header_callback \<Rightarrow> 'a \<Rightarrow> (bool \<times> mp_parser \<times> 'a) option" where
  "mp_parse p d content_callback header_callback a =
     mp_loop content_callback header_callback (p\<lparr> mp_buf := mp_buf p @ d \<rparr>) a"

section \<open>The parser's buffer\<close>

text \<open>The characters of \<^verbatim>\<open>buf_\<close> and the positions of its unread part.\<close>

record mp_buffer =
  bf_text :: string
  bf_spos :: nat
  bf_epos :: nat

definition bf_size :: "mp_buffer \<Rightarrow> nat" where
  "bf_size b = bf_epos b - bf_spos b"

definition bf_start_with :: "string \<Rightarrow> nat \<Rightarrow> nat \<Rightarrow> string \<Rightarrow> bool" where
  "bf_start_with a spos epos b \<longleftrightarrow>
     length b \<le> epos - spos \<and> list_all (\<lambda>i. a ! (i + spos) = b ! i) [0..<length b]"

function bf_find_loop :: "mp_buffer \<Rightarrow> string \<Rightarrow> nat \<Rightarrow> nat" where
  "bf_find_loop b s off =
     (if off < bf_epos b then
        (case find_first (\<lambda>c. c = hd s) (take (bf_epos b) (bf_text b)) off of
           None \<Rightarrow> bf_size b
         | Some pos \<Rightarrow>
             if length s > bf_epos b - pos then bf_size b
             else if bf_start_with (bf_text b) pos (bf_epos b) s then pos - bf_spos b
             else bf_find_loop b s (pos + 1))
      else bf_size b)"
  by pat_completeness auto
termination
proof (relation "measure (\<lambda>(b, _, off). bf_epos b - off)", goal_cases)
  case (2 b s off pos)
  then show ?case using find_first_bounds [OF 2(2)] by auto
qed simp

declare bf_find_loop.simps [simp del]

definition bf_find :: "mp_buffer \<Rightarrow> string \<Rightarrow> nat" where
  "bf_find b s = bf_find_loop b s (bf_spos b)"

definition bf_head :: "mp_buffer \<Rightarrow> nat \<Rightarrow> string" where
  "bf_head b l = substr (bf_text b) (bf_spos b) l"

text \<open>The unread part moves to the front, the text grows when needed, the data follows.\<close>

definition bf_append :: "mp_buffer \<Rightarrow> string \<Rightarrow> mp_buffer" where
  "bf_append b d =
     (let n = bf_size b;
          t1 = (if n > 0 \<and> bf_spos b > 0
                then take n (drop (bf_spos b) (bf_text b)) @ drop n (bf_text b) else bf_text b);
          t2 = (if n + length d > length t1 then t1 @ replicate (n + length d - length t1) NUL else t1);
          t3 = take n t2 @ d @ drop (n + length d) t2
      in \<lparr> bf_text = t3, bf_spos = 0, bf_epos = n + length d \<rparr>)"

definition bf_erase :: "mp_buffer \<Rightarrow> nat \<Rightarrow> mp_buffer" where
  "bf_erase b n = b\<lparr> bf_spos := bf_spos b + n \<rparr>"

section \<open>Parsing a form in pieces\<close>

lemma buf_find_found: "find_sub buf s 0 = Some i \<Longrightarrow> buf_find buf s = i"
  by (simp add: buf_find_def)

lemma buf_find_prefix: "prefix d buf \<Longrightarrow> buf_find buf d = 0"
  by (rule buf_find_found, rule find_sub_SomeI) auto

text \<open>Occurrences in a text and in its extension.\<close>

lemma find_sub_extend: "find_sub b d 0 = Some i \<Longrightarrow> find_sub (b @ y) d 0 = Some i"
proof -
  assume s: "find_sub b d 0 = Some i"
  note f = find_sub_Some [OF s]
  show ?thesis
  proof (rule find_sub_SomeI)
    show "prefix d (drop i (b @ y))" using f by (auto simp: prefix_def)
    fix j assume j: "j < i"
    then have "\<not> prefix d (drop j b)" using find_sub_first [OF s, of j] by simp
    moreover have "length d \<le> length (drop j b)" using f(2) j by simp
    ultimately show "\<not> prefix d (drop j (b @ y))"
      using prefix_length_prefix [of d "drop j b @ y" "drop j b"] j f(2) by auto
  qed (use f in auto)
qed

lemma find_sub_restrict:
  assumes "find_sub (b @ y) d 0 = Some i" "i + length d \<le> length b"
  shows "find_sub b d 0 = Some i"
proof (cases "find_sub b d 0")
  case None
  have "prefix d (drop i (b @ y))" using find_sub_Some [OF assms(1)] by simp
  then have "prefix d (drop i b @ y)" using assms(2) by simp
  then have "prefix d (drop i b)"
    using assms(2) prefix_length_prefix [of d "drop i b @ y" "drop i b"] by auto
  then show ?thesis using find_sub_None [OF None, of i] assms(2) by simp
next
  case (Some j)
  then show ?thesis using find_sub_extend [OF Some, of y] assms(1) by simp
qed

lemma find_crlf_line:
  assumes "CR \<notin> set l"
  shows "find_sub (l @ CRLF @ x) CRLF 0 = Some (length l)"
proof (rule find_sub_SomeI)
  fix j assume "j < length l"
  then have "drop j (l @ CRLF @ x) = l ! j # drop (Suc j) l @ CRLF @ x"
    by (simp add: Cons_nth_drop_Suc [symmetric])
  then show "\<not> prefix CRLF (drop j (l @ CRLF @ x))" using assms \<open>j < length l\<close>
    by (auto simp: in_set_conv_nth)
qed auto

lemma find_crlf_partial:
  assumes "CR \<notin> set l" "prefix b (l @ [CR])"
  shows "find_sub b CRLF 0 = None"
proof (cases "find_sub b CRLF 0")
  case (Some i)
  from assms(2) obtain y where "l @ [CR] = b @ y" by (auto simp: prefix_def)
  then have "find_sub ((l @ [CR]) @ [LF]) CRLF 0 = Some i"
    using find_sub_extend [OF Some, of "y @ [LF]"] by simp
  then have "i = length l" using find_crlf_line [OF assms(1), of "[]"] by simp
  then show ?thesis using find_sub_Some(2) [OF Some] prefix_length_le [OF assms(2)] by simp
qed

fun mp_feed :: "'a content_callback \<Rightarrow> 'a header_callback \<Rightarrow> mp_parser \<Rightarrow> 'a \<Rightarrow> string list \<Rightarrow>
    (bool \<times> mp_parser \<times> 'a) option" where
  "mp_feed ccb hcb p a [] = Some (True, p, a)"
| "mp_feed ccb hcb p a (d # ds) =
     (case mp_parse p d ccb hcb a of
        None \<Rightarrow> None
      | Some (ok, p', a') \<Rightarrow> if ok then mp_feed ccb hcb p' a' ds else Some (False, p', a'))"

definition mp_cont :: "'a content_callback \<Rightarrow> 'a header_callback \<Rightarrow> mp_parser \<Rightarrow> 'a \<Rightarrow> string list \<Rightarrow>
    (bool \<times> mp_parser \<times> 'a) option" where
  "mp_cont ccb hcb p a ds =
     (case mp_loop ccb hcb p a of
        None \<Rightarrow> None
      | Some (ok, p', a') \<Rightarrow> if ok then mp_feed ccb hcb p' a' ds else Some (False, p', a'))"

lemma mp_feed_cont: "mp_feed ccb hcb p a (d # ds) = mp_cont ccb hcb (p\<lparr> mp_buf := mp_buf p @ d \<rparr>) a ds"
  by (simp add: mp_parse_def mp_cont_def)

lemma mp_cont_wait: "mp_loop ccb hcb p a = Some (True, p', a') \<Longrightarrow> mp_cont ccb hcb p a ds = mp_feed ccb hcb p' a' ds"
  by (simp add: mp_cont_def)

lemma mp_cont_step: "mp_loop ccb hcb p a = mp_loop ccb hcb p' a' \<Longrightarrow> mp_cont ccb hcb p a ds = mp_cont ccb hcb p' a' ds"
  by (simp add: mp_cont_def)

lemma mp_loop_empty: "mp_buf p = [] \<Longrightarrow> mp_loop ccb hcb p a = Some (True, p, a)"
  by (subst mp_loop.simps) simp

lemma mp_feed_nothing: "concat ds = [] \<Longrightarrow> mp_buf p = [] \<Longrightarrow> mp_feed ccb hcb p a ds = Some (True, p, a)"
proof (induction ds)
  case (Cons d ds)
  have "p\<lparr> mp_buf := mp_buf p @ d \<rparr> = p" using Cons.prems by (cases p) simp
  then have "mp_parse p d ccb hcb a = Some (True, p, a)"
    using Cons.prems(2) mp_loop_empty [of p ccb hcb a] by (simp only: mp_parse_def)
  then show ?case using Cons by simp
qed simp

lemma mp_tail:
  "mp_state p = 4 \<Longrightarrow> mp_valid p \<Longrightarrow> mp_buf p @ concat ds \<in> {CRLF, [LF], []} \<Longrightarrow>
   \<exists>p'. mp_cont ccb hcb p a ds = Some (True, p', a) \<and> mp_valid p'"
proof (induction ds arbitrary: p)
  case Nil
  show ?case
  proof (cases "mp_buf p = CRLF")
    case True
    let ?q = "p\<lparr> mp_buf := [], mp_state := 1 \<rparr>"
    have "mp_loop ccb hcb p a = mp_loop ccb hcb ?q a"
      using True Nil.prems(1) by (subst mp_loop.simps) (simp add: Let_def)
    then show ?thesis using Nil.prems(2) mp_loop_empty [of ?q ccb hcb a] by (simp add: mp_cont_def)
  next
    case False
    then have "mp_loop ccb hcb p a = Some (True, p, a)"
      using Nil.prems by (subst mp_loop.simps) (auto simp: Let_def)
    then show ?thesis using Nil.prems by (simp add: mp_cont_def)
  qed
next
  case (Cons d ds)
  show ?case
  proof (cases "mp_buf p = CRLF")
    case True
    let ?q = "p\<lparr> mp_buf := [], mp_state := 1 \<rparr>"
    have "mp_loop ccb hcb p a = mp_loop ccb hcb ?q a"
      using True Cons.prems(1) by (subst mp_loop.simps) (simp add: Let_def)
    moreover have "concat (d # ds) = []" using True Cons.prems(3) by auto
    ultimately have "mp_cont ccb hcb p a (d # ds) = Some (True, ?q, a)"
      using mp_loop_empty [of ?q ccb hcb a] mp_feed_nothing [of "d # ds" ?q ccb hcb a]
      by (simp add: mp_cont_def del: mp_feed.simps)
    then show ?thesis using Cons.prems(2) by auto
  next
    case False
    then have "length (mp_buf p) < 2" using Cons.prems(3) by (cases "mp_buf p") (auto simp: append_eq_Cons_conv)
    then have "mp_loop ccb hcb p a = Some (True, p, a)"
      using Cons.prems(1) by (subst mp_loop.simps) (auto simp: Let_def)
    then have "mp_cont ccb hcb p a (d # ds) = mp_cont ccb hcb (p\<lparr> mp_buf := mp_buf p @ d \<rparr>) a ds"
      by (simp add: mp_cont_wait mp_feed_cont del: mp_feed.simps)
    then show ?thesis using Cons.IH [of "p\<lparr> mp_buf := mp_buf p @ d \<rparr>"] Cons.prems by simp
  qed
qed

lemma mp_close:
  "mp_state p = 4 \<Longrightarrow> mp_buf p @ concat ds = ''--'' @ CRLF \<Longrightarrow>
   \<exists>p'. mp_cont ccb hcb p a ds = Some (True, p', a) \<and> mp_valid p'"
proof (induction ds arbitrary: p)
  case Nil
  then have "mp_loop ccb hcb p a = mp_loop ccb hcb (p\<lparr> mp_buf := [], mp_valid := True \<rparr>) a"
    by (subst mp_loop.simps) (simp add: Let_def)
  then show ?case using mp_tail [of "p\<lparr> mp_buf := [], mp_valid := True \<rparr>" "[]"] Nil mp_cont_step by fastforce
next
  case (Cons d ds)
  show ?case
  proof (cases "length (mp_buf p) < 2")
    case True
    then have "mp_loop ccb hcb p a = Some (True, p, a)"
      using Cons.prems(1) by (subst mp_loop.simps) (auto simp: Let_def)
    then have "mp_cont ccb hcb p a (d # ds) = mp_cont ccb hcb (p\<lparr> mp_buf := mp_buf p @ d \<rparr>) a ds"
      by (simp add: mp_cont_wait mp_feed_cont del: mp_feed.simps)
    then show ?thesis using Cons.IH [of "p\<lparr> mp_buf := mp_buf p @ d \<rparr>"] Cons.prems by simp
  next
    case False
    then obtain x where x: "mp_buf p = ''--'' @ x" "x @ concat (d # ds) = CRLF"
      using Cons.prems(2) by (cases "mp_buf p"; cases "tl (mp_buf p)") auto
    let ?q = "p\<lparr> mp_buf := [], mp_valid := True \<rparr>"
    have "mp_loop ccb hcb p a = mp_loop ccb hcb ?q a"
      using x Cons.prems(1) by (subst mp_loop.simps) (simp add: Let_def)
    moreover have "concat (d # ds) \<in> {CRLF, [LF], []}"
      using x(2) by (cases x; cases "tl x") (auto simp: Cons_eq_append_conv)
    ultimately show ?thesis using mp_tail [of ?q "d # ds" ccb hcb a] Cons.prems(1) mp_cont_step [of ccb hcb p a ?q a] by simp
  qed
qed

lemma append_cut:
  assumes "xs @ ys = us @ vs" "length us \<le> length xs"
  obtains z where "xs = us @ z" "vs = z @ ys"
  using assms by (auto simp: append_eq_append_conv2)

lemma find_sub_drop:
  assumes "find_sub s d 0 = Some i" "k \<le> i"
  shows "find_sub (drop k s) d 0 = Some (i - k)"
proof (rule find_sub_SomeI)
  fix j assume "j < i - k"
  then have "\<not> prefix d (drop (k + j) s)" using find_sub_first [OF assms(1), of "k + j"] by simp
  then show "\<not> prefix d (drop j (drop k s))" by (simp add: add.commute)
qed (use find_sub_Some [OF assms(1)] assms(2) in auto)

lemma mp_delims [simp]:
  "crlf_dash_boundary (p\<lparr> mp_buf := b \<rparr>) = crlf_dash_boundary p"
  "crlf_dash_boundary (p\<lparr> mp_state := k \<rparr>) = crlf_dash_boundary p"
  "crlf_dash_boundary (p\<lparr> mp_file := m \<rparr>) = crlf_dash_boundary p"
  "0 < length (crlf_dash_boundary p)" "crlf_dash_boundary p \<noteq> []"
  by (simp_all add: crlf_dash_boundary_def)

lemma mp_loop_body:
  assumes "mp_state p = 3"
  shows "length (mp_buf p) < length (crlf_dash_boundary p) \<Longrightarrow> mp_loop ccb hcb p a = Some (True, p, a)"
    "find_sub (mp_buf p) (crlf_dash_boundary p) 0 = Some i \<Longrightarrow> ccb a (take i (mp_buf p)) = (True, a') \<Longrightarrow>
      mp_loop ccb hcb p a = mp_loop ccb hcb
        (p\<lparr> mp_buf := drop (i + length (crlf_dash_boundary p)) (mp_buf p), mp_state := 4 \<rparr>) a'"
    "length (crlf_dash_boundary p) < length (mp_buf p) \<Longrightarrow>
      find_sub (mp_buf p) (crlf_dash_boundary p) 0 = None \<Longrightarrow>
      ccb a (take (length (mp_buf p) - length (crlf_dash_boundary p)) (mp_buf p)) = (True, a') \<Longrightarrow>
      mp_loop ccb hcb p a = Some (True,
        p\<lparr> mp_buf := drop (length (mp_buf p) - length (crlf_dash_boundary p)) (mp_buf p) \<rparr>, a')"
    "length (crlf_dash_boundary p) = length (mp_buf p) \<Longrightarrow>
      find_sub (mp_buf p) (crlf_dash_boundary p) 0 = None \<Longrightarrow> mp_loop ccb hcb p a = Some (True, p, a)"
proof -
  let ?d = "crlf_dash_boundary p"
  show "length (mp_buf p) < length ?d \<Longrightarrow> mp_loop ccb hcb p a = Some (True, p, a)"
    using assms by (subst mp_loop.simps) (simp add: Let_def)
  show "mp_loop ccb hcb p a = mp_loop ccb hcb (p\<lparr> mp_buf := drop (i + length ?d) (mp_buf p), mp_state := 4 \<rparr>) a'"
    if s: "find_sub (mp_buf p) ?d 0 = Some i" and c: "ccb a (take i (mp_buf p)) = (True, a')"
  proof -
    have "i + length ?d \<le> length (mp_buf p)" using find_sub_Some(2) [OF s] .
    then have "\<not> length (mp_buf p) < length ?d" "i < length (mp_buf p)" "mp_buf p \<noteq> []"
      using mp_delims(4) [of p] by (simp, linarith, auto)
    then show ?thesis using assms s c by (subst mp_loop.simps) (simp add: Let_def buf_find_def)
  qed
  show "mp_loop ccb hcb p a = Some (True, p\<lparr> mp_buf := drop (length (mp_buf p) - length ?d) (mp_buf p) \<rparr>, a')"
    if "length ?d < length (mp_buf p)" "find_sub (mp_buf p) ?d 0 = None"
      "ccb a (take (length (mp_buf p) - length ?d) (mp_buf p)) = (True, a')"
    using assms that by (subst mp_loop.simps) (auto simp: Let_def buf_find_def)
  show "length ?d = length (mp_buf p) \<Longrightarrow> find_sub (mp_buf p) ?d 0 = None \<Longrightarrow>
      mp_loop ccb hcb p a = Some (True, p, a)"
    using assms by (subst mp_loop.simps) (simp add: Let_def buf_find_def)
qed

lemma mp_body_found:
  assumes ccb: "\<And>a x. ccb a x = (True, f a x)" and "mp_state p = 3"
    and eq: "mp_buf p @ concat ds = c @ crlf_dash_boundary p @ ''--'' @ CRLF"
    and s: "find_sub (mp_buf p) (crlf_dash_boundary p) 0 = Some (length c)"
  shows "\<exists>p' es. mp_cont ccb hcb p a ds = Some (True, p', foldl f a es) \<and> mp_valid p' \<and> concat es = c \<and> es \<noteq> []"
proof -
  let ?d = "crlf_dash_boundary p"
  have eq2: "mp_buf p @ concat ds = (c @ ?d) @ ''--'' @ CRLF" using eq by simp
  have "length (c @ ?d) \<le> length (mp_buf p)" using find_sub_Some(2) [OF s] by simp
  from append_cut [OF eq2 this] obtain z where z: "mp_buf p = (c @ ?d) @ z" "''--'' @ CRLF = z @ concat ds" .
  let ?q = "p\<lparr> mp_buf := drop (length c + length ?d) (mp_buf p), mp_state := 4 \<rparr>"
  have "ccb a (take (length c) (mp_buf p)) = (True, f a c)" using ccb z(1) by simp
  from mp_cont_step [OF mp_loop_body(2) [where ccb = ccb and hcb = hcb and a = a and a' = "f a c", OF assms(2) s this]]
  have st: "mp_cont ccb hcb p a ds = mp_cont ccb hcb ?q (f a c) ds" .
  have "mp_state ?q = 4" "mp_buf ?q @ concat ds = ''--'' @ CRLF" using z by simp_all
  from mp_close [OF this, where ccb = ccb and hcb = hcb and a = "f a c"] obtain p' where "mp_cont ccb hcb ?q (f a c) ds = Some (True, p', f a c)" "mp_valid p'"
    by blast
  then show ?thesis using st by (intro exI [of _ p'] exI [of _ "[c]"]) simp
qed

text \<open>Without a delimiter in the buffer the loop delivers at most a prefix of the content, and keeps the rest.\<close>

lemma mp_body_wait:
  assumes ccb: "\<And>a x. ccb a x = (True, f a x)"
    and st: "mp_state p = 3" and none: "find_sub (mp_buf p) (crlf_dash_boundary p) 0 = None"
    and whole: "find_sub (mp_buf p @ rest) (crlf_dash_boundary p) 0 = Some n"
  shows "\<exists>k es. mp_loop ccb hcb p a = Some (True, p\<lparr> mp_buf := drop k (mp_buf p) \<rparr>, foldl f a es) \<and>
    concat es = take k (mp_buf p) \<and> k \<le> n \<and> k \<le> length (mp_buf p)"
proof (cases "length (crlf_dash_boundary p) < length (mp_buf p)")
  case True
  let ?len = "length (mp_buf p) - length (crlf_dash_boundary p)"
  have "?len < n"
  proof (rule ccontr)
    assume "\<not> ?len < n"
    then have "n + length (crlf_dash_boundary p) \<le> length (mp_buf p)" using True by simp
    from find_sub_restrict [OF whole this] none show False by simp
  qed
  moreover have "mp_loop ccb hcb p a = Some (True, p\<lparr> mp_buf := drop ?len (mp_buf p) \<rparr>, foldl f a [take ?len (mp_buf p)])"
    using mp_loop_body(3) [where ccb = ccb and hcb = hcb and a = a, OF st True none ccb] by simp
  ultimately show ?thesis by (intro exI [of _ ?len] exI [of _ "[take ?len (mp_buf p)]"]) simp
next
  case False
  then have "mp_loop ccb hcb p a = Some (True, p, a)"
    using mp_loop_body(1,4) [OF st, of ccb hcb a] none by (cases "length (mp_buf p) < length (crlf_dash_boundary p)") auto
  then show ?thesis by (intro exI [of _ 0] exI [of _ "[]"]) simp
qed

lemma mp_body:
  assumes ccb: "\<And>a x. ccb a x = (True, f a x)"
  shows "mp_state p = 3 \<Longrightarrow> mp_buf p @ concat ds = c @ crlf_dash_boundary p @ ''--'' @ CRLF \<Longrightarrow>
    find_sub (c @ crlf_dash_boundary p) (crlf_dash_boundary p) 0 = Some (length c) \<Longrightarrow>
    \<exists>p' es. mp_cont ccb hcb p a ds = Some (True, p', foldl f a es) \<and> mp_valid p' \<and> concat es = c \<and> es \<noteq> []"
proof (induction ds arbitrary: p c a)
  case Nil
  have "find_sub (mp_buf p) (crlf_dash_boundary p) 0 = Some (length c)"
    using find_sub_extend [OF Nil.prems(3), of "''--'' @ CRLF"] Nil.prems(2) by simp
  from mp_body_found [of ccb f, OF ccb Nil.prems(1,2) this] show ?case .
next
  case (Cons x ds)
  let ?d = "crlf_dash_boundary p" and ?b = "mp_buf p"
  have whole: "find_sub (?b @ concat (x # ds)) ?d 0 = Some (length c)"
    using find_sub_extend [OF Cons.prems(3), of "''--'' @ CRLF"] Cons.prems(2) by simp
  show ?case
  proof (cases "find_sub ?b ?d 0")
    case (Some i)
    then have "i = length c" using find_sub_extend [OF Some, of "concat (x # ds)"] whole by simp
    with Some mp_body_found [of ccb f, OF ccb Cons.prems(1,2)] show ?thesis by simp
  next
    case None
    from mp_body_wait [of ccb f, OF ccb Cons.prems(1) None whole] obtain k es0 where
      l: "mp_loop ccb hcb p a = Some (True, p\<lparr> mp_buf := drop k ?b \<rparr>, foldl f a es0)"
      and k: "concat es0 = take k ?b" "k \<le> length c" "k \<le> length ?b" by blast
    let ?q = "p\<lparr> mp_buf := drop k ?b @ x \<rparr>"
    have "take k (?b @ concat (x # ds)) = take k (c @ ?d @ ''--'' @ CRLF)"
      "drop k (?b @ concat (x # ds)) = drop k (c @ ?d @ ''--'' @ CRLF)" by (simp_all only: Cons.prems(2))
    then have tk: "take k ?b = take k c" and "(drop k ?b @ x) @ concat ds = drop k c @ ?d @ ''--'' @ CRLF"
      using k(2,3) by simp_all
    moreover have "find_sub (drop k c @ ?d) ?d 0 = Some (length (drop k c))"
      using find_sub_drop [OF Cons.prems(3) k(2)] k(2) by simp
    ultimately obtain p' es where e: "mp_cont ccb hcb ?q (foldl f a es0) ds = Some (True, p', foldl f (foldl f a es0) es)"
      "mp_valid p'" "concat es = drop k c" "es \<noteq> []"
      using Cons.IH [of ?q "drop k c" "foldl f a es0"] Cons.prems(1) by auto
    have "mp_cont ccb hcb p a (x # ds) = mp_cont ccb hcb ?q (foldl f a es0) ds"
      using l by (simp add: mp_cont_wait mp_feed_cont del: mp_feed.simps)
    moreover have "concat (es0 @ es) = c" using e(3) k(1) tk by simp
    ultimately show ?thesis using e(1,2,4) by (intro exI [of _ p'] exI [of _ "es0 @ es"]) simp
  qed
qed

definition header_lines :: "string list \<Rightarrow> string" where
  "header_lines ls = concat (map (\<lambda>l. l @ CRLF) ls)"

fun mp_header_fields :: "string list \<Rightarrow> MultipartFormData \<Rightarrow> MultipartFormData option" where
  "mp_header_fields [] file = Some file"
| "mp_header_fields (l # ls) file =
     (case mp_header_field l file of None \<Rightarrow> None | Some f \<Rightarrow> mp_header_fields ls f)"

definition line_ok :: "string \<Rightarrow> bool" where
  "line_ok l \<longleftrightarrow> l \<noteq> [] \<and> CR \<notin> set l \<and> length l < HEADER_MAX_LENGTH"

text \<open>A buffer that ends inside the line \<open>l\<close>.\<close>

lemma partial_line:
  assumes "b @ y = l @ CRLF @ z" "length b < length l + 2"
  shows "prefix b (l @ [CR])"
proof -
  have "(l @ [CR]) @ LF # z = b @ y" using assms(1) by simp
  then have "prefix b ((l @ [CR]) @ LF # z)" by (rule prefixI)
  from prefix_length_prefix [OF this, of "l @ [CR]"] show ?thesis using assms(2) by simp
qed

lemma mp_headers_run:
  assumes hcb: "\<And>a m. hcb a m = (True, h a m)"
  shows "mp_buf p @ y = header_lines ls @ CRLF @ r \<Longrightarrow> list_all line_ok ls \<Longrightarrow>
    mp_header_fields ls (mp_file p) = Some m \<Longrightarrow>
    (\<exists>p'. mp_headers hcb p a = (HdrDone, p', h a m) \<and> mp_state p' = 3 \<and> mp_boundary p' = mp_boundary p \<and>
       mp_buf p' @ y = r) \<or>
    (\<exists>p' ls'. mp_headers hcb p a = (HdrMore, p', a) \<and> mp_state p' = mp_state p \<and> mp_boundary p' = mp_boundary p \<and>
       mp_buf p' @ y = header_lines ls' @ CRLF @ r \<and> list_all line_ok ls' \<and>
       mp_header_fields ls' (mp_file p') = Some m \<and> y \<noteq> [])"
proof (induction ls arbitrary: p)
  case Nil
  then have eq: "mp_buf p @ y = [] @ CRLF @ r" by (simp add: header_lines_def)
  show ?case
  proof (cases "length (mp_buf p) < 2")
    case True
    have "prefix (mp_buf p) ([] @ [CR])" by (rule partial_line [OF eq]) (use True in simp)
    then have "find_sub (mp_buf p) CRLF 0 = None" by (intro find_crlf_partial [of "[]"]) auto
    then have "mp_headers hcb p a = (HdrMore, p, a)"
      by (simp add: mp_headers.simps [of hcb p] Let_def buf_find_def)
    moreover have "y \<noteq> []" using eq True by auto
    ultimately show ?thesis using Nil by blast
  next
    case False
    have "mp_buf p @ y = CRLF @ r" using eq by simp
    from append_cut [OF this] False obtain z where z: "mp_buf p = CRLF @ z" "r = z @ y" by auto
    then have "buf_find (mp_buf p) CRLF = 0" by (intro buf_find_prefix) simp
    then have "mp_headers hcb p a = (HdrDone, p\<lparr> mp_buf := z, mp_state := 3 \<rparr>, h a m)"
      using z hcb Nil.prems(3) by (simp add: mp_headers.simps [of hcb p] Let_def)
    then show ?thesis using z by (intro disjI1 exI [of _ "p\<lparr> mp_buf := z, mp_state := 3 \<rparr>"]) simp
  qed
next
  case (Cons l ls)
  have l: "l \<noteq> []" "CR \<notin> set l" using Cons.prems(2) by (simp_all add: line_ok_def)
  have eq: "mp_buf p @ y = l @ CRLF @ (header_lines ls @ CRLF @ r)"
    using Cons.prems(1) by (simp add: header_lines_def)
  show ?case
  proof (cases "length (mp_buf p) < length l + 2")
    case True
    have "prefix (mp_buf p) (l @ [CR])" by (rule partial_line [OF eq True])
    then have "find_sub (mp_buf p) CRLF 0 = None" by (rule find_crlf_partial [OF l(2)])
    then have "mp_headers hcb p a = (HdrMore, p, a)"
      by (simp add: mp_headers.simps [of hcb p] Let_def buf_find_def)
    moreover have "y \<noteq> []" using eq True by auto
    ultimately show ?thesis using Cons.prems by blast
  next
    case False
    have "mp_buf p @ y = (l @ CRLF) @ (header_lines ls @ CRLF @ r)" using eq by simp
    from append_cut [OF this] False obtain z where z: "mp_buf p = l @ CRLF @ z" "header_lines ls @ CRLF @ r = z @ y" by auto
    obtain f where f: "mp_header_field l (mp_file p) = Some f" "mp_header_fields ls f = Some m"
      using Cons.prems(3) by (auto split: option.splits)
    let ?q = "p\<lparr> mp_file := f, mp_buf := z \<rparr>"
    have "buf_find (mp_buf p) CRLF = length l" using find_crlf_line [OF l(2), of z] z(1) by (simp add: buf_find_def)
    then have "mp_headers hcb p a = mp_headers hcb ?q a"
      using z(1) l(1) f(1) by (simp add: mp_headers.simps [of hcb p] Let_def)
    then show ?thesis using Cons.IH [of ?q] z(2) f(2) Cons.prems(2) by simp
  qed
qed

lemma mp_first_line_short:
  assumes "mp_buf p @ y = header_lines ls @ CRLF @ r" "list_all line_ok ls"
  shows "buf_find (mp_buf p) CRLF \<le> HEADER_MAX_LENGTH"
proof -
  obtain l z where lz: "header_lines ls @ CRLF @ r = l @ CRLF @ z" "CR \<notin> set l" "length l < HEADER_MAX_LENGTH"
  proof (cases ls)
    case Nil
    then show ?thesis using that [of "[]" r] by (simp add: header_lines_def)
  next
    case (Cons l ls')
    then show ?thesis using that [of l "header_lines ls' @ CRLF @ r"] assms(2)
      by (simp add: header_lines_def line_ok_def)
  qed
  show ?thesis
  proof (cases "length (mp_buf p) < length l + 2")
    case True
    then show ?thesis using find_crlf_partial [OF lz(2) partial_line [OF assms(1) [unfolded lz(1)] True]] lz(3)
      by (simp add: buf_find_def)
  next
    case False
    have "mp_buf p @ y = (l @ CRLF) @ z" using assms(1) lz(1) by simp
    from append_cut [OF this] False obtain z' where "mp_buf p = l @ CRLF @ z'" by auto
    then show ?thesis using find_crlf_line [OF lz(2), of z'] lz(3) by (simp add: buf_find_def)
  qed
qed

lemma mp_head:
  assumes ccb: "\<And>a x. ccb a x = (True, f a x)" and hcb: "\<And>a m. hcb a m = (True, h a m)"
    and uniq: "find_sub (c @ CRLF @ ''--'' @ b) (CRLF @ ''--'' @ b) 0 = Some (length c)"
  shows "mp_state p = 2 \<Longrightarrow> mp_boundary p = b \<Longrightarrow> list_all line_ok ls \<Longrightarrow>
    mp_header_fields ls (mp_file p) = Some m \<Longrightarrow>
    mp_buf p @ concat ds = header_lines ls @ CRLF @ c @ (CRLF @ ''--'' @ b) @ ''--'' @ CRLF \<Longrightarrow>
    \<exists>p' es. mp_cont ccb hcb p a ds = Some (True, p', foldl f (h a m) es) \<and> mp_valid p' \<and> concat es = c \<and> es \<noteq> []"
proof (induction ds arbitrary: p ls)
  case Nil
  note run = mp_headers_run [of hcb h, OF hcb Nil.prems(5,3,4), of a]
  from run obtain p1 where p1: "mp_headers hcb p a = (HdrDone, p1, h a m)" "mp_state p1 = 3" "mp_boundary p1 = b"
    "mp_buf p1 @ concat [] = c @ (CRLF @ ''--'' @ b) @ ''--'' @ CRLF" using Nil.prems(2) by auto
  have "mp_buf p \<noteq> []" using Nil.prems(5) by auto
  then have st: "mp_loop ccb hcb p a = mp_loop ccb hcb p1 (h a m)"
    using Nil.prems(1) p1(1) mp_first_line_short [OF Nil.prems(5,3)] by (subst mp_loop.simps) (simp add: Let_def)
  have d: "crlf_dash_boundary p1 = CRLF @ ''--'' @ b" using p1(3) by (simp add: crlf_dash_boundary_def)
  show ?case unfolding mp_cont_step [OF st] by (rule mp_body [of ccb f, OF ccb p1(2)]) (use p1(4) uniq d in simp_all)
next
  case (Cons x ds)
  note run = mp_headers_run [of hcb h, OF hcb Cons.prems(5,3,4), of a]
  show ?case
  proof (cases "mp_buf p = []")
    case True
    then show ?thesis using mp_loop_empty [OF True, of ccb hcb a] Cons.IH [of "p\<lparr> mp_buf := mp_buf p @ x \<rparr>" ls] Cons.prems
      by (simp add: mp_cont_wait mp_feed_cont del: mp_feed.simps)
  next
    case False
    note unfold = mp_loop.simps [of ccb hcb p a] Let_def
    from run show ?thesis
    proof (elim disjE exE conjE)
      fix p1 assume p1: "mp_headers hcb p a = (HdrDone, p1, h a m)" "mp_state p1 = 3" "mp_boundary p1 = mp_boundary p"
        "mp_buf p1 @ concat (x # ds) = c @ (CRLF @ ''--'' @ b) @ ''--'' @ CRLF"
      have st: "mp_loop ccb hcb p a = mp_loop ccb hcb p1 (h a m)"
        using Cons.prems(1) p1(1) False mp_first_line_short [OF Cons.prems(5,3)] by (simp add: unfold)
      have d: "crlf_dash_boundary p1 = CRLF @ ''--'' @ b" using p1(3) Cons.prems(2) by (simp add: crlf_dash_boundary_def)
      show ?thesis unfolding mp_cont_step [OF st]
        by (rule mp_body [of ccb f, OF ccb p1(2)]) (use p1(4) uniq d in simp_all)
    next
      fix p1 ls' assume p1: "mp_headers hcb p a = (HdrMore, p1, a)" "mp_state p1 = mp_state p"
        "mp_boundary p1 = mp_boundary p" "list_all line_ok ls'" "mp_header_fields ls' (mp_file p1) = Some m"
        "mp_buf p1 @ concat (x # ds) = header_lines ls' @ CRLF @ c @ (CRLF @ ''--'' @ b) @ ''--'' @ CRLF"
      have "mp_loop ccb hcb p a = Some (True, p1, a)"
        using Cons.prems(1) p1(1) False mp_first_line_short [OF Cons.prems(5,3)] by (simp add: unfold)
      then have "mp_cont ccb hcb p a (x # ds) = mp_cont ccb hcb (p1\<lparr> mp_buf := mp_buf p1 @ x \<rparr>) a ds"
        by (simp add: mp_cont_wait mp_feed_cont del: mp_feed.simps)
      then show ?thesis using Cons.IH [of "p1\<lparr> mp_buf := mp_buf p1 @ x \<rparr>" ls'] Cons.prems p1 by simp
    qed
  qed
qed

lemma mp_headers_shrink: "length (mp_buf (fst (snd (mp_headers hcb p a)))) \<le> length (mp_buf p) \<and>
    (fst (mp_headers hcb p a) = HdrDone \<longrightarrow>
       length (mp_buf (fst (snd (mp_headers hcb p a)))) < length (mp_buf p) \<and> mp_state (fst (snd (mp_headers hcb p a))) = 3)"
proof (induction hcb p a rule: mp_headers.induct)
  case (1 hcb p a)
  show ?case
  proof (cases "buf_find (mp_buf p) CRLF < length (mp_buf p) \<and> buf_find (mp_buf p) CRLF \<noteq> 0")
    case True
    then show ?thesis using 1 [OF refl refl]
      by (subst (1 2 3 4) mp_headers.simps) (auto simp: Let_def split: option.splits)
  next
    case False
    then show ?thesis
      by (subst (1 2 3 4) mp_headers.simps) (auto simp: Let_def split: prod.splits)
  qed
qed

definition mp_weight :: "mp_parser \<Rightarrow> nat" where
  "mp_weight p = 2 * length (mp_buf p) + (if mp_state p = 1 then 1 else 0)"

lemma mp_loop_total: "mp_loop ccb hcb p a \<noteq> None"
proof (induction "mp_weight p" arbitrary: p a rule: less_induct)
  case less
  have sub: "mp_loop ccb hcb q b \<noteq> None" if "mp_weight q < mp_weight p" for q b using less that by blast
  have sub': "\<exists>y z w. mp_loop ccb hcb q b = Some (y, z, w)" if "mp_weight q < mp_weight p" for q b 
    using sub [OF that, of b] by (cases "mp_loop ccb hcb q b") auto
  consider "mp_buf p = []" | "mp_buf p \<noteq> []" "mp_state p = 0" | "mp_buf p \<noteq> []" "mp_state p = 1"
    | "mp_buf p \<noteq> []" "mp_state p = 2" | "mp_buf p \<noteq> []" "mp_state p = 3"
    | "mp_buf p \<noteq> []" "mp_state p \<notin> {0, 1, 2, 3}" by auto
  then show ?case
  proof cases
    case 2
    then show ?thesis by (subst mp_loop.simps) (auto simp: Let_def intro!: sub', auto simp: mp_weight_def dash_boundary_crlf_def)
  next
    case 3
    then show ?thesis by (subst mp_loop.simps) (auto simp: Let_def mp_weight_def intro!: sub')
  next
    case 4
    obtain r q b where h: "mp_headers hcb p a = (r, q, b)" by (cases "mp_headers hcb p a") auto
    show ?thesis using 4 h mp_headers_shrink [of hcb p a]
      by (cases r; subst mp_loop.simps) (auto simp: Let_def mp_weight_def intro!: sub')
  next
    case 5
    then show ?thesis using mp_delims(4) [of p]
      by (subst mp_loop.simps) (auto simp: Let_def mp_weight_def intro!: sub' split: prod.splits)
  next
    case 6
    then show ?thesis
      by (subst mp_loop.simps) (auto simp: Let_def mp_weight_def intro!: sub')
  qed (simp add: mp_loop_empty)
qed

text \<open>
  C36. The parser always returns: every call of \<^verbatim>\<open>parse\<close>, on any parser state, any data and any
  callbacks, ends with a result.
\<close>

theorem mp_parse_returns: "\<exists>ok p' a'. mp_parse p d ccb hcb a = Some (ok, p', a')"
  using mp_loop_total [of ccb hcb "p\<lparr> mp_buf := mp_buf p @ d \<rparr>" a] by (auto simp: mp_parse_def)

definition multipart_body :: "string \<Rightarrow> string list \<Rightarrow> string \<Rightarrow> string" where
  "multipart_body b ls c =
     ''--'' @ b @ CRLF @ header_lines ls @ CRLF @ c @ (CRLF @ ''--'' @ b) @ ''--'' @ CRLF"

lemma mp_open:
  assumes "prefix (''--'' @ b @ CRLF) d"
  shows "mp_cont ccb hcb (mp_init b\<lparr> mp_buf := d \<rparr>) a ds = mp_cont ccb hcb
     (mp_init b\<lparr> mp_buf := drop (length (''--'' @ b @ CRLF)) d, mp_state := 1 \<rparr>) a ds"
proof (rule mp_cont_step)
  let ?p = "mp_init b\<lparr> mp_buf := d \<rparr>"
  have "buf_find d (''--'' @ b @ CRLF) = 0" by (rule buf_find_prefix [OF assms])
  moreover have "d \<noteq> []" using assms by auto
  moreover have "\<not> length d < length (''--'' @ b @ CRLF)" using prefix_length_le [OF assms] by simp
  ultimately show "mp_loop ccb hcb ?p a = mp_loop ccb hcb (mp_init b\<lparr> mp_buf := drop (length (''--'' @ b @ CRLF)) d, mp_state := 1 \<rparr>) a"
    using assms by (subst mp_loop.simps) (simp add: Let_def dash_boundary_crlf_def mp_init_def)
qed


lemma mp_loop_part:
  assumes "mp_buf p \<noteq> []" "mp_state p = 1" "mp_file p = MultipartFormData_default"
  shows "mp_loop ccb hcb p a = mp_loop ccb hcb (p\<lparr> mp_state := 2 \<rparr>) a"
proof -
  have "p\<lparr> mp_file := (mp_file p)\<lparr> mfd_name := [], mfd_filename := [], mfd_content_type := [] \<rparr>,
      mp_state := 2 \<rparr> = p\<lparr> mp_state := 2 \<rparr>"
    using assms(3) by (cases p) (simp add: MultipartFormData_default_def)
  then show ?thesis using assms(1,2) by (subst mp_loop.simps) (simp add: Let_def)
qed

lemma mp_part_start:
  assumes ccb: "\<And>a x. ccb a x = (True, f a x)" and hcb: "\<And>a m. hcb a m = (True, h a m)"
    and uniq: "find_sub (c @ CRLF @ ''--'' @ b) (CRLF @ ''--'' @ b) 0 = Some (length c)"
    and ls: "list_all line_ok ls" "mp_header_fields ls MultipartFormData_default = Some m"
  shows "mp_state p = 1 \<Longrightarrow> mp_boundary p = b \<Longrightarrow> mp_file p = MultipartFormData_default \<Longrightarrow>
    mp_buf p @ concat ds = header_lines ls @ CRLF @ c @ (CRLF @ ''--'' @ b) @ ''--'' @ CRLF \<Longrightarrow>
    \<exists>p' es. mp_cont ccb hcb p a ds = Some (True, p', foldl f (h a m) es) \<and> mp_valid p' \<and> concat es = c \<and> es \<noteq> []"
proof (induction ds arbitrary: p)
  case (Cons d ds)
  show ?case
  proof (cases "mp_buf p = []")
    case True
    then show ?thesis using mp_loop_empty [OF True, of ccb hcb a] Cons.IH [of "p\<lparr> mp_buf := mp_buf p @ d \<rparr>"] Cons.prems
      by (simp add: mp_cont_wait mp_feed_cont del: mp_feed.simps)
  next
    case False
    let ?q = "p\<lparr> mp_state := 2 \<rparr>"
    have "mp_loop ccb hcb p a = mp_loop ccb hcb ?q a" by (rule mp_loop_part [OF False Cons.prems(1,3)])
    from mp_cont_step [OF this] show ?thesis
      using mp_head [of ccb f hcb h, OF ccb hcb uniq, of ?q ls m "d # ds" a] ls Cons.prems by simp
  qed
next
  case Nil
  let ?q = "p\<lparr> mp_state := 2 \<rparr>"
  have "mp_loop ccb hcb p a = mp_loop ccb hcb ?q a" by (rule mp_loop_part) (use Nil.prems in auto)
  from mp_cont_step [OF this] show ?case
    using mp_head [of ccb f hcb h, OF ccb hcb uniq, of ?q ls m "[]" a] ls Nil.prems by simp
qed

lemma multipart_parsed:
  assumes ccb: "\<And>a x. ccb a x = (True, f a x)" and hcb: "\<And>a m. hcb a m = (True, h a m)"
    and first: "prefix (''--'' @ b @ CRLF) d"
    and all: "concat (d # ds) = multipart_body b ls c"
    and ls: "list_all line_ok ls" "mp_header_fields ls MultipartFormData_default = Some m"
    and uniq: "find_sub (c @ CRLF @ ''--'' @ b) (CRLF @ ''--'' @ b) 0 = Some (length c)"
  shows "\<exists>p' es. mp_feed ccb hcb (mp_init b) a (d # ds) = Some (True, p', foldl f (h a m) es) \<and>
    mp_valid p' \<and> concat es = c \<and> es \<noteq> []"
proof -
  from first obtain e where e: "d = (''--'' @ b @ CRLF) @ e" by (auto simp: prefix_def)
  let ?p = "mp_init b\<lparr> mp_buf := e, mp_state := 1 \<rparr>"
  have "mp_feed ccb hcb (mp_init b) a (d # ds) = mp_cont ccb hcb ?p a ds"
    using mp_open [OF first, of ccb hcb a ds] e
    by (simp add: mp_feed_cont mp_init_def del: mp_feed.simps)
  moreover have "mp_buf ?p @ concat ds = header_lines ls @ CRLF @ c @ (CRLF @ ''--'' @ b) @ ''--'' @ CRLF"
    using all e by (simp add: multipart_body_def)
  ultimately show ?thesis
    using mp_part_start [of ccb f hcb h, OF ccb hcb uniq ls, of ?p ds a] by (simp add: mp_init_def)
qed

text \<open>
  C10. A well-formed form with one part, cut into network reads at any places after its opening
  delimiter, is parsed completely: the header callback runs once with the fields of the part,
  the content callback then receives pieces whose concatenation is exactly the content of the
  part, and the parser reports a valid body.
\<close>

theorem multipart_round_trip:
  assumes ccb: "\<And>a x. ccb a x = (True, f a x)" and hcb: "\<And>a m. hcb a m = (True, h a m)"
    and first: "prefix (''--'' @ b @ CRLF) d"
    and all: "concat (d # ds) = multipart_body b ls c"
    and ls: "list_all line_ok ls" "mp_header_fields ls MultipartFormData_default = Some m"
    and uniq: "find_sub (c @ CRLF @ ''--'' @ b) (CRLF @ ''--'' @ b) 0 = Some (length c)"
  shows "\<exists>p' es. mp_feed ccb hcb (mp_init b) a (d # ds) = Some (True, p', foldl f (h a m) es) \<and>
    mp_valid p' \<and> concat es = c \<and> es \<noteq> []"
  using assms by (rule multipart_parsed)

text \<open>
  A first read that ends inside the opening delimiter is thrown away: the parser returns to its
  initial state with success and without having kept a byte of it.
\<close>

lemma split_opening_boundary_lost:
  assumes "d \<noteq> []" "length d < length (''--'' @ b @ CRLF)"
  shows "mp_parse (mp_init b) d ccb hcb a = Some (True, mp_init b, a)"
proof -
  have "find_sub d (''--'' @ b @ CRLF) 0 = None"
    using find_sub_Some(2) [of d "''--'' @ b @ CRLF" 0] assms(2) by (cases "find_sub d (''--'' @ b @ CRLF) 0") auto
  then show ?thesis using assms
    by (simp add: mp_parse_def mp_init_def, subst mp_loop.simps) (simp add: Let_def dash_boundary_crlf_def buf_find_def)
qed


section \<open>The buffer refines the unread text\<close>

definition bf_ok :: "mp_buffer \<Rightarrow> bool" where
  "bf_ok b \<longleftrightarrow> bf_spos b \<le> bf_epos b \<and> bf_epos b \<le> length (bf_text b)"

definition bf_unread :: "mp_buffer \<Rightarrow> string" where
  "bf_unread b = take (bf_size b) (drop (bf_spos b) (bf_text b))"

lemma bf_unread_size: "bf_ok b \<Longrightarrow> length (bf_unread b) = bf_size b"
  by (auto simp: bf_ok_def bf_unread_def bf_size_def)

lemma bf_append_ok:
  assumes "bf_ok b"
  shows "bf_ok (bf_append b d) \<and> bf_unread (bf_append b d) = bf_unread b @ d"
proof -
  define n where "n = bf_size b"
  define t1 where "t1 = (if n > 0 \<and> bf_spos b > 0
    then take n (drop (bf_spos b) (bf_text b)) @ drop n (bf_text b) else bf_text b)"
  define t2 where "t2 = (if n + length d > length t1 then t1 @ replicate (n + length d - length t1) NUL else t1)"
  have "n \<le> length (bf_text b)" "n + bf_spos b \<le> length (bf_text b)"
    using assms by (auto simp: n_def bf_ok_def bf_size_def)
  then have t1: "take n t1 = bf_unread b" "n \<le> length t1"
    by (auto simp: t1_def bf_unread_def n_def [symmetric])
  then have t2: "take n t2 = bf_unread b" "n + length d \<le> length t2" by (simp_all add: t2_def)
  have a: "bf_append b d = \<lparr> bf_text = take n t2 @ d @ drop (n + length d) t2, bf_spos = 0, bf_epos = n + length d \<rparr>"
    unfolding bf_append_def Let_def n_def t1_def t2_def ..
  have "bf_ok (bf_append b d)" unfolding a using t2(2) by (simp add: bf_ok_def)
  moreover have "bf_unread (bf_append b d) = take n t2 @ d"
    unfolding a using t2(2) by (simp add: bf_unread_def bf_size_def)
  ultimately show ?thesis using t2(1) by simp
qed

lemma bf_erase_ok: "bf_ok b \<Longrightarrow> n \<le> bf_size b \<Longrightarrow>
    bf_ok (bf_erase b n) \<and> bf_unread (bf_erase b n) = drop n (bf_unread b)"
  by (auto simp: bf_ok_def bf_unread_def bf_size_def bf_erase_def drop_take add.commute)

lemma bf_head_ok: "bf_ok b \<Longrightarrow> n \<le> bf_size b \<Longrightarrow> bf_head b n = take n (bf_unread b)"
  by (simp add: bf_head_def bf_unread_def substr_def)

lemma prefix_iff_nth: "prefix s u \<longleftrightarrow> length s \<le> length u \<and> (\<forall>i<length s. u ! i = s ! i)"
proof
  assume "length s \<le> length u \<and> (\<forall>i<length s. u ! i = s ! i)"
  then have "s = take (length s) u" by (intro nth_equalityI) auto
  then show "prefix s u" using take_is_prefix [of "length s" u] by simp
qed (auto simp: prefix_def nth_append)

lemma bf_start_with_iff:
  assumes "spos \<le> pos" "pos \<le> epos" "epos \<le> length a"
  shows "bf_start_with a pos epos s \<longleftrightarrow> prefix s (drop (pos - spos) (take (epos - spos) (drop spos a)))"
  using assms by (auto simp: bf_start_with_def prefix_iff_nth list_all_iff add.commute)

lemma buf_find_eq:
  assumes "\<And>j. j < length u \<Longrightarrow> \<not> prefix s (drop j u)" "s \<noteq> []"
  shows "buf_find u s = length u"
proof (cases "find_sub u s 0")
  case (Some i)
  from find_sub_Some [OF this] have "i + length s \<le> length u" "prefix s (drop i u)" by auto
  moreover have "i < length u" using \<open>i + length s \<le> length u\<close> assms(2) by (cases s) auto
  ultimately show ?thesis using assms(1) by blast
qed (simp add: buf_find_def)


lemma bf_unread_nth: "bf_ok b \<Longrightarrow> j < bf_size b \<Longrightarrow> bf_unread b ! j = bf_text b ! (bf_spos b + j)"
  by (simp add: bf_ok_def bf_unread_def bf_size_def)

lemma bf_match_head:
  assumes "bf_ok b" "s \<noteq> []" "prefix s (drop j (bf_unread b))" "j < bf_size b"
  shows "bf_text b ! (bf_spos b + j) = hd s"
proof -
  have "drop j (bf_unread b) ! 0 = s ! 0" using assms(2,3) by (auto simp: prefix_iff_nth)
  then show ?thesis using assms bf_unread_nth [OF assms(1,4)] bf_unread_size [OF assms(1)]
    by (simp add: hd_conv_nth)
qed

lemma bf_no_match_before:
  assumes "bf_ok b" "s \<noteq> []" "n \<le> bf_epos b" "\<And>i. off \<le> i \<Longrightarrow> i < n \<Longrightarrow> take (bf_epos b) (bf_text b) ! i \<noteq> hd s"
    and "off \<le> bf_spos b + j" "bf_spos b + j < n"
  shows "\<not> prefix s (drop j (bf_unread b))"
proof
  assume p: "prefix s (drop j (bf_unread b))"
  have "j < bf_size b" using assms(3,6) by (simp add: bf_size_def)
  from bf_match_head [OF assms(1,2) p this] show False using assms(4) [of "bf_spos b + j"] assms(3,5,6) by simp
qed

lemma buf_find_none:
  "bf_ok b \<Longrightarrow> s \<noteq> [] \<Longrightarrow> (\<And>j. j < bf_size b \<Longrightarrow> \<not> prefix s (drop j (bf_unread b))) \<Longrightarrow> buf_find (bf_unread b) s = bf_size b"
  using buf_find_eq [of "bf_unread b" s] bf_unread_size [of b] by metis

text \<open>At a position that holds the first character of the pattern.\<close>

lemma bf_find_at:
  assumes ok: "bf_ok b" and s: "s \<noteq> []" and off: "bf_spos b \<le> off" "off < bf_epos b"
    and hit: "find_first (\<lambda>c. c = hd s) (take (bf_epos b) (bf_text b)) off = Some pos"
    and before: "\<And>j. j < pos - bf_spos b \<Longrightarrow> \<not> prefix s (drop j (bf_unread b))"
    and pos: "off \<le> pos" "pos < bf_epos b"
    and rest: "\<not> length s > bf_epos b - pos \<Longrightarrow> \<not> bf_start_with (bf_text b) pos (bf_epos b) s \<Longrightarrow>
      (\<And>j. j < pos + 1 - bf_spos b \<Longrightarrow> \<not> prefix s (drop j (bf_unread b))) \<Longrightarrow>
      bf_find_loop b s (pos + 1) = buf_find (bf_unread b) s"
  shows "bf_find_loop b s off = buf_find (bf_unread b) s"
proof (cases "length s > bf_epos b - pos")
  case True
  have "\<not> prefix s (drop j (bf_unread b))" if "j < bf_size b" for j
    using that True before [of j] bf_unread_size [OF ok]
    by (cases "j < pos - bf_spos b") (auto dest!: prefix_length_le simp: bf_size_def)
  from buf_find_none [OF ok s this] show ?thesis using off hit True by (simp add: bf_find_loop.simps)
next
  case short: False
  have start: "bf_start_with (bf_text b) pos (bf_epos b) s \<longleftrightarrow> prefix s (drop (pos - bf_spos b) (bf_unread b))"
    using bf_start_with_iff [of "bf_spos b" pos "bf_epos b" "bf_text b" s] off pos ok
    by (simp add: bf_unread_def bf_size_def bf_ok_def)
  show ?thesis
  proof (cases "prefix s (drop (pos - bf_spos b) (bf_unread b))")
    case True
    then have "find_sub (bf_unread b) s 0 = Some (pos - bf_spos b)"
      using before pos off bf_unread_size [OF ok] short by (intro find_sub_SomeI) (auto simp: bf_size_def)
    then show ?thesis using off hit short start True by (simp add: bf_find_loop.simps buf_find_def)
  next
    case False
    have "\<not> prefix s (drop j (bf_unread b))" if "j < pos + 1 - bf_spos b" for j
      using before [of j] False that by (cases "j = pos - bf_spos b") auto
    from rest [OF short _ this] show ?thesis using off hit short start False
      by (simp add: bf_find_loop.simps [of b s off])
  qed
qed

lemma bf_find_loop_correct:
  "bf_ok b \<Longrightarrow> s \<noteq> [] \<Longrightarrow> bf_spos b \<le> off \<Longrightarrow>
   (\<And>j. j < off - bf_spos b \<Longrightarrow> \<not> prefix s (drop j (bf_unread b))) \<Longrightarrow>
   bf_find_loop b s off = buf_find (bf_unread b) s"
proof (induction b s off rule: bf_find_loop.induct)
  case (1 b s off)
  let ?t = "take (bf_epos b) (bf_text b)"
  have ep: "length ?t = bf_epos b" using 1(2) by (simp add: bf_ok_def)
  have upto: "\<not> prefix s (drop j (bf_unread b))"
    if "n \<le> bf_epos b" "\<And>i. off \<le> i \<Longrightarrow> i < n \<Longrightarrow> ?t ! i \<noteq> hd s" "j < n - bf_spos b" for j n
    using 1(5) [of j] bf_no_match_before [OF 1(2,3) that(1,2), of off j] that(3) by (cases "j < off - bf_spos b") auto
  show ?case
  proof (cases "off < bf_epos b")
    case False
    then show ?thesis using buf_find_none [OF 1(2,3)] 1(5) by (auto simp: bf_find_loop.simps bf_size_def)
  next
    case off: True
    show ?thesis
    proof (cases "find_first (\<lambda>c. c = hd s) ?t off")
      case None
      then have "?t ! i \<noteq> hd s" if "off \<le> i" "i < bf_epos b" for i
        using that ep by (auto simp: find_first_None_iff)
      from buf_find_none [OF 1(2,3) upto [OF order.refl this]] show ?thesis using off None
        by (simp add: bf_find_loop.simps bf_size_def)
    next
      case (Some pos)
      then have pos: "off \<le> pos" "pos < bf_epos b" "\<And>i. off \<le> i \<Longrightarrow> i < pos \<Longrightarrow> ?t ! i \<noteq> hd s"
        using ep by (auto simp: find_first_Some_iff)
      show ?thesis
        using 1(1) [OF off Some] 1(2-4) pos(1)
        by (intro bf_find_at [OF 1(2-4) off Some upto [OF _ pos(3)] pos(1,2)]) (use pos(2) in auto)
    qed
  qed
qed

text \<open>
  The buffer with its two positions implements the unread text: appending, finding, erasing and
  reading the head agree with the same operations on that text and keep the positions in range.
\<close>

theorem mp_buffer_refines_text:
  assumes "bf_ok b"
  shows "bf_ok (bf_append b d) \<and> bf_unread (bf_append b d) = bf_unread b @ d \<and>
    bf_size b = length (bf_unread b) \<and>
    (s \<noteq> [] \<longrightarrow> bf_find b s = buf_find (bf_unread b) s) \<and>
    (n \<le> bf_size b \<longrightarrow> bf_ok (bf_erase b n) \<and> bf_unread (bf_erase b n) = drop n (bf_unread b) \<and>
       bf_head b n = take n (bf_unread b))"
  using bf_append_ok [OF assms] bf_erase_ok [OF assms] bf_head_ok [OF assms]
    bf_find_loop_correct [OF assms, of s "bf_spos b"] bf_unread_size [OF assms]
  by (simp add: bf_find_def)

section \<open>Instances\<close>

lemma multipart_demo_body:
  "concat [''--b'' @ CRLF @ ''Content-Disposition: form-data; na'', ''me=f'' @ CRLF @ CRLF @ ''h'', ''i'' @ CRLF @ ''--b--'' @ CRLF] =
     multipart_body ''b'' [''Content-Disposition: form-data; name=f''] ''hi''"
  by (simp add: multipart_body_def header_lines_def)

lemma multipart_demo_field:
  "mp_header_fields [''Content-Disposition: form-data; name=f''] MultipartFormData_default =
     Some (MultipartFormData_default\<lparr> mfd_name := ''f'' \<rparr>)"
  by code_simp

theorem multipart_round_trip_witness:
  "\<exists>p' es. mp_feed (\<lambda>a x. (True, a @ x)) (\<lambda>a m. (True, mfd_name m)) (mp_init ''b'') []
      [''--b'' @ CRLF @ ''Content-Disposition: form-data; na'', ''me=f'' @ CRLF @ CRLF @ ''h'',
       ''i'' @ CRLF @ ''--b--'' @ CRLF] = Some (True, p', foldl (@) ''f'' es) \<and>
    mp_valid p' \<and> concat es = ''hi'' \<and> es \<noteq> []"
  using multipart_round_trip [where ccb = "\<lambda>a x. (True, a @ x)" and f = "(@)" and h = "\<lambda>a m. mfd_name m"
    and hcb = "\<lambda>a m. (True, mfd_name m)" and a = "[]",
    OF refl refl _ multipart_demo_body _ multipart_demo_field]
  by (simp add: line_ok_def find_sub_def)

lemma split_opening_boundary_lost_witness:
  "mp_parse (mp_init ''XYZ'') ''--XY'' (\<lambda>a x. (True, a @ x)) (\<lambda>a m. (True, a)) [] = Some (True, mp_init ''XYZ'', [])"
  using split_opening_boundary_lost [of "''--XY''" "''XYZ''" "\<lambda>a x. (True, a @ x)" "\<lambda>a m. (True, a)" "[]"] by simp

theorem mp_buffer_refines_text_witness:
  "bf_find \<lparr> bf_text = ''ab-c'', bf_spos = 1, bf_epos = 4 \<rparr> ''-c'' = 1 \<and>
   bf_unread (bf_append \<lparr> bf_text = ''ab-c'', bf_spos = 1, bf_epos = 4 \<rparr> ''xy'') = ''b-cxy''"
  using mp_buffer_refines_text [of "\<lparr> bf_text = ''ab-c'', bf_spos = 1, bf_epos = 4 \<rparr>" "''xy''" "''-c''" 0]
  by (simp add: bf_ok_def bf_unread_def bf_size_def buf_find_def find_sub_def)

end
