(* ===== verification/Http_Ranges.thy ===== *)
theory Http_Ranges
  imports Http_Multipart
begin

text \<open>
  Content types, multipart bodies and byte ranges of the HTTP library (\<^verbatim>\<open>src/src/httplib.h\<close> lines
  3310-3433 and 4534-4752).  The tag of a string is a 32-bit word; offsets and lengths are computed
  in 64 bits as the source does, with the wrap-around written out.  The build defines neither zlib
  nor brotli support, so no response is compressed.
\<close>

section \<open>Content types\<close>

fun str2tag_core :: "string \<Rightarrow> u32 \<Rightarrow> u32" where
  "str2tag_core [] h = h"
| "str2tag_core (c # s) h =
     str2tag_core s (xor (and (drop_bit 6 (- 1)) (h * 33)) (of_char c))"

definition str2tag :: "string \<Rightarrow> u32" where
  "str2tag s = str2tag_core s 0"

definition content_types :: "(string \<times> string) list" where
  "content_types =
    [(''css'', ''text/css''), (''csv'', ''text/csv''), (''htm'', ''text/html''), (''html'', ''text/html''),
     (''js'', ''text/javascript''), (''mjs'', ''text/javascript''), (''txt'', ''text/plain''),
     (''vtt'', ''text/vtt''), (''apng'', ''image/apng''), (''avif'', ''image/avif''), (''bmp'', ''image/bmp''),
     (''gif'', ''image/gif''), (''png'', ''image/png''), (''svg'', ''image/svg+xml''), (''webp'', ''image/webp''),
     (''ico'', ''image/x-icon''), (''tif'', ''image/tiff''), (''tiff'', ''image/tiff''), (''jpg'', ''image/jpeg''),
     (''jpeg'', ''image/jpeg''), (''mp4'', ''video/mp4''), (''mpeg'', ''video/mpeg''), (''webm'', ''video/webm''),
     (''mp3'', ''audio/mp3''), (''mpga'', ''audio/mpeg''), (''weba'', ''audio/webm''), (''wav'', ''audio/wave''),
     (''otf'', ''font/otf''), (''ttf'', ''font/ttf''), (''woff'', ''font/woff''), (''woff2'', ''font/woff2''),
     (''7z'', ''application/x-7z-compressed''), (''atom'', ''application/atom+xml''), (''pdf'', ''application/pdf''),
     (''json'', ''application/json''), (''rss'', ''application/rss+xml''), (''tar'', ''application/x-tar''),
     (''xht'', ''application/xhtml+xml''), (''xhtml'', ''application/xhtml+xml''),
     (''xslt'', ''application/xslt+xml''), (''xml'', ''application/xml''), (''gz'', ''application/gzip''),
     (''zip'', ''application/zip''), (''wasm'', ''application/wasm'')]"

definition find_content_type :: "string \<Rightarrow> (string \<rightharpoonup> string) \<Rightarrow> string \<Rightarrow> string" where
  "find_content_type path user_data default_content_type =
     (let ext = file_extension path
      in case user_data ext of
           Some t \<Rightarrow> t
         | None \<Rightarrow>
             (case map_of (map (\<lambda>(e, t). (str2tag e, t)) content_types) (str2tag ext) of
                Some t \<Rightarrow> t | None \<Rightarrow> default_content_type))"

definition can_compress_content_type :: "string \<Rightarrow> bool" where
  "can_compress_content_type content_type =
     (let tag = str2tag content_type in
      if tag \<in> set (map str2tag [''image/svg+xml'', ''application/javascript'', ''application/json'',
                 ''application/xml'', ''application/protobuf'', ''application/xhtml+xml'']) then True
      else prefix ''text/'' content_type \<and> tag \<noteq> str2tag ''text/event-stream'')"

datatype EncodingType = NoEncoding | Gzip | Brotli

definition encoding_type :: "Request \<Rightarrow> 'w Response \<Rightarrow> EncodingType" where
  "encoding_type req res =
     (let ret = can_compress_content_type (res_get_header_value res ''Content-Type'' 0)
      in if \<not> ret then NoEncoding else NoEncoding)"

section \<open>Multipart bodies\<close>

definition to_lower :: "string \<Rightarrow> string" where
  "to_lower s = map c_tolower s"

text \<open>\<open>engine i\<close> is the \<open>i\<close>-th output of the random engine.\<close>

definition make_multipart_data_boundary :: "(nat \<Rightarrow> nat) \<Rightarrow> string" where
  "make_multipart_data_boundary engine =
     (let data = ''0123456789ABCDEFGHIJKLMNOPQRSTUVWXYZabcdefghijklmnopqrstuvwxyz''
      in ''--cpp-httplib-multipart-data-'' @ map (\<lambda>i. data ! (engine i mod length data)) [0..<16])"

definition is_multipart_boundary_chars_valid :: "string \<Rightarrow> bool" where
  "is_multipart_boundary_chars_valid boundary \<longleftrightarrow>
     list_all (\<lambda>c. c_isalnum c \<or> c = CHR ''-'' \<or> c = CHR ''_'') boundary"

definition serialize_multipart_formdata_item_begin :: "MultipartFormData \<Rightarrow> string \<Rightarrow> string" where
  "serialize_multipart_formdata_item_begin item boundary =
     ''--'' @ boundary @ CRLF @
     ''Content-Disposition: form-data; name='' @ [DQUOTE] @ mfd_name item @ [DQUOTE] @
     (if mfd_filename item \<noteq> [] then ''; filename='' @ [DQUOTE] @ mfd_filename item @ [DQUOTE] else []) @ CRLF @
     (if mfd_content_type item \<noteq> [] then ''Content-Type: '' @ mfd_content_type item @ CRLF else []) @ CRLF"

definition serialize_multipart_formdata_item_end :: string where
  "serialize_multipart_formdata_item_end = CRLF"

definition serialize_multipart_formdata_finish :: "string \<Rightarrow> string" where
  "serialize_multipart_formdata_finish boundary = ''--'' @ boundary @ ''--'' @ CRLF"

definition serialize_multipart_formdata_get_content_type :: "string \<Rightarrow> string" where
  "serialize_multipart_formdata_get_content_type boundary = ''multipart/form-data; boundary='' @ boundary"

definition serialize_multipart_formdata :: "MultipartFormData list \<Rightarrow> string \<Rightarrow> bool \<Rightarrow> string" where
  "serialize_multipart_formdata items boundary finish =
     concat (map (\<lambda>item. serialize_multipart_formdata_item_begin item boundary @ mfd_content item @
       serialize_multipart_formdata_item_end) items) @
     (if finish then serialize_multipart_formdata_finish boundary else [])"

section \<open>Ranges\<close>

text \<open>\<^verbatim>\<open>static_cast<ssize_t>\<close> and \<^verbatim>\<open>static_cast<size_t>\<close>.\<close>

definition to_ssize :: "nat \<Rightarrow> int" where
  "to_ssize n = (if n < 2 ^ 63 then int n else int n - 2 ^ 64)"

definition to_size :: "int \<Rightarrow> nat" where
  "to_size i = nat (i mod 2 ^ 64)"

definition get_range_offset_and_length :: "int \<times> int \<Rightarrow> nat \<Rightarrow> nat \<times> nat" where
  "get_range_offset_and_length r content_length =
     (if fst r = - 1 \<and> snd r = - 1 then (0, content_length)
      else let slen = to_ssize content_length;
               (first, second) = (if fst r = - 1 then (max 0 (slen - snd r), slen - 1) else r);
               second = (if second = - 1 then slen - 1 else second)
        in (to_size first, (to_size (second - first) + 1) mod 2 ^ 64))"

definition make_content_range_header_field :: "int \<times> int \<Rightarrow> nat \<Rightarrow> string" where
  "make_content_range_header_field rng content_length =
     ''bytes '' @ (if fst rng \<noteq> - 1 then dec_int (fst rng) else []) @ ''-'' @
     (if snd rng \<noteq> - 1 then dec_int (snd rng) else []) @ ''/'' @ dec content_length"

text \<open>The tokens and contents of a multipart range response, handed to the callbacks in order; the
  content callback may fail, or not return (\<^const>\<open>None\<close>).\<close>

fun process_ranges ::
  "string \<Rightarrow> string \<Rightarrow> nat \<Rightarrow> ('s \<Rightarrow> string \<Rightarrow> 's) \<Rightarrow> ('s \<Rightarrow> nat \<Rightarrow> nat \<Rightarrow> (bool \<times> 's) option) \<Rightarrow>
   (int \<times> int) list \<Rightarrow> 's \<Rightarrow> (bool \<times> 's) option" where
  "process_ranges boundary content_type content_length token content [] s = Some (True, s)"
| "process_ranges boundary content_type content_length token content (rng # rs) s =
     (let s1 = foldl token s ([''--'', boundary, CRLF] @
            (if content_type \<noteq> [] then [''Content-Type: '', content_type, CRLF] else []) @
            [''Content-Range: '', make_content_range_header_field rng content_length, CRLF, CRLF]);
          (offset, len) = get_range_offset_and_length rng content_length
      in case content s1 offset len of
           None \<Rightarrow> None
         | Some (ok, s2) \<Rightarrow>
             if \<not> ok then Some (False, s2)
             else process_ranges boundary content_type content_length token content rs (token s2 CRLF))"

definition process_multipart_ranges_data ::
  "Request \<Rightarrow> 'w Response \<Rightarrow> string \<Rightarrow> string \<Rightarrow> ('s \<Rightarrow> string \<Rightarrow> 's) \<Rightarrow>
   ('s \<Rightarrow> nat \<Rightarrow> nat \<Rightarrow> (bool \<times> 's) option) \<Rightarrow> 's \<Rightarrow> (bool \<times> 's) option" where
  "process_multipart_ranges_data req res boundary content_type token content s =
     (case process_ranges boundary content_type (res_content_length res) token content (req_ranges req) s of
        None \<Rightarrow> None
      | Some (ok, s') \<Rightarrow> if \<not> ok then Some (False, s')
                        else Some (True, foldl token s' [''--'', boundary, ''--'']))"

definition make_multipart_ranges_data ::
  "Request \<Rightarrow> 'w Response \<Rightarrow> string \<Rightarrow> string \<Rightarrow> bool \<times> string" where
  "make_multipart_ranges_data req res boundary content_type =
     (case process_multipart_ranges_data req res boundary content_type (@)
        (\<lambda>data offset len. Some (if offset < length (res_body res)
           then (True, data @ substr (res_body res) offset len) else (False, data))) [] of
        Some r \<Rightarrow> r | None \<Rightarrow> (False, []))"

definition get_multipart_ranges_data_length :: "Request \<Rightarrow> 'w Response \<Rightarrow> string \<Rightarrow> string \<Rightarrow> nat" where
  "get_multipart_ranges_data_length req res boundary content_type =
     (case process_multipart_ranges_data req res boundary content_type (\<lambda>n t. n + length t)
        (\<lambda>n offset len. Some (True, n + len)) 0 of
        Some (_, n) \<Rightarrow> n | None \<Rightarrow> 0)"

text \<open>The tokens are written without looking at the result.\<close>

definition write_multipart_ranges_data ::
  "('s \<Rightarrow> bool) \<Rightarrow> 's stream_write \<Rightarrow> 's \<Rightarrow> Request \<Rightarrow> 'w Response \<Rightarrow> 'w content_provider \<Rightarrow> 'w \<Rightarrow>
   string \<Rightarrow> string \<Rightarrow> (nat \<Rightarrow> bool) \<Rightarrow> (bool \<times> 's) option" where
  "write_multipart_ranges_data writable write_fn s req res provider w boundary content_type shut =
     process_multipart_ranges_data req res boundary content_type
       (\<lambda>s t. snd (write_fn s t))
       (\<lambda>s offset len. case write_content writable write_fn s provider w offset len shut of
            None \<Rightarrow> None | Some (ok, _, s') \<Rightarrow> Some (ok, s')) s"

section \<open>Properties\<close>

lemma content_type_tags: "distinct (map (\<lambda>(e, t). str2tag e) content_types)"
  by code_simp

lemma map_of_tagged:
  "distinct (map (\<lambda>(e, t). f e) xs) \<Longrightarrow> map_of xs e = Some t \<Longrightarrow> map_of (map (\<lambda>(e, t). (f e, t)) xs) (f e) = Some t"
proof (induction xs)
  case (Cons x xs)
  obtain e' t' where x: "x = (e', t')" by fastforce
  show ?case
  proof (cases "e = e'")
    case False
    then have "map_of xs e = Some t" using Cons.prems(2) x by auto
    then have "f e \<in> (\<lambda>(e, t). f e) ` set xs" by (force dest: map_of_SomeD)
    then have "f e \<noteq> f e'" using Cons.prems(1) x by auto
    then show ?thesis using Cons.IH [OF _ \<open>map_of xs e = Some t\<close>] Cons.prems(1) x by simp
  qed (use Cons x in auto)
qed simp

lemma find_content_type_listed:
  assumes "map_of content_types (file_extension path) = Some t" "user_data (file_extension path) = None"
  shows "find_content_type path user_data d = t"
  using map_of_tagged [OF content_type_tags assms(1)] assms(2) by (simp add: find_content_type_def Let_def)


lemma to_size_nat: "0 \<le> i \<Longrightarrow> i < 2 ^ 63 \<Longrightarrow> to_size i = nat i"
  by (simp add: to_size_def)

lemma wrapped_length:
  assumes "- 1 \<le> d" "d < 2 ^ 63"
  shows "(to_size d + 1) mod 2 ^ 64 = nat (d + 1)"
proof (cases "d = - 1")
  case False
  then have "to_size d = nat d" "nat d < 2 ^ 63" using assms by (simp_all add: to_size_nat)
  then show ?thesis using assms False by (simp add: nat_add_distrib)
qed (simp add: to_size_def)

text \<open>The ranges \<^verbatim>\<open>parse_range_header\<close> accepts.\<close>

definition parsed_range :: "int \<times> int \<Rightarrow> bool" where
  "parsed_range r \<longleftrightarrow> - 1 \<le> fst r \<and> - 1 \<le> snd r \<and> fst r < 2 ^ 63 \<and> snd r < 2 ^ 63 \<and>
     (fst r = - 1 \<or> snd r = - 1 \<or> fst r \<le> snd r)"

lemma range_bound_range: "range_bound s = Some i \<Longrightarrow> - 1 \<le> i \<and> i < 2 ^ 63"
  by (auto simp: range_bound_def split: if_splits)

lemma parse_range_pieces_ok:
  "list_all parsed_range ranges \<Longrightarrow> list_all parsed_range (snd (parse_range_pieces ps ranges))"
proof (induction ps arbitrary: ranges)
  case (Cons p ps)
  show ?case
  proof (cases "match_range (dropWhile c_isspace p)")
    case (Some ab)
    obtain a b where ab: "ab = (a, b)" by fastforce
    show ?thesis
    proof (cases "range_bound a = None \<or> range_bound b = None")
      case False
      then obtain i j where ij: "range_bound a = Some i" "range_bound b = Some j" by auto
      show ?thesis
      proof (cases "i \<noteq> - 1 \<and> j \<noteq> - 1 \<and> i > j")
        case True
        then show ?thesis using Some ab ij Cons.prems by simp
      next
        case le: False
        have "parsed_range (i, j)"
          using range_bound_range [OF ij(1)] range_bound_range [OF ij(2)] le by (auto simp: parsed_range_def)
        then have "list_all parsed_range (ranges @ [(i, j)])" using Cons.prems by simp
        from Cons.IH [OF this] show ?thesis using Some ab ij le by auto
      qed
    qed (use Some ab Cons.prems in \<open>auto split: option.splits\<close>)
  qed (use Cons in simp)
qed simp

lemma mod_succ: "(to_size d + 1) mod 2 ^ 64 = nat ((d + 1) mod 2 ^ 64)"
proof -
  have "int ((to_size d + 1) mod 2 ^ 64) = (d mod 2 ^ 64 + 1) mod 2 ^ 64" by (simp add: to_size_def zmod_int add.commute)
  also have "\<dots> = (d + 1) mod 2 ^ 64" by (simp add: mod_add_left_eq)
  finally show ?thesis by simp
qed

text \<open>
  C32. Byte ranges: for every range the parser accepts and a content of \<open>n < 2\<^sup>63\<close> bytes.  When the first position
  lies inside the content, or only the number of last bytes is named, the computed offset is inside the
  content, and offset and length stay within it unless the client named a last position at or past the
  end; that position is not clamped, and the length then reaches to it.  A first position at or past the
  end is not refused either: it is the offset, and the length counts from it to the last position, modulo
  \<open>2\<^sup>64\<close> when that is the end of the content before it.
\<close>

theorem range_within_content:
  assumes "parse_range_header s [] = (True, ranges)" "r \<in> set ranges" "n < 2 ^ 63"
  shows "let (offset, len) = get_range_offset_and_length r n in
    if fst r < int n
    then offset \<le> n \<and> (if fst r \<noteq> - 1 \<and> int n \<le> snd r then offset + len = nat (snd r) + 1 else offset + len \<le> n)
    else offset = nat (fst r) \<and> len = nat ((if snd r = - 1 then int n - fst r else snd r - fst r + 1) mod 2 ^ 64)"
proof -
  have "parsed_range r"
    using assms(1,2) parse_range_pieces_ok [of "[]" "http_split (drop 6 s) (CHR '','') None"]
    by (auto simp: parse_range_header_def Let_def list_all_iff split: if_splits)
  then obtain a b where r: "r = (a, b)" "- 1 \<le> a" "a < 2 ^ 63" "- 1 \<le> b" "b < 2 ^ 63" "a = - 1 \<or> b = - 1 \<or> a \<le> b"
    by (cases r) (auto simp: parsed_range_def)
  have slen: "to_ssize n = int n" "int n < 2 ^ 63" using assms(3) by (simp_all add: to_ssize_def)
  consider "a = - 1" "b = - 1" | "a = - 1" "0 \<le> b" | "0 \<le> a" "b = - 1" "a < int n" | "0 \<le> a" "0 \<le> b" "a \<le> b" "a < int n"
    | "int n \<le> a"
    using r by fastforce
  then show ?thesis
  proof cases
    case 1
    then show ?thesis by (simp add: r(1) get_range_offset_and_length_def)
  next
    case 2
    let ?f = "max 0 (int n - b)"
    have f: "0 \<le> ?f" "?f \<le> int n" "?f < 2 ^ 63" "- 1 \<le> int n - 1 - ?f" "int n - 1 - ?f < 2 ^ 63"
      using 2 slen(2) by auto
    have "get_range_offset_and_length r n = (nat ?f, nat (int n - 1 - ?f + 1))"
      using 2 f wrapped_length [OF f(4,5)] to_size_nat [OF f(1,3)] slen(1)
      by (simp add: r(1) get_range_offset_and_length_def Let_def)
    then show ?thesis using f 2 by (simp add: r(1)) linarith
  next
    case 3
    have f: "- 1 \<le> int n - 1 - a" "int n - 1 - a < 2 ^ 63" "a < 2 ^ 63"
      using 3 slen(2) by auto
    have "get_range_offset_and_length r n = (nat a, nat (int n - 1 - a + 1))"
      using 3 wrapped_length [OF f(1,2)] to_size_nat [OF 3(1) f(3)] slen(1)
      by (simp add: r(1) get_range_offset_and_length_def Let_def)
    then show ?thesis using f 3 by (simp add: r(1)) linarith
  next
    case 4
    have f: "- 1 \<le> b - a" "b - a < 2 ^ 63" "a < 2 ^ 63"
      using 4 slen(2) r by auto
    have "get_range_offset_and_length r n = (nat a, nat (b - a + 1))"
      using 4 wrapped_length [OF f(1,2)] to_size_nat [OF 4(1) f(3)] slen(1)
      by (simp add: r(1) get_range_offset_and_length_def Let_def)
    then show ?thesis using f 4 by (simp add: r(1)) linarith
  next
    case 5
    have "0 \<le> a" using 5 by linarith
    then have ne: "a \<noteq> - 1" "to_size a = nat a" "\<not> a < int n" using 5 to_size_nat [OF _ r(3)] by simp_all
    then have "get_range_offset_and_length r n =
        (nat a, nat ((if b = - 1 then int n - a else b - a + 1) mod 2 ^ 64))"
      by (cases "b = - 1") (simp_all only: r(1) get_range_offset_and_length_def Let_def prod.case fst_conv snd_conv slen(1)
        mod_succ simp_thms if_True if_False diff_add_eq diff_add_cancel add_diff_cancel_right')
    then show ?thesis using ne(3) by (simp only: r(1) Let_def prod.case fst_conv snd_conv if_False simp_thms)
  qed
qed

subsection \<open>Serialised forms\<close>

lemma trim_copy_id:
  assumes "s \<noteq> []" "\<not> is_space_or_tab (hd s)" "\<not> is_space_or_tab (last s)"
  shows "trim_copy s = s"
proof -
  have "takeWhile is_space_or_tab s = []" using assms(1,2) by (cases s) auto
  moreover have "dropWhile is_space_or_tab (rev s) = rev s" using assms(1,3) by (cases s rule: rev_cases) auto
  ultimately show ?thesis by (simp add: trim_copy_def http_trim_def substr_def)
qed

lemma trim_copy_space:
  assumes "s \<noteq> []" "\<not> is_space_or_tab (hd s)" "\<not> is_space_or_tab (last s)"
  shows "trim_copy (SP # s) = s"
proof -
  have "takeWhile is_space_or_tab (SP # s) = [SP]" using assms(1,2) by (cases s) (auto simp: is_space_or_tab_def)
  moreover have "dropWhile is_space_or_tab (rev (SP # s)) = rev (SP # s)"
    using assms(1,3) by (cases s rule: rev_cases) auto
  ultimately show ?thesis by (simp add: trim_copy_def http_trim_def substr_def)
qed

lemma start_with_append: "start_with_case_ignore (b @ x) b"
  by (simp add: start_with_case_ignore_def list_all_iff nth_append)

lemma start_with_differs:
  assumes "i < length b" "c_tolower (a ! i) \<noteq> c_tolower (b ! i)"
  shows "\<not> start_with_case_ignore a b"
  using assms by (auto simp: start_with_case_ignore_def list_all_iff)

text \<open>Texts that need no escaping between double quotes, and content types without outer blanks.\<close>

definition quotable :: "string \<Rightarrow> bool" where
  "quotable s \<longleftrightarrow> set s \<inter> {DQUOTE, CHR '';'', CHR ''='', CR, LF} = {}"

definition plain_type :: "string \<Rightarrow> bool" where
  "plain_type t \<longleftrightarrow> t = [] \<or> \<not> is_space_or_tab (hd t) \<and> \<not> is_space_or_tab (last t) \<and> CR \<notin> set t"

abbreviation quoted :: "string \<Rightarrow> string" where
  "quoted s \<equiv> [DQUOTE] @ s @ [DQUOTE]"

definition disposition :: "MultipartFormData \<Rightarrow> string" where
  "disposition item = ''name='' @ quoted (mfd_name item) @
     (if mfd_filename item \<noteq> [] then ''; filename='' @ quoted (mfd_filename item) else [])"

lemma trim_quoted: "trim_double_quotes_copy (quoted s) = s"
  by (simp add: trim_double_quotes_copy_def substr_def)

lemma key_and_value_quoted:
  assumes "quotable s" "k \<noteq> []" "CHR ''='' \<notin> set k" "\<not> is_space_or_tab (hd k)" "\<not> is_space_or_tab (last k)"
  shows "key_and_value (k @ ''='' @ quoted s) = (k, quoted s)"
proof -
  have no: "\<forall>c \<in> set k. c \<noteq> CHR ''=''" "\<forall>c \<in> set (quoted s). c \<noteq> CHR ''=''"
    using assms(1,3) by (auto simp: quotable_def)
  have "pieces (\<lambda>c. c = CHR ''='') (k @ CHR ''='' # quoted s) = [k, quoted s]"
    unfolding fields_stop [OF no(1) refl] fields_none [OF no(2)] ..
  moreover have "trim_copy k = k" "trim_copy (quoted s) = quoted s"
    using assms by (auto intro!: trim_copy_id simp: is_space_or_tab_def)
  ultimately show ?thesis using assms(2) by (simp add: key_and_value_def http_split_pieces)
qed

lemma disposition_pieces:
  assumes "quotable (mfd_name item)" "quotable (mfd_filename item)"
  shows "http_split (disposition item) (CHR '';'') None =
    (''name='' @ quoted (mfd_name item)) #
      (if mfd_filename item \<noteq> [] then [''filename='' @ quoted (mfd_filename item)] else [])"
proof -
  let ?a = "''name='' @ quoted (mfd_name item)" and ?b = "''filename='' @ quoted (mfd_filename item)"
  have no: "\<forall>c \<in> set ?a. c \<noteq> CHR '';''" "\<forall>c \<in> set (SP # ?b). c \<noteq> CHR '';''" using assms by (auto simp: quotable_def)
  have t: "trim_copy ?a = ?a" "trim_copy (SP # ?b) = ?b"
    by (rule trim_copy_id trim_copy_space; simp add: is_space_or_tab_def)+
  have "pieces (\<lambda>c. c = CHR '';'') (?a @ CHR '';'' # SP # ?b) = [?a, SP # ?b]" "pieces (\<lambda>c. c = CHR '';'') ?a = [?a]"
    unfolding fields_stop [OF no(1) refl] fields_none [OF no(2)] fields_none [OF no(1)] by simp_all
  then show ?thesis using t by (simp add: http_split_pieces disposition_def)
qed

lemma disposition_params:
  assumes "quotable (mfd_name item)" "quotable (mfd_filename item)"
  shows "parse_disposition_params (disposition item) [] =
    (if mfd_filename item \<noteq> [] then [(''filename'', mfd_filename item)] else []) @ [(''name'', mfd_name item)]"
proof -
  have "key_and_value (''name='' @ quoted (mfd_name item)) = (''name'', quoted (mfd_name item))"
    "key_and_value (''filename='' @ quoted (mfd_filename item)) = (''filename'', quoted (mfd_filename item))"
    using key_and_value_quoted [OF assms(1), of "''name''"] key_and_value_quoted [OF assms(2), of "''filename''"]
    by (simp_all add: is_space_or_tab_def)
  then show ?thesis using trim_quoted
    by (auto simp: parse_disposition_params_def disposition_pieces [OF assms] string_less_def trim_double_quotes_copy_def substr_def)
qed

definition item_lines :: "MultipartFormData \<Rightarrow> string list" where
  "item_lines item = (''Content-Disposition: form-data; '' @ disposition item) #
     (if mfd_content_type item \<noteq> [] then [''Content-Type: '' @ mfd_content_type item] else [])"

lemma serialize_one: "serialize_multipart_formdata [item] b True = multipart_body b (item_lines item) (mfd_content item)"
  by (simp add: serialize_multipart_formdata_def serialize_multipart_formdata_item_begin_def
      serialize_multipart_formdata_item_end_def serialize_multipart_formdata_finish_def multipart_body_def
      header_lines_def item_lines_def disposition_def)

lemma disposition_field:
  assumes "quotable (mfd_name item)" "quotable (mfd_filename item)"
  shows "mp_header_field (''Content-Disposition: form-data; '' @ disposition item) file =
    Some (if mfd_filename item \<noteq> [] then file\<lparr> mfd_name := mfd_name item, mfd_filename := mfd_filename item \<rparr>
          else file\<lparr> mfd_name := mfd_name item \<rparr>)"
proof -
  let ?h = "''Content-Disposition: form-data; '' @ disposition item"
  have no: "\<not> start_with_case_ignore ?h ''Content-Type:''" "\<not> start_with_case_ignore ?h ''Content-Length:''"
    by (rule start_with_differs [of 8]; simp add: c_tolower_def c_isupper_def)+
  have "start_with_case_ignore ?h ''Content-Disposition:''"
    using start_with_append [of "''Content-Disposition:''" "'' form-data; '' @ disposition item"] by simp
  moreover have "start_with_case_ignore (''form-data; '' @ disposition item) ''form-data;''"
    using start_with_append [of "''form-data;''" "'' '' @ disposition item"] by simp
  moreover have "no_newline (disposition item)" using assms by (auto simp: no_newline_def disposition_def quotable_def list_all_iff)
  moreover have "dropWhile c_isspace (SP # disposition item) = disposition item" by (simp add: disposition_def c_isspace_def)
  ultimately have "match_disposition ?h = Some (disposition item)"
    by (simp add: match_disposition_def Let_def c_isspace_def)
  then show ?thesis using no disposition_params [OF assms]
    by (simp add: mp_header_field_def Let_def param_find_def mm_equal_range_def mm_equiv_def string_less_def)
qed

lemma type_field:
  assumes "plain_type t" "t \<noteq> []"
  shows "mp_header_field (''Content-Type: '' @ t) file = Some (file\<lparr> mfd_content_type := t \<rparr>)"
  using start_with_append [of "''Content-Type:''" "SP # t"] trim_copy_space [of t] assms
  by (simp add: mp_header_field_def plain_type_def)

lemma item_lines_parsed:
  assumes "quotable (mfd_name item)" "quotable (mfd_filename item)" "plain_type (mfd_content_type item)"
    and "length (mfd_name item) + length (mfd_filename item) + length (mfd_content_type item) < 8000"
  shows "list_all line_ok (item_lines item)"
    "mp_header_fields (item_lines item) MultipartFormData_default = Some (item\<lparr> mfd_content := [] \<rparr>)"
proof -
  show "list_all line_ok (item_lines item)"
    using assms by (auto simp: item_lines_def line_ok_def disposition_def quotable_def plain_type_def)
  show "mp_header_fields (item_lines item) MultipartFormData_default = Some (item\<lparr> mfd_content := [] \<rparr>)"
    using disposition_field [OF assms(1,2)] type_field [OF assms(3)]
    by (cases item) (auto simp: item_lines_def MultipartFormData_default_def)
qed

text \<open>The file name \<^verbatim>\<open>a=b\<close>, sent in quotes, is parsed as its rest behind the last equal sign, with a quote left.\<close>

lemma equal_sign_lost:
  "parse_disposition_params (''name='' @ quoted ''f'' @ ''; filename='' @ quoted ''a=b'') [] =
     [(''filename'', [CHR ''b'', DQUOTE]), (''name'', ''f'')]"
  by code_simp

text \<open>
  C15. A form of one item, serialised by the library's own client side and cut into reads in any way after
  the opening delimiter, is parsed by the server side to the same item: the header callback gets its
  name, file name and content type, and the content callback pieces that make up its content.  This holds
  for names and file names without double quotes, semicolons, equal signs and line ends, for content types
  without blanks at their ends, as long as these three are short, and for a boundary that the content does
  not contain.  The writer escapes nothing: a file name with an equal sign comes back as another text, as
  \<open>equal_sign_lost\<close> shows.
\<close>

theorem form_round_trip:
  assumes ccb: "\<And>a x. ccb a x = (True, f a x)" and hcb: "\<And>a m. hcb a m = (True, h a m)"
    and item: "quotable (mfd_name item)" "quotable (mfd_filename item)" "plain_type (mfd_content_type item)"
      "length (mfd_name item) + length (mfd_filename item) + length (mfd_content_type item) < 8000"
    and uniq: "find_sub (mfd_content item @ CRLF @ ''--'' @ b) (CRLF @ ''--'' @ b) 0 = Some (length (mfd_content item))"
    and first: "prefix (''--'' @ b @ CRLF) d" and all: "concat (d # ds) = serialize_multipart_formdata [item] b True"
  shows "\<exists>p' es. mp_feed ccb hcb (mp_init b) a (d # ds) = Some (True, p', foldl f (h a (item\<lparr> mfd_content := [] \<rparr>)) es) \<and>
    mp_valid p' \<and> concat es = mfd_content item"
  using multipart_parsed [of ccb f hcb h b d ds "item_lines item" "mfd_content item", OF ccb hcb first _ item_lines_parsed [OF item] uniq] all
  by (simp add: serialize_one) metis

section \<open>Instances\<close>

lemma demo_range_header: "parse_range_header ''bytes=2-,0-99,500-'' [] = (True, [(2, - 1), (0, 99), (500, - 1)])"
  by (simp add: parse_range_header_def Let_def http_split_pieces match_range_def trim_copy_def http_trim_def
      substr_def is_space_or_tab_def range_bound_def c_isdigit_def radix_val_def digit_val_def c_isspace_def)

theorem range_within_content_witness:
  "get_range_offset_and_length (2, - 1) 10 = (2, 8) \<and>
   (let (offset, len) = get_range_offset_and_length (0, 99) 10 in offset \<le> 10 \<and> offset + len = 100) \<and>
   get_range_offset_and_length (500, - 1) 10 = (500, 2 ^ 64 - 490)"
  using range_within_content [OF demo_range_header, of "(2, - 1)" 10] range_within_content [OF demo_range_header, of "(0, 99)" 10]
    range_within_content [OF demo_range_header, of "(500, - 1)" 10]
  by (simp add: get_range_offset_and_length_def to_ssize_def to_size_def)

abbreviation demo_item :: MultipartFormData where
  "demo_item \<equiv> \<lparr> mfd_name = ''file'', mfd_content = ''data'', mfd_filename = ''a.bin'',
     mfd_content_type = ''application/octet-stream'' \<rparr>"

theorem form_round_trip_witness:
  "\<exists>p' es. mp_feed (\<lambda>a x. (True, a @ x)) (\<lambda>a m. (True, mfd_filename m)) (mp_init ''b'') []
      [serialize_multipart_formdata [demo_item] ''b'' True] = Some (True, p', foldl (@) ''a.bin'' es) \<and>
    mp_valid p' \<and> concat es = ''data''"
proof -
  have "prefix (''--'' @ ''b'' @ CRLF) (serialize_multipart_formdata [demo_item] ''b'' True)"
    by (simp add: serialize_multipart_formdata_def serialize_multipart_formdata_item_begin_def)
  from form_round_trip [where ccb = "\<lambda>a x. (True, a @ x)" and f = "(@)" and h = "\<lambda>a m. mfd_filename m"
      and hcb = "\<lambda>a m. (True, mfd_filename m)" and a = "[]" and item = demo_item and ds = "[]", OF refl refl _ _ _ _ _ this]
  show ?thesis by (simp add: quotable_def plain_type_def is_space_or_tab_def find_sub_def)
qed

end
