(* ===== verification/Http_Routing.thy ===== *)
theory Http_Routing
  imports Http_Ranges FileUtils
begin

text \<open>
  Path matchers, the server object with its settings, and the request line
  (\<^verbatim>\<open>src/src/httplib.h\<close> lines 700-945, 5436-5522 and 5532-5848).  A handler gets the request, the
  response and the state \<open>'w\<close> of the application, and ends with a new response and state, with an
  exception, in undefined behaviour, or never.  A handler that throws leaves the response and the
  state as it got them, which is where the handlers of this program throw.  Regular expressions
  come from the standard library; the server takes the matching function as a field.
\<close>

section \<open>Matchers\<close>

datatype matcher = PathParamsMatcher "string list" "string list" | RegexMatcher string

text \<open>The static fragments and the parameter names of a pattern.  The set of names the source checks
  duplicates against stays empty, so the constructor never throws.\<close>

function path_fragments :: "string \<Rightarrow> nat \<Rightarrow> string list \<times> string list" where
  "path_fragments pattern last_param_end =
     (case find_first (\<lambda>c. c = CHR '':'') pattern last_param_end of
        None \<Rightarrow> (if last_param_end < length pattern then [drop last_param_end pattern] else [], [])
      | Some marker_pos \<Rightarrow>
          (let sep_pos = (case find_first (\<lambda>c. c = CHR ''/'') pattern (marker_pos + 1) of
                            Some p \<Rightarrow> p | None \<Rightarrow> length pattern);
               (fs, ns) = path_fragments pattern (sep_pos + 1)
           in (substr pattern last_param_end (marker_pos - last_param_end) # fs,
               substr pattern (marker_pos + 1) (sep_pos - (marker_pos + 1)) # ns)))"
  by pat_completeness auto
termination
proof (relation "measure (\<lambda>(p, n). length p - n)", goal_cases)
  case (2 pattern last_param_end marker_pos)
  from find_first_bounds [OF 2(1)] have "last_param_end \<le> marker_pos" "marker_pos < length pattern" by auto
  moreover have "marker_pos + 1 \<le> (case find_first (\<lambda>c. c = CHR ''/'') pattern (marker_pos + 1) of
      Some p \<Rightarrow> p | None \<Rightarrow> length pattern)"
    using calculation(2) by (auto split: option.split dest: find_first_bounds)
  ultimately show ?case using 2(2) by auto
qed simp

declare path_fragments.simps [simp del]

definition make_matcher :: "string \<Rightarrow> matcher" where
  "make_matcher pattern =
     (if find_sub pattern ''/:'' 0 \<noteq> None
      then (case path_fragments pattern 0 of (fs, ns) \<Rightarrow> PathParamsMatcher fs ns)
      else RegexMatcher pattern)"

text \<open>\<^verbatim>\<open>strncmp\<close> finds no difference in the first \<open>n\<close> characters; it stops at a NUL.\<close>

definition strncmp_eq :: "string \<Rightarrow> string \<Rightarrow> nat \<Rightarrow> bool" where
  "strncmp_eq s t n \<longleftrightarrow> take n (c_str s) = take n (c_str t)"

text \<open>The loop over the fragments from a position of the path; \<^verbatim>\<open>emplace\<close> keeps a name that is set.\<close>

fun match_fragments ::
  "string list \<Rightarrow> string list \<Rightarrow> string \<Rightarrow> nat \<Rightarrow> (string \<rightharpoonup> string) \<Rightarrow> bool \<times> (string \<rightharpoonup> string)" where
  "match_fragments [] ns path starting_pos params = (starting_pos \<ge> length path, params)"
| "match_fragments (fragment # fs) ns path starting_pos params =
     (if starting_pos + length fragment > length path then (False, params)
      else if \<not> strncmp_eq (drop starting_pos path) fragment (length fragment) then (False, params)
      else let pos = starting_pos + length fragment
        in case ns of
             [] \<Rightarrow> match_fragments fs [] path pos params
           | param_name # ns' \<Rightarrow>
               (let sep_pos = (case find_first (\<lambda>c. c = CHR ''/'') path pos of
                                 Some p \<Rightarrow> p | None \<Rightarrow> length path);
                    params' = (if params param_name = None
                               then params(param_name \<mapsto> substr path pos (sep_pos - pos)) else params)
                in match_fragments fs ns' path (sep_pos + 1) params'))"

definition match_request :: "(string \<Rightarrow> string \<Rightarrow> bool) \<Rightarrow> matcher \<Rightarrow> Request \<Rightarrow> bool \<times> Request" where
  "match_request regex_match m req =
     (case m of
        PathParamsMatcher fs ns \<Rightarrow>
          (case match_fragments fs ns (req_path req) 0 Map.empty of
             (ok, params) \<Rightarrow> (ok, req\<lparr> req_path_params := params \<rparr>))
      | RegexMatcher regex \<Rightarrow>
          (regex_match regex (req_path req), req\<lparr> req_path_params := Map.empty \<rparr>))"

section \<open>Handlers and the server\<close>

datatype 'a outcome = Returns 'a | Throws string | Undefined | Diverges

fun obind :: "'a outcome \<Rightarrow> ('a \<Rightarrow> 'b outcome) \<Rightarrow> 'b outcome" where
  "obind (Returns a) f = f a"
| "obind (Throws e) f = Throws e"
| "obind Undefined f = Undefined"
| "obind Diverges f = Diverges"

definition or_diverges :: "'a option \<Rightarrow> 'a outcome" where
  "or_diverges x = (case x of Some a \<Rightarrow> Returns a | None \<Rightarrow> Diverges)"

text \<open>The reader passed to a handler that wants to read the body itself; \<open>'a\<close> is the state its
  callbacks update, \<open>'r\<close> what the server keeps of the exchange while the body is read.\<close>

record ('a, 'r) content_reader =
  read_form :: "'r \<Rightarrow> 'a header_callback \<Rightarrow> 'a content_callback \<Rightarrow> 'a \<Rightarrow> (bool \<times> 'a \<times> 'r) outcome"
  read_plain :: "'r \<Rightarrow> 'a content_callback \<Rightarrow> 'a \<Rightarrow> (bool \<times> 'a \<times> 'r) outcome"

type_synonym 'w reader_state = "SocketStream \<times> Request \<times> 'w Response"

type_synonym 'w handler = "Request \<Rightarrow> 'w Response \<Rightarrow> 'w \<Rightarrow> ('w Response \<times> 'w) outcome"

type_synonym ('w, 'a) reader_handler =
  "('a, 'w reader_state) content_reader \<Rightarrow> Request \<Rightarrow> 'w Response \<Rightarrow> 'w \<Rightarrow> 'w reader_state \<Rightarrow>
   ('w Response \<times> 'w \<times> 'w reader_state) outcome"

datatype HandlerResponse = Handled | Unhandled

type_synonym 'w response_handler =
  "Request \<Rightarrow> 'w Response \<Rightarrow> 'w \<Rightarrow> (HandlerResponse \<times> 'w Response \<times> 'w) outcome"

record MountPointEntry =
  mount_point :: string
  base_dir :: string
  mount_headers :: headers

record ('w, 'a) server =
  regex_match :: "string \<Rightarrow> string \<Rightarrow> bool"
  server_disk :: "'w \<Rightarrow> fs"
  base_dirs :: "MountPointEntry list"
  file_extension_and_mimetype_map :: "string \<rightharpoonup> string"
  default_file_mimetype :: string
  file_request_handler :: "'w handler option"
  get_handlers :: "(matcher \<times> 'w handler) list"
  post_handlers :: "(matcher \<times> 'w handler) list"
  post_handlers_for_content_reader :: "(matcher \<times> ('w, 'a) reader_handler) list"
  put_handlers :: "(matcher \<times> 'w handler) list"
  put_handlers_for_content_reader :: "(matcher \<times> ('w, 'a) reader_handler) list"
  patch_handlers :: "(matcher \<times> 'w handler) list"
  patch_handlers_for_content_reader :: "(matcher \<times> ('w, 'a) reader_handler) list"
  delete_handlers :: "(matcher \<times> 'w handler) list"
  delete_handlers_for_content_reader :: "(matcher \<times> ('w, 'a) reader_handler) list"
  options_handlers :: "(matcher \<times> 'w handler) list"
  error_handler :: "'w response_handler option"
  exception_handler :: "(string \<Rightarrow> 'w handler) option"
  pre_routing_handler :: "'w response_handler option"
  post_routing_handler :: "'w handler option"
  expect_100_continue_handler :: "(Request \<Rightarrow> 'w Response \<Rightarrow> int) option"
  logger :: "(Request \<Rightarrow> 'w Response \<Rightarrow> 'w \<Rightarrow> 'w) option"
  address_family :: int
  tcp_nodelay :: bool
  default_headers :: headers
  header_writer :: "BufferStream \<Rightarrow> headers \<Rightarrow> int \<times> BufferStream"
  keep_alive_max_count :: nat
  keep_alive_timeout_sec :: nat
  read_timeout_sec :: nat
  read_timeout_usec :: nat
  write_timeout_sec :: nat
  write_timeout_usec :: nat
  idle_interval_sec :: nat
  idle_interval_usec :: nat
  payload_max_length :: nat

text \<open>A new server, for given regular expressions and disk; 0 stands for \<^verbatim>\<open>AF_UNSPEC\<close>.\<close>

definition Server :: "(string \<Rightarrow> string \<Rightarrow> bool) \<Rightarrow> ('w \<Rightarrow> fs) \<Rightarrow> ('w, 'a) server" where
  "Server regex disk =
     \<lparr> regex_match = regex, server_disk = disk, base_dirs = [], file_extension_and_mimetype_map = Map.empty,
       default_file_mimetype = ''application/octet-stream'', file_request_handler = None,
       get_handlers = [], post_handlers = [], post_handlers_for_content_reader = [],
       put_handlers = [], put_handlers_for_content_reader = [], patch_handlers = [],
       patch_handlers_for_content_reader = [], delete_handlers = [], delete_handlers_for_content_reader = [],
       options_handlers = [], error_handler = None, exception_handler = None, pre_routing_handler = None,
       post_routing_handler = None, expect_100_continue_handler = None, logger = None,
       address_family = 0, tcp_nodelay = False, default_headers = [],
       header_writer = write_headers buffer_write, keep_alive_max_count = 5, keep_alive_timeout_sec = 5,
       read_timeout_sec = 5, read_timeout_usec = 0, write_timeout_sec = 5, write_timeout_usec = 0,
       idle_interval_sec = 0, idle_interval_usec = 0, payload_max_length = ULONG_MAX \<rparr>"

section \<open>Settings\<close>

definition Get :: "('w, 'a) server \<Rightarrow> string \<Rightarrow> 'w handler \<Rightarrow> ('w, 'a) server" where
  "Get svr pattern handler = svr\<lparr> get_handlers := get_handlers svr @ [(make_matcher pattern, handler)] \<rparr>"

definition Post :: "('w, 'a) server \<Rightarrow> string \<Rightarrow> 'w handler \<Rightarrow> ('w, 'a) server" where
  "Post svr pattern handler = svr\<lparr> post_handlers := post_handlers svr @ [(make_matcher pattern, handler)] \<rparr>"

definition Post_reader :: "('w, 'a) server \<Rightarrow> string \<Rightarrow> ('w, 'a) reader_handler \<Rightarrow> ('w, 'a) server" where
  "Post_reader svr pattern handler =
     svr\<lparr> post_handlers_for_content_reader := post_handlers_for_content_reader svr @ [(make_matcher pattern, handler)] \<rparr>"

definition Put :: "('w, 'a) server \<Rightarrow> string \<Rightarrow> 'w handler \<Rightarrow> ('w, 'a) server" where
  "Put svr pattern handler = svr\<lparr> put_handlers := put_handlers svr @ [(make_matcher pattern, handler)] \<rparr>"

definition Put_reader :: "('w, 'a) server \<Rightarrow> string \<Rightarrow> ('w, 'a) reader_handler \<Rightarrow> ('w, 'a) server" where
  "Put_reader svr pattern handler =
     svr\<lparr> put_handlers_for_content_reader := put_handlers_for_content_reader svr @ [(make_matcher pattern, handler)] \<rparr>"

definition Patch :: "('w, 'a) server \<Rightarrow> string \<Rightarrow> 'w handler \<Rightarrow> ('w, 'a) server" where
  "Patch svr pattern handler = svr\<lparr> patch_handlers := patch_handlers svr @ [(make_matcher pattern, handler)] \<rparr>"

definition Patch_reader :: "('w, 'a) server \<Rightarrow> string \<Rightarrow> ('w, 'a) reader_handler \<Rightarrow> ('w, 'a) server" where
  "Patch_reader svr pattern handler =
     svr\<lparr> patch_handlers_for_content_reader := patch_handlers_for_content_reader svr @ [(make_matcher pattern, handler)] \<rparr>"

definition Delete :: "('w, 'a) server \<Rightarrow> string \<Rightarrow> 'w handler \<Rightarrow> ('w, 'a) server" where
  "Delete svr pattern handler = svr\<lparr> delete_handlers := delete_handlers svr @ [(make_matcher pattern, handler)] \<rparr>"

definition Delete_reader :: "('w, 'a) server \<Rightarrow> string \<Rightarrow> ('w, 'a) reader_handler \<Rightarrow> ('w, 'a) server" where
  "Delete_reader svr pattern handler =
     svr\<lparr> delete_handlers_for_content_reader := delete_handlers_for_content_reader svr @ [(make_matcher pattern, handler)] \<rparr>"

definition Options :: "('w, 'a) server \<Rightarrow> string \<Rightarrow> 'w handler \<Rightarrow> ('w, 'a) server" where
  "Options svr pattern handler = svr\<lparr> options_handlers := options_handlers svr @ [(make_matcher pattern, handler)] \<rparr>"

definition set_mount_point ::
  "('w, 'a) server \<Rightarrow> 'w \<Rightarrow> string \<Rightarrow> string \<Rightarrow> headers \<Rightarrow> bool \<times> ('w, 'a) server" where
  "set_mount_point svr w mount dir headers =
     (case stat (server_disk svr w) dir of
        Some (Dir _) \<Rightarrow>
          (let mnt = (if mount \<noteq> [] then mount else ''/'') in
           if hd mnt = CHR ''/''
           then (True, svr\<lparr> base_dirs := base_dirs svr @ [\<lparr> mount_point = mnt, base_dir = dir, mount_headers = headers \<rparr>] \<rparr>)
           else (False, svr))
      | _ \<Rightarrow> (False, svr))"

definition set_base_dir :: "('w, 'a) server \<Rightarrow> 'w \<Rightarrow> string \<Rightarrow> string \<Rightarrow> bool \<times> ('w, 'a) server" where
  "set_base_dir svr w dir mount = set_mount_point svr w mount dir []"

fun remove_first :: "('x \<Rightarrow> bool) \<Rightarrow> 'x list \<Rightarrow> bool \<times> 'x list" where
  "remove_first P [] = (False, [])"
| "remove_first P (x # xs) =
     (if P x then (True, xs) else case remove_first P xs of (found, ys) \<Rightarrow> (found, x # ys))"

definition remove_mount_point :: "('w, 'a) server \<Rightarrow> string \<Rightarrow> bool \<times> ('w, 'a) server" where
  "remove_mount_point svr mount =
     (case remove_first (\<lambda>e. mount_point e = mount) (base_dirs svr) of
        (found, dirs) \<Rightarrow> (found, svr\<lparr> base_dirs := dirs \<rparr>))"

definition set_file_extension_and_mimetype_mapping ::
  "('w, 'a) server \<Rightarrow> string \<Rightarrow> string \<Rightarrow> ('w, 'a) server" where
  "set_file_extension_and_mimetype_mapping svr ext mime =
     svr\<lparr> file_extension_and_mimetype_map := (file_extension_and_mimetype_map svr)(ext \<mapsto> mime) \<rparr>"

definition set_error_handler :: "('w, 'a) server \<Rightarrow> 'w response_handler \<Rightarrow> ('w, 'a) server" where
  "set_error_handler svr handler = svr\<lparr> error_handler := Some handler \<rparr>"

text \<open>The overload for a plain handler reports every request as handled.\<close>

definition set_plain_error_handler :: "('w, 'a) server \<Rightarrow> 'w handler \<Rightarrow> ('w, 'a) server" where
  "set_plain_error_handler svr handler =
     svr\<lparr> error_handler := Some (\<lambda>req res w.
       obind (handler req res w) (\<lambda>(res', w'). Returns (Handled, res', w'))) \<rparr>"

definition set_default_file_mimetype :: "('w, 'a) server \<Rightarrow> string \<Rightarrow> ('w, 'a) server" where
  "set_default_file_mimetype svr mime = svr\<lparr> default_file_mimetype := mime \<rparr>"

definition set_file_request_handler :: "('w, 'a) server \<Rightarrow> 'w handler \<Rightarrow> ('w, 'a) server" where
  "set_file_request_handler svr handler = svr\<lparr> file_request_handler := Some handler \<rparr>"

definition set_exception_handler :: "('w, 'a) server \<Rightarrow> (string \<Rightarrow> 'w handler) \<Rightarrow> ('w, 'a) server" where
  "set_exception_handler svr handler = svr\<lparr> exception_handler := Some handler \<rparr>"

definition set_pre_routing_handler :: "('w, 'a) server \<Rightarrow> 'w response_handler \<Rightarrow> ('w, 'a) server" where
  "set_pre_routing_handler svr handler = svr\<lparr> pre_routing_handler := Some handler \<rparr>"

definition set_post_routing_handler :: "('w, 'a) server \<Rightarrow> 'w handler \<Rightarrow> ('w, 'a) server" where
  "set_post_routing_handler svr handler = svr\<lparr> post_routing_handler := Some handler \<rparr>"

definition set_logger :: "('w, 'a) server \<Rightarrow> (Request \<Rightarrow> 'w Response \<Rightarrow> 'w \<Rightarrow> 'w) \<Rightarrow> ('w, 'a) server" where
  "set_logger svr log = svr\<lparr> logger := Some log \<rparr>"

definition set_expect_100_continue_handler ::
  "('w, 'a) server \<Rightarrow> (Request \<Rightarrow> 'w Response \<Rightarrow> int) \<Rightarrow> ('w, 'a) server" where
  "set_expect_100_continue_handler svr handler = svr\<lparr> expect_100_continue_handler := Some handler \<rparr>"

definition set_address_family :: "('w, 'a) server \<Rightarrow> int \<Rightarrow> ('w, 'a) server" where
  "set_address_family svr family = svr\<lparr> address_family := family \<rparr>"

definition set_tcp_nodelay :: "('w, 'a) server \<Rightarrow> bool \<Rightarrow> ('w, 'a) server" where
  "set_tcp_nodelay svr on = svr\<lparr> tcp_nodelay := on \<rparr>"

definition set_default_headers :: "('w, 'a) server \<Rightarrow> headers \<Rightarrow> ('w, 'a) server" where
  "set_default_headers svr hs = svr\<lparr> default_headers := hs \<rparr>"

definition set_header_writer ::
  "('w, 'a) server \<Rightarrow> (BufferStream \<Rightarrow> headers \<Rightarrow> int \<times> BufferStream) \<Rightarrow> ('w, 'a) server" where
  "set_header_writer svr w = svr\<lparr> header_writer := w \<rparr>"

definition set_keep_alive_max_count :: "('w, 'a) server \<Rightarrow> nat \<Rightarrow> ('w, 'a) server" where
  "set_keep_alive_max_count svr count = svr\<lparr> keep_alive_max_count := count \<rparr>"

definition set_keep_alive_timeout :: "('w, 'a) server \<Rightarrow> nat \<Rightarrow> ('w, 'a) server" where
  "set_keep_alive_timeout svr sec = svr\<lparr> keep_alive_timeout_sec := sec \<rparr>"

definition set_read_timeout :: "('w, 'a) server \<Rightarrow> nat \<Rightarrow> nat \<Rightarrow> ('w, 'a) server" where
  "set_read_timeout svr sec usec = svr\<lparr> read_timeout_sec := sec, read_timeout_usec := usec \<rparr>"

definition set_write_timeout :: "('w, 'a) server \<Rightarrow> nat \<Rightarrow> nat \<Rightarrow> ('w, 'a) server" where
  "set_write_timeout svr sec usec = svr\<lparr> write_timeout_sec := sec, write_timeout_usec := usec \<rparr>"

definition set_idle_interval :: "('w, 'a) server \<Rightarrow> nat \<Rightarrow> nat \<Rightarrow> ('w, 'a) server" where
  "set_idle_interval svr sec usec = svr\<lparr> idle_interval_sec := sec, idle_interval_usec := usec \<rparr>"

definition set_payload_max_length :: "('w, 'a) server \<Rightarrow> nat \<Rightarrow> ('w, 'a) server" where
  "set_payload_max_length svr len = svr\<lparr> payload_max_length := len \<rparr>"

section \<open>The request line\<close>

definition request_methods :: "string list" where
  "request_methods = [''GET'', ''HEAD'', ''POST'', ''PUT'', ''DELETE'', ''CONNECT'', ''OPTIONS'', ''TRACE'', ''PATCH'', ''PRI'']"

text \<open>The words of the line in the order of the callback; the fields are set even when the line is
  refused afterwards.\<close>

definition set_words :: "string list \<Rightarrow> Request \<Rightarrow> Request" where
  "set_words ws req =
     req\<lparr> req_method := (if length ws > 0 then ws ! 0 else req_method req),
         req_target := (if length ws > 1 then ws ! 1 else req_target req),
         req_version := (if length ws > 2 then ws ! 2 else req_version req) \<rparr>"

definition set_target :: "Request \<Rightarrow> Request" where
  "set_target req =
     (let target = takeWhile (\<lambda>c. c \<noteq> CHR ''#'') (req_target req);
          qs = http_split target (CHR ''?'') (Some 2);
          req1 = req\<lparr> req_target := target,
            req_path := (if length qs > 0 then decode_url (qs ! 0) False else req_path req) \<rparr>
      in if length qs > 1 then req1\<lparr> req_params := parse_query_text (qs ! 1) (req_params req1) \<rparr> else req1)"

definition parse_request_line :: "string \<Rightarrow> Request \<Rightarrow> bool \<times> Request" where
  "parse_request_line line req =
     (let s = c_str line; len = length s in
      if len < 2 \<or> s ! (len - 2) \<noteq> CR \<or> s ! (len - 1) \<noteq> LF then (False, req)
      else let ws = http_split (take (len - 2) s) SP None;
               req1 = set_words ws req
        in if length ws \<noteq> 3 then (False, req1)
           else if req_method req1 \<notin> set request_methods then (False, req1)
           else if req_version req1 \<noteq> ''HTTP/1.1'' \<and> req_version req1 \<noteq> ''HTTP/1.0'' then (False, req1)
           else (True, set_target req1))"

section \<open>Dispatch and mounted files\<close>

text \<open>The first handler whose matcher accepts; the matchers tried before leave their parameters.\<close>

fun find_handler ::
  "(string \<Rightarrow> string \<Rightarrow> bool) \<Rightarrow> (matcher \<times> 'h) list \<Rightarrow> Request \<Rightarrow> 'h option \<times> Request" where
  "find_handler regex [] req = (None, req)"
| "find_handler regex ((m, h) # hs) req =
     (case match_request regex m req of
        (ok, req') \<Rightarrow> if ok then (Some h, req') else find_handler regex hs req')"

text \<open>Reading past the mapped file is undefined, \<^const>\<open>None\<close>.\<close>

definition mmap_provider :: "string \<Rightarrow> 'w content_provider" where
  "mmap_provider content = (\<lambda>w offset len.
     if offset + len \<le> length content then Some ([SinkWrite (substr content offset len)], True) else None)"

fun handle_file_entries ::
  "('w, 'a) server \<Rightarrow> MountPointEntry list \<Rightarrow> Request \<Rightarrow> 'w Response \<Rightarrow> 'w \<Rightarrow> bool \<Rightarrow>
   (bool \<times> 'w Response \<times> 'w) outcome" where
  "handle_file_entries svr [] req res w head = Returns (False, res, w)"
| "handle_file_entries svr (entry # es) req res w head =
     (if take (length (mount_point entry)) (req_path req) \<noteq> mount_point entry
      then handle_file_entries svr es req res w head
      else let sub_path = ''/'' @ drop (length (mount_point entry)) (req_path req) in
        if \<not> is_valid_path sub_path then handle_file_entries svr es req res w head
        else let path = base_dir entry @ sub_path;
                 path = (if last path = CHR ''/'' then path @ ''index.html'' else path)
          in case stat (server_disk svr w) path of
               Some (Reg content) \<Rightarrow>
                 (let res1 = foldl (\<lambda>r (k, v). set_header r k v) res (mount_headers entry);
                      res2 = set_content_provider res1 (length content)
                        (find_content_type path (file_extension_and_mimetype_map svr) (default_file_mimetype svr))
                        (mmap_provider content) None
                  in case file_request_handler svr of
                       Some h \<Rightarrow>
                         if \<not> head then obind (h req res2 w) (\<lambda>(res3, w'). Returns (True, res3, w'))
                         else Returns (True, res2, w)
                     | None \<Rightarrow> Returns (True, res2, w))
             | _ \<Rightarrow> handle_file_entries svr es req res w head)"

definition handle_file_request ::
  "('w, 'a) server \<Rightarrow> Request \<Rightarrow> 'w Response \<Rightarrow> 'w \<Rightarrow> bool \<Rightarrow> (bool \<times> 'w Response \<times> 'w) outcome" where
  "handle_file_request svr req res w head = handle_file_entries svr (base_dirs svr) req res w head"

section \<open>What a pattern matches\<close>

text \<open>The path a pattern stands for, with the values of its parameters filled in.\<close>

fun fill :: "string list \<Rightarrow> string list \<Rightarrow> string" where
  "fill [] vs = []"
| "fill (f # fs) [] = f"
| "fill (f # fs) (v # vs) = f @ v @ (if fs = [] then [] else ''/'' @ fill fs vs)"

abbreviation no_slash :: "string \<Rightarrow> bool" where
  "no_slash v \<equiv> CHR ''/'' \<notin> set v"

lemma find_first_or_end:
  assumes "pos \<le> length s"
  shows "(case find_first P s pos of Some p \<Rightarrow> p | None \<Rightarrow> length s) = pos + length (takeWhile (\<lambda>c. \<not> P c) (drop pos s))"
  using assms length_takeWhile_le [of "\<lambda>c. \<not> P c" "drop pos s"] by (auto simp: find_first_def Let_def)

lemma emplace_map:
  "m ++ (if P n = None then P(n \<mapsto> v) else P) = m(n \<mapsto> v) ++ P"
  by (rule ext) (auto simp: map_add_def split: option.splits)

abbreviation no_nul :: "string \<Rightarrow> bool" where
  "no_nul f \<equiv> NUL \<notin> set f"

lemma strncmp_eq_prefix: "no_nul f \<Longrightarrow> strncmp_eq s f (length f) \<longleftrightarrow> prefix f s"
proof -
  assume f: "no_nul f"
  then have "c_str f = f" by (rule c_str_id)
  moreover have "take (length f) (c_str s) = f \<longleftrightarrow> prefix f s"
    using f
  proof (induction f arbitrary: s)
    case (Cons c f)
    then show ?case by (cases s) (auto simp: c_str_def)
  qed simp
  ultimately show ?thesis by (simp add: strncmp_eq_def)
qed

text \<open>One parameter: its value ends at the next slash or at the end of the path.\<close>

lemma match_param:
  assumes "pos \<le> length path" "no_nul f"
  shows "match_fragments (f # fs) (n # ns) path pos P =
    (if prefix f (drop pos path)
     then let v = takeWhile (\<lambda>c. c \<noteq> CHR ''/'') (drop (length f) (drop pos path))
       in match_fragments fs ns path (pos + length f + length v + 1) (if P n = None then P(n \<mapsto> v) else P)
     else (False, P))"
proof (cases "prefix f (drop pos path)")
  case True
  then have len: "pos + length f \<le> length path" using assms prefix_length_le by fastforce
  have "substr path (pos + length f) (length (takeWhile (\<lambda>c. c \<noteq> CHR ''/'') (drop (pos + length f) path))) =
      takeWhile (\<lambda>c. c \<noteq> CHR ''/'') (drop (pos + length f) path)"
    by (simp add: substr_def takeWhile_eq_take [symmetric])
  then show ?thesis using True len find_first_or_end [OF len, of "\<lambda>c. c = CHR ''/''"]
    by (simp add: Let_def add.commute strncmp_eq_prefix [OF assms(2)])
qed (simp add: strncmp_eq_prefix [OF assms(2)])

lemma slash_split:
  assumes "no_slash v" "no_slash w"
  shows "v @ CHR ''/'' # a = w @ CHR ''/'' # b \<longleftrightarrow> v = w \<and> a = b"
proof
  assume e: "v @ CHR ''/'' # a = w @ CHR ''/'' # b"
  have "takeWhile (\<lambda>c. c \<noteq> CHR ''/'') (v @ CHR ''/'' # a) = v" "takeWhile (\<lambda>c. c \<noteq> CHR ''/'') (w @ CHR ''/'' # b) = w"
    using assms by (subst takeWhile_append2; auto)+
  then show "v = w \<and> a = b" using e by auto
qed auto

lemma ex_length_Suc:
  "(\<exists>vs. length vs = Suc k \<and> Q vs) \<longleftrightarrow> (\<exists>v vs. length vs = k \<and> Q (v # vs))"
  by (metis length_Suc_conv)

text \<open>One fragment with its parameter: the value ends before the next slash, or at the end of the path.\<close>

lemma match_param_step:
  assumes "pos \<le> length path" "no_nul f" "drop pos path = f @ t" "v = takeWhile (\<lambda>c. c \<noteq> CHR ''/'') t"
  shows "match_fragments (f # fs) (n # ns) path pos P =
      match_fragments fs ns path (pos + length f + length v + 1) (if P n = None then P(n \<mapsto> v) else P)"
  using match_param [OF assms(1,2), of fs n ns P] assms(3,4) by (simp add: Let_def)

lemma rest_length: "pos \<le> length path \<Longrightarrow> drop pos path = f @ t \<Longrightarrow> length path = pos + length f + length t"
  by (metis add.assoc length_append length_drop le_add_diff_inverse)

lemma first_slash:
  assumes "\<not> no_slash t"
  obtains u where "t = takeWhile (\<lambda>c. c \<noteq> CHR ''/'') t @ CHR ''/'' # u"
proof -
  let ?d = "dropWhile (\<lambda>c. c \<noteq> CHR ''/'') t"
  have "?d \<noteq> []" using assms by (auto simp: dropWhile_eq_Nil_conv)
  moreover from this have "hd ?d = CHR ''/''" using hd_dropWhile [of "\<lambda>c. c \<noteq> CHR ''/''" t] by simp
  ultimately obtain u where "?d = CHR ''/'' # u" by (cases ?d) auto
  then show ?thesis using that takeWhile_dropWhile_id [of "\<lambda>c. c \<noteq> CHR ''/''" t] by metis
qed

text \<open>What a list of values must satisfy for the fragments from a position on.\<close>

definition fits :: "string list \<Rightarrow> string list \<Rightarrow> string \<Rightarrow> (string \<rightharpoonup> string) \<Rightarrow> (string \<rightharpoonup> string) \<Rightarrow> string list \<Rightarrow> bool" where
  "fits fs ns s P Q vs \<longleftrightarrow> length vs = length ns \<and> list_all no_slash vs \<and> Q = map_of (zip ns vs) ++ P \<and>
     (s = fill fs vs \<or> length ns = length fs \<and> s = fill fs vs @ ''/'')"

lemma ex_fits_Cons:
  "(\<exists>vs. fits fs (n # ns) s P Q vs) \<longleftrightarrow> (\<exists>v vs. fits fs (n # ns) s P Q (v # vs))"
proof
  assume "\<exists>vs. fits fs (n # ns) s P Q vs"
  then obtain vs where vs: "fits fs (n # ns) s P Q vs" ..
  then show "\<exists>v vs. fits fs (n # ns) s P Q (v # vs)" by (cases vs) (auto simp: fits_def)
qed blast

lemma match_last_value:
  assumes "pos \<le> length path" "no_nul f" "drop pos path = f @ t" "no_slash t" "length ns \<le> length fs" "length fs \<le> Suc (length ns)"
  shows "match_fragments (f # fs) (n # ns) path pos P = (True, Q) \<longleftrightarrow> (\<exists>vs. fits (f # fs) (n # ns) (f @ t) P Q vs)"
proof -
  have t: "takeWhile (\<lambda>c. c \<noteq> CHR ''/'') t = t" using assms(4) by (auto simp: takeWhile_eq_all_conv)
  note step = match_param_step [OF assms(1-3), of _ fs n ns P, OF t [symmetric]] rest_length [OF assms(1,3)]
  have no: "f @ t \<noteq> f @ w @ CHR ''/'' # z" for w z using assms(4) by auto
  show ?thesis
  proof (cases fs)
    case Nil
    then have "ns = []" using assms(5) by simp
    then show ?thesis unfolding step(1) ex_fits_Cons using assms(4) step(2) Nil emplace_map [of Map.empty P n t] no
      by (auto simp: fits_def)
  next
    case (Cons g gs)
    then show ?thesis unfolding step(1) ex_fits_Cons using step(2) no by (simp add: fits_def)
  qed
qed

text \<open>The value before a slash is the only one that fits, and the rest is left to the other fragments.\<close>

lemma fits_slash:
  assumes "no_slash v" "fs \<noteq> []"
  shows "fits (f # fs) (n # ns) (f @ v @ CHR ''/'' # u) P Q (w # ws) \<longleftrightarrow>
    w = v \<and> fits fs ns u (if P n = None then P(n \<mapsto> v) else P) Q ws"
proof -
  have "v @ CHR ''/'' # u = w @ CHR ''/'' # z \<longleftrightarrow> w = v \<and> z = u" if "no_slash w" for z
    using slash_split [OF that assms(1), of z u] by metis
  then show ?thesis unfolding fits_def emplace_map using assms by auto
qed

lemma match_spec:
  assumes "pos \<le> length path" "fs \<noteq> []" "length ns \<le> length fs" "length fs \<le> Suc (length ns)" "list_all no_nul fs"
  shows "match_fragments fs ns path pos P = (True, Q) \<longleftrightarrow> (\<exists>vs. fits fs ns (drop pos path) P Q vs)"
  using assms
proof (induction fs arbitrary: ns pos P)
  case (Cons f fs)
  let ?s = "drop pos path"
  have nul: "no_nul f" using Cons.prems(5) by simp
  show ?case
  proof (cases ns)
    case Nil
    then have "fs = []" using Cons.prems by simp
    moreover note nul
    moreover have "prefix f ?s \<Longrightarrow> length path \<le> pos + length f \<longleftrightarrow> ?s = f"
      using Cons.prems(1) by (auto simp: prefix_def) (metis append_Nil2 append_eq_conv_conj drop_all length_drop diff_le_mono2 le_diff_conv add.commute)
    ultimately show ?thesis using Nil Cons.prems(1) prefix_length_le [of f ?s] by (auto simp: fits_def strncmp_eq_prefix)
  next
    case ns: (Cons n ns')
    consider "\<not> prefix f ?s" | t where "?s = f @ t" "no_slash t" | t where "?s = f @ t" "\<not> no_slash t"
      by (auto simp: prefix_def)
    then show ?thesis
    proof cases
      case 1
      then have "?s \<noteq> f @ x" for x by auto
      then show ?thesis using 1 ns match_param [OF Cons.prems(1) nul, of fs n ns' P]
        by (auto simp: fits_def length_Suc_conv)
    next
      case 2
      then show ?thesis using match_last_value [OF Cons.prems(1) nul 2] Cons.prems(3,4) ns by simp
    next
      case (3 t)
      define v where "v = takeWhile (\<lambda>c. c \<noteq> CHR ''/'') t"
      obtain u where u: "t = v @ CHR ''/'' # u" using first_slash [OF 3(2)] unfolding v_def by blast
      have v: "no_slash v" by (auto simp: v_def dest: set_takeWhileD)
      let ?p = "pos + length f + length v + 1" and ?P = "if P n = None then P(n \<mapsto> v) else P"
      note step = match_param_step [OF Cons.prems(1) nul 3(1) v_def, of fs n ns' P] rest_length [OF Cons.prems(1) 3(1)]
      have "drop ?p path = drop (length f + length v + 1) ?s" by (simp add: ac_simps)
      also have "\<dots> = u" unfolding 3(1) by (subst u) simp
      finally have d: "drop ?p path = u" "?p \<le> length path" using step(2) arg_cong [OF u, of length] by simp_all
      show ?thesis
      proof (cases "fs = []")
        case True
        then have "ns' = []" using Cons.prems ns by simp
        moreover have "length path \<le> ?p \<longleftrightarrow> u = []" using d by auto
        moreover have "fits [f] [n] (f @ t) P Q [w] \<longleftrightarrow> w = v \<and> u = [] \<and> Q = [n \<mapsto> v] ++ P" for w
          using slash_split [of w v "[]" u] v 3(2) u by (auto simp: fits_def)
        ultimately show ?thesis unfolding ns step(1) 3(1) ex_fits_Cons using True emplace_map [of Map.empty P n v]
          by (auto simp: fits_def)
      next
        case False
        then have "length ns' \<le> length fs" "length fs \<le> Suc (length ns')" "list_all no_nul fs" using Cons.prems ns by auto
        note IH = Cons.IH [OF d(2) False this, of ?P]
        show ?thesis unfolding ns step(1) IH d(1) 3(1) ex_fits_Cons unfolding u fits_slash [OF v False] by blast
      qed
    qed
  qed
qed simp

lemma drop_take_drop: "m \<le> n \<Longrightarrow> drop m s = take (n - m) (drop m s) @ drop n s"
  by (metis append_take_drop_id drop_drop le_add_diff_inverse2)

lemma fragments_of_pattern:
  "path_fragments pattern k = (fs, ns) \<Longrightarrow> k \<le> length pattern \<Longrightarrow>
    length ns \<le> length fs \<and> length fs \<le> Suc (length ns) \<and> (fs = [] \<longleftrightarrow> drop k pattern = []) \<and>
    (drop k pattern = fill fs (map ((#) CHR '':'') ns) \<or>
     length ns = length fs \<and> drop k pattern = fill fs (map ((#) CHR '':'') ns) @ ''/'')"
proof (induction pattern k arbitrary: fs ns rule: path_fragments.induct)
  case (1 pattern k)
  show ?case
  proof (cases "find_first (\<lambda>c. c = CHR '':'') pattern k")
    case None
    then show ?thesis using "1.prems" by (auto simp: path_fragments.simps [of pattern k] split: if_splits)
  next
    case (Some m)
    define sep where "sep = (case find_first (\<lambda>c. c = CHR ''/'') pattern (m + 1) of Some p \<Rightarrow> p | None \<Rightarrow> length pattern)"
    from Some have m: "k \<le> m" "m < length pattern" "pattern ! m = CHR '':''" by (auto simp: find_first_Some_iff)
    have "m + 1 \<le> sep \<and> sep \<le> length pattern \<and> (sep < length pattern \<longrightarrow> pattern ! sep = CHR ''/'')"
    proof (cases "find_first (\<lambda>c. c = CHR ''/'') pattern (m + 1)")
      case slash: (Some p)
      then have "m + 1 \<le> p \<and> p < length pattern \<and> pattern ! p = CHR ''/''" unfolding find_first_Some_iff by blast
      then show ?thesis using slash by (simp add: sep_def)
    qed (use m in \<open>simp add: sep_def\<close>)
    then have sep: "m + 1 \<le> sep" "sep \<le> length pattern" "sep < length pattern \<Longrightarrow> pattern ! sep = CHR ''/''" by auto
    obtain gs os where g: "path_fragments pattern (sep + 1) = (gs, os)" by fastforce
    have fs: "fs = substr pattern k (m - k) # gs" "ns = substr pattern (m + 1) (sep - (m + 1)) # os"
      using "1.prems"(1) Some g sep_def by (auto simp: path_fragments.simps [of pattern k] Let_def)
    have d: "drop k pattern = substr pattern k (m - k) @ CHR '':'' # substr pattern (m + 1) (sep - (m + 1)) @ drop sep pattern"
      using drop_take_drop [OF m(1), of pattern] drop_take_drop [OF sep(1), of pattern] m Cons_nth_drop_Suc [of m pattern]
      by (simp add: substr_def)
    show ?thesis
    proof (cases "sep < length pattern")
      case True
      then have "drop sep pattern = CHR ''/'' # drop (sep + 1) pattern" using sep(3) Cons_nth_drop_Suc [of sep pattern] by simp
      with "1.IH" [OF Some refl, of gs os] sep_def g True d fs show ?thesis by (auto simp: Let_def)
    next
      case False
      then have "sep = length pattern" using sep(2) by simp
      then have "gs = []" "os = []" using g by (auto simp: path_fragments.simps [of pattern "Suc (length pattern)"] find_first_def)
      then show ?thesis using d fs False m by auto
    qed
  qed
qed

lemma fragments_no_nul:
  "no_nul pattern \<Longrightarrow> path_fragments pattern k = (fs, ns) \<Longrightarrow> list_all no_nul fs"
proof (induction pattern k arbitrary: fs ns rule: path_fragments.induct)
  case (1 pattern k)
  have sub: "no_nul (substr pattern i n)" "no_nul (drop i pattern)" for i n
    using "1.prems"(1) by (auto simp: substr_def dest!: in_set_takeD in_set_dropD)
  show ?case
  proof (cases "find_first (\<lambda>c. c = CHR '':'') pattern k")
    case None
    then show ?thesis using "1.prems"(2) sub by (auto simp: path_fragments.simps [of pattern k] split: if_splits)
  next
    case (Some m)
    from "1.IH" [OF Some refl "1.prems"(1)] show ?thesis using "1.prems"(2) Some sub
      by (auto simp: path_fragments.simps [of pattern k] Let_def split: prod.splits)
  qed
qed

text \<open>
  C16. Route patterns: the matcher built for a pattern with parameters and without NUL consists of fragments
  and names that put together are the pattern, up to a slash at its end, and it accepts exactly the paths that
  result when each parameter, colon and name, is replaced by a text without slashes, where a slash may follow
  a parameter at the end.  The path parameters are then those texts under their names; where a name repeats,
  the first.  A colon in the path is part of the value: the path in the comment of the class is bound to \<^verbatim>\<open>:1\<close>
  and \<^verbatim>\<open>:2\<close>, not to the \<^verbatim>\<open>1\<close> and \<^verbatim>\<open>2\<close> the comment promises.
\<close>

theorem path_params_exact:
  assumes "find_sub pattern ''/:'' 0 \<noteq> None" "NUL \<notin> set pattern"
  shows "\<exists>fs ns. make_matcher pattern = PathParamsMatcher fs ns \<and>
    (pattern = fill fs (map ((#) CHR '':'') ns) \<or> pattern = fill fs (map ((#) CHR '':'') ns) @ ''/'') \<and>
    (\<forall>regex req req'. match_request regex (make_matcher pattern) req = (True, req') \<longleftrightarrow>
      (\<exists>vs. length vs = length ns \<and> list_all no_slash vs \<and>
        req' = req\<lparr> req_path_params := map_of (zip ns vs) \<rparr> \<and>
        (req_path req = fill fs vs \<or> length ns = length fs \<and> req_path req = fill fs vs @ ''/'')))"
proof -
  obtain fs ns where f: "path_fragments pattern 0 = (fs, ns)" by fastforce
  from fragments_of_pattern [OF f] assms have "fs \<noteq> []" "length ns \<le> length fs" "length fs \<le> Suc (length ns)"
    by (auto simp: find_sub_def)
  from match_spec [OF _ this fragments_no_nul [OF assms(2) f], of 0 _ Map.empty]
  have spec: "match_fragments fs ns path 0 Map.empty = (True, Q) \<longleftrightarrow>
    (\<exists>vs. length vs = length ns \<and> list_all no_slash vs \<and> Q = map_of (zip ns vs) \<and>
      (path = fill fs vs \<or> length ns = length fs \<and> path = fill fs vs @ ''/''))" for path Q by (simp add: fits_def)
  have mm: "make_matcher pattern = PathParamsMatcher fs ns" using assms f by (simp add: make_matcher_def)
  have "match_request regex (PathParamsMatcher fs ns) req = (True, req') \<longleftrightarrow>
      (\<exists>Q. match_fragments fs ns (req_path req) 0 Map.empty = (True, Q) \<and> req' = req\<lparr> req_path_params := Q \<rparr>)" for regex req req'
    by (auto simp: match_request_def split: prod.splits)
  then have "match_request regex (PathParamsMatcher fs ns) req = (True, req') \<longleftrightarrow>
      (\<exists>vs. length vs = length ns \<and> list_all no_slash vs \<and>
        req' = req\<lparr> req_path_params := map_of (zip ns vs) \<rparr> \<and>
        (req_path req = fill fs vs \<or> length ns = length fs \<and> req_path req = fill fs vs @ ''/''))" for regex req req'
    unfolding spec by blast
  moreover have "pattern = fill fs (map ((#) CHR '':'') ns) \<or> pattern = fill fs (map ((#) CHR '':'') ns) @ ''/''"
    using fragments_of_pattern [OF f] by auto
  ultimately show ?thesis unfolding mm by blast
qed

theorem path_params_exact_witness:
  "match_request (\<lambda>_ _. False) (make_matcher ''/path/fragments/:capture/more/fragments/:second_capture'')
     (Request_default\<lparr> req_path := ''/path/fragments/:1/more/fragments/:2'' \<rparr>) =
   (True, Request_default\<lparr> req_path := ''/path/fragments/:1/more/fragments/:2'',
     req_path_params := [''capture'' \<mapsto> '':1'', ''second_capture'' \<mapsto> '':2''] \<rparr>)"
proof -
  let ?p = "''/path/fragments/:capture/more/fragments/:second_capture''"
  have m: "make_matcher ?p = PathParamsMatcher [''/path/fragments/'', ''more/fragments/''] [''capture'', ''second_capture'']" by code_simp
  have "find_sub ?p ''/:'' 0 \<noteq> None" "NUL \<notin> set ?p" by code_simp simp
  from path_params_exact [OF this] show ?thesis unfolding m
    by (auto intro!: exI [of _ "['':1'', '':2'']"] simp: fun_upd_twist)
qed

end
