(* ===== verification/Http_Server.thy ===== *)
theory Http_Server
  imports Http_Routing
begin

text \<open>
  One connection of the server: reading a body, routing, writing the response, and the loop that
  keeps the connection alive (\<^verbatim>\<open>src/src/httplib.h\<close> lines 2880-2932, 5850-6092 and 6255-6622).  The
  random engine, the addresses and the descriptor of the connection, and what the shutdown flag
  answers at each look are parameters.  The stream functions give no result when they run forever
  or when a content provider is undefined there; both are \<^const>\<open>Diverges\<close> here.  A failed assertion
  is \<^const>\<open>Undefined\<close>.
\<close>

section \<open>Ranges and the response\<close>

definition mm_erase_first :: "('k \<Rightarrow> 'k \<Rightarrow> bool) \<Rightarrow> 'k \<Rightarrow> ('k \<times> 'v) list \<Rightarrow> ('k \<times> 'v) list" where
  "mm_erase_first lt k m = snd (remove_first (\<lambda>e. mm_equiv lt k (fst e)) m)"

text \<open>\<^verbatim>\<open>apply_ranges\<close> returns the response, the content type and the boundary.  No compressor is built
  in, so a body is never compressed.\<close>

definition apply_range_headers :: "(nat \<Rightarrow> nat) \<Rightarrow> Request \<Rightarrow> 'w Response \<Rightarrow> 'w Response \<times> string \<times> string" where
  "apply_range_headers engine req res =
     (if length (req_ranges req) > 1
      then let boundary = make_multipart_data_boundary engine;
               (content_type, res1) =
                 (if res_has_header res ''Content-Type''
                  then (res_get_header_value res ''Content-Type'' 0,
                        res\<lparr> res_headers := mm_erase_first ci ''Content-Type'' (res_headers res) \<rparr>)
                  else ([], res))
        in (set_header res1 ''Content-Type'' (''multipart/byteranges; boundary='' @ boundary), content_type, boundary)
      else (res, [], []))"

definition apply_provider_ranges :: "Request \<Rightarrow> EncodingType \<Rightarrow> string \<Rightarrow> string \<Rightarrow> 'w Response \<Rightarrow> 'w Response" where
  "apply_provider_ranges req type content_type boundary res =
     (if res_content_length res > 0
      then let (len, res1) =
             (case req_ranges req of
                [] \<Rightarrow> (res_content_length res, res)
              | [rng] \<Rightarrow> (snd (get_range_offset_and_length rng (res_content_length res)),
                          set_header res ''Content-Range'' (make_content_range_header_field rng (res_content_length res)))
              | _ \<Rightarrow> (get_multipart_ranges_data_length req res boundary content_type, res))
        in set_header res1 ''Content-Length'' (dec len)
      else if res_content_provider res \<noteq> None \<and> res_is_chunked_content_provider res
      then let res1 = set_header res ''Transfer-Encoding'' ''chunked''
        in case type of
             Gzip \<Rightarrow> set_header res1 ''Content-Encoding'' ''gzip''
           | Brotli \<Rightarrow> set_header res1 ''Content-Encoding'' ''br''
           | NoEncoding \<Rightarrow> res1
      else res)"

definition apply_body_ranges :: "Request \<Rightarrow> string \<Rightarrow> string \<Rightarrow> 'w Response \<Rightarrow> 'w Response" where
  "apply_body_ranges req content_type boundary res =
     (let res1 =
        (case req_ranges req of
           [] \<Rightarrow> res
         | [rng] \<Rightarrow>
             (let res' = set_header res ''Content-Range'' (make_content_range_header_field rng (length (res_body res)));
                  (offset, len) = get_range_offset_and_length rng (length (res_body res'))
              in if offset < length (res_body res')
                 then res'\<lparr> res_body := substr (res_body res') offset len \<rparr>
                 else res'\<lparr> res_body := [], res_status := 416 \<rparr>)
         | _ \<Rightarrow>
             (case make_multipart_ranges_data req res boundary content_type of
                (True, data) \<Rightarrow> res\<lparr> res_body := data \<rparr>
              | (False, _) \<Rightarrow> res\<lparr> res_body := [], res_status := 416 \<rparr>))
      in set_header res1 ''Content-Length'' (dec (length (res_body res1))))"

definition apply_ranges :: "(nat \<Rightarrow> nat) \<Rightarrow> Request \<Rightarrow> 'w Response \<Rightarrow> 'w Response \<times> string \<times> string" where
  "apply_ranges engine req res =
     (let (res1, content_type, boundary) = apply_range_headers engine req res;
          type = encoding_type req res1
      in (if res_body res1 = [] then apply_provider_ranges req type content_type boundary res1
          else apply_body_ranges req content_type boundary res1, content_type, boundary))"

definition write_content_with_provider ::
  "(nat \<Rightarrow> bool) \<Rightarrow> SocketStream \<Rightarrow> Request \<Rightarrow> 'w Response \<Rightarrow> 'w content_provider \<Rightarrow> 'w \<Rightarrow> string \<Rightarrow> string \<Rightarrow>
   (bool \<times> SocketStream) option" where
  "write_content_with_provider shut strm req res provider w boundary content_type =
     (if res_content_length res > 0
      then (case req_ranges req of
              [] \<Rightarrow> map_option (\<lambda>(ok, _, s). (ok, s))
                (write_content socket_is_writable socket_write strm provider w 0 (res_content_length res) shut)
            | [rng] \<Rightarrow>
                (case get_range_offset_and_length rng (res_content_length res) of
                   (offset, len) \<Rightarrow> map_option (\<lambda>(ok, _, s). (ok, s))
                     (write_content socket_is_writable socket_write strm provider w offset len shut))
            | _ \<Rightarrow> write_multipart_ranges_data socket_is_writable socket_write strm req res provider w boundary
                     content_type shut)
      else if res_is_chunked_content_provider res
      then map_option (\<lambda>(ok, _, s). (ok, s))
             (write_content_chunked socket_is_writable socket_write strm provider w shut nocompressor)
      else write_content_without_length socket_is_writable socket_write strm provider w shut)"

text \<open>The headers \<^verbatim>\<open>write_response_core\<close> adds.\<close>

definition add_response_headers :: "('w, 'a) server \<Rightarrow> bool \<Rightarrow> Request \<Rightarrow> 'w Response \<Rightarrow> 'w Response" where
  "add_response_headers svr close_connection req res =
     (let res1 = (if close_connection \<or> req_get_header_value req ''Connection'' 0 = ''close''
                  then set_header res ''Connection'' ''close''
                  else set_header res ''Keep-Alive'' (''timeout='' @ dec (keep_alive_timeout_sec svr) @
                         '', max='' @ dec (keep_alive_max_count svr)));
          res2 = (if \<not> res_has_header res1 ''Content-Type'' \<and>
                     (res_body res1 \<noteq> [] \<or> res_content_length res1 > 0 \<or> res_content_provider res1 \<noteq> None)
                  then set_header res1 ''Content-Type'' ''text/plain'' else res1);
          res3 = (if \<not> res_has_header res2 ''Content-Length'' \<and> res_body res2 = [] \<and>
                     res_content_length res2 = 0 \<and> res_content_provider res2 = None
                  then set_header res2 ''Content-Length'' ''0'' else res2)
      in if \<not> res_has_header res3 ''Accept-Ranges'' \<and> req_method req = ''HEAD''
         then set_header res3 ''Accept-Ranges'' ''bytes'' else res3)"

definition status_line :: "int \<Rightarrow> string" where
  "status_line status = ''HTTP/1.1 '' @ dec_int status @ '' '' @ status_message status @ CRLF"

text \<open>The body part of the response: the flag, the response with its provider's success, the stream.\<close>

definition write_body ::
  "(nat \<Rightarrow> bool) \<Rightarrow> SocketStream \<Rightarrow> Request \<Rightarrow> 'w Response \<Rightarrow> 'w \<Rightarrow> string \<Rightarrow> string \<Rightarrow>
   (bool \<times> 'w Response \<times> SocketStream) option" where
  "write_body shut strm req res w boundary content_type =
     (if req_method req = ''HEAD'' then Some (True, res, strm)
      else if res_body res \<noteq> []
      then map_option (\<lambda>(ok, s). (ok, res, s)) (write_data socket_write strm (res_body res))
      else case res_content_provider res of
             None \<Rightarrow> Some (True, res, strm)
           | Some provider \<Rightarrow>
               map_option (\<lambda>(ok, s). (ok, res\<lparr> res_content_provider_success := ok \<rparr>, s))
                 (write_content_with_provider shut strm req res provider w boundary content_type))"

definition write_response_core ::
  "(nat \<Rightarrow> nat) \<Rightarrow> (nat \<Rightarrow> bool) \<Rightarrow> ('w, 'a) server \<Rightarrow> SocketStream \<Rightarrow> bool \<Rightarrow> Request \<Rightarrow> 'w Response \<Rightarrow> 'w \<Rightarrow> bool \<Rightarrow>
   (bool \<times> 'w Response \<times> 'w \<times> SocketStream) outcome" where
  "write_response_core engine shut svr strm close_connection req res w need_apply_ranges =
     (if res_status res = - 1 then Undefined
      else obind
        (case error_handler svr of
           Some h \<Rightarrow> if 400 \<le> res_status res then h req res w else Returns (Unhandled, res, w)
         | None \<Rightarrow> Returns (Unhandled, res, w))
        (\<lambda>(handled, res1, w1).
          let (res2, content_type, boundary) =
                (if need_apply_ranges \<or> handled = Handled then apply_ranges engine req res1 else (res1, [], []));
              res3 = add_response_headers svr close_connection req res2
          in obind
               (case post_routing_handler svr of None \<Rightarrow> Returns (res3, w1) | Some h \<Rightarrow> h req res3 w1)
               (\<lambda>(res4, w2).
                 case header_writer svr \<lparr> buffer = status_line (res_status res4), buf_position = 0 \<rparr> (res_headers res4) of
                   (n, bstrm) \<Rightarrow>
                     if n = 0 then Returns (False, res4, w2, strm)
                     else obind (or_diverges (write_data socket_write strm (buffer bstrm)))
                       (\<lambda>(_, strm1). obind (or_diverges (write_body shut strm1 req res4 w2 boundary content_type))
                         (\<lambda>(ret, res5, strm2).
                           Returns (ret, res5, case logger svr of None \<Rightarrow> w2 | Some l \<Rightarrow> l req res5 w2, strm2))))))"

definition write_response ::
  "(nat \<Rightarrow> nat) \<Rightarrow> (nat \<Rightarrow> bool) \<Rightarrow> ('w, 'a) server \<Rightarrow> SocketStream \<Rightarrow> bool \<Rightarrow> Request \<Rightarrow> 'w Response \<Rightarrow> 'w \<Rightarrow>
   (bool \<times> 'w Response \<times> 'w \<times> SocketStream) outcome" where
  "write_response engine shut svr strm close_connection req res w =
     write_response_core engine shut svr strm close_connection req res w False"

definition write_response_with_content ::
  "(nat \<Rightarrow> nat) \<Rightarrow> (nat \<Rightarrow> bool) \<Rightarrow> ('w, 'a) server \<Rightarrow> SocketStream \<Rightarrow> bool \<Rightarrow> Request \<Rightarrow> 'w Response \<Rightarrow> 'w \<Rightarrow>
   (bool \<times> 'w Response \<times> 'w \<times> SocketStream) outcome" where
  "write_response_with_content engine shut svr strm close_connection req res w =
     write_response_core engine shut svr strm close_connection req res w True"

section \<open>Reading the body\<close>

text \<open>What is kept while a body is read: the multipart parser, the state of the callbacks, whether a
  callback that is not set was called (which throws), and whether the parser did not return.\<close>

record 'c receiving =
  rc_parser :: mp_parser
  rc_state :: 'c
  rc_thrown :: bool
  rc_hung :: bool

definition call_or_throw :: "('c \<Rightarrow> 'x \<Rightarrow> bool \<times> 'c) option \<Rightarrow> 'c \<times> bool \<Rightarrow> 'x \<Rightarrow> bool \<times> 'c \<times> bool" where
  "call_or_throw f c x =
     (case f of
        None \<Rightarrow> (False, fst c, True)
      | Some g \<Rightarrow> (case g (fst c) x of (ok, c') \<Rightarrow> (ok, c', snd c)))"

definition multipart_out ::
  "'c header_callback option \<Rightarrow> 'c content_callback option \<Rightarrow> 'c receiving receiver" where
  "multipart_out header receiver a buf off len =
     (case mp_parse (rc_parser a) buf (call_or_throw receiver) (call_or_throw header) (rc_state a, rc_thrown a) of
        None \<Rightarrow> (False, a\<lparr> rc_hung := True \<rparr>)
      | Some (ok, p, c, thrown) \<Rightarrow> (ok, a\<lparr> rc_parser := p, rc_state := c, rc_thrown := thrown \<rparr>))"

definition plain_out :: "'c content_callback option \<Rightarrow> 'c receiving receiver" where
  "plain_out receiver a buf off len =
     (case call_or_throw receiver (rc_state a, rc_thrown a) buf of
        (ok, c, thrown) \<Rightarrow> (ok, a\<lparr> rc_state := c, rc_thrown := thrown \<rparr>))"

definition read_content_core ::
  "('w, 'a) server \<Rightarrow> 'w reader_state \<Rightarrow> 'c content_callback option \<Rightarrow> 'c header_callback option \<Rightarrow>
   'c content_callback option \<Rightarrow> 'c \<Rightarrow> (bool \<times> 'c \<times> 'w reader_state) outcome" where
  "read_content_core svr st receiver multipart_header multipart_receiver c =
     (case st of
        (strm, req, res) \<Rightarrow>
          let multipart = is_multipart_form_data req;
              boundary = parse_multipart_boundary (req_get_header_value req ''Content-Type'' 0);
              out = (if multipart then multipart_out multipart_header multipart_receiver else plain_out receiver);
              a = \<lparr> rc_parser = mp_init (if multipart then the boundary else []), rc_state = c,
                    rc_thrown = False, rc_hung = False \<rparr>
          in if multipart \<and> boundary = None then Returns (False, c, strm, req, res\<lparr> res_status := 400 \<rparr>)
             else if req_method req = ''DELETE'' \<and> \<not> req_has_header req ''Content-Length''
             then Returns (True, c, strm, req, res)
             else case Http_Stream.read_content socket_read strm (req_headers req) (payload_max_length svr)
                    (res_status res) None out True a of
                    None \<Rightarrow> Diverges
                  | Some (ok, status, hs, a', strm') \<Rightarrow>
                      if rc_hung a' then Diverges
                      else if rc_thrown a' then Throws ''bad_function_call''
                      else let req' = req\<lparr> req_headers := hs \<rparr>; res' = res\<lparr> res_status := status \<rparr>
                        in if \<not> ok then Returns (False, rc_state a', strm', req', res')
                           else if is_multipart_form_data req' \<and> \<not> mp_valid (rc_parser a')
                           then Returns (False, rc_state a', strm', req', res'\<lparr> res_status := 400 \<rparr>)
                           else Returns (True, rc_state a', strm', req', res'))"

definition read_content_with_content_receiver ::
  "('w, 'a) server \<Rightarrow> 'w reader_state \<Rightarrow> 'c content_callback option \<Rightarrow> 'c header_callback option \<Rightarrow>
   'c content_callback option \<Rightarrow> 'c \<Rightarrow> (bool \<times> 'c \<times> 'w reader_state) outcome" where
  "read_content_with_content_receiver svr st receiver multipart_header multipart_receiver c =
     read_content_core svr st receiver multipart_header multipart_receiver c"

definition server_reader :: "('w, 'a) server \<Rightarrow> ('c, 'w reader_state) content_reader" where
  "server_reader svr = \<lparr>
     read_form = (\<lambda>st header receiver c. read_content_with_content_receiver svr st None (Some header) (Some receiver) c),
     read_plain = (\<lambda>st receiver c. read_content_with_content_receiver svr st (Some receiver) None None c) \<rparr>"

text \<open>The body and the files of the request while they are collected; \<open>bd_cur\<close> is the position of the
  file the iterator \<^verbatim>\<open>cur\<close> points to, and \<open>bd_undefined\<close> tells that it was used before it was set.\<close>

record body_state =
  bd_body :: string
  bd_files :: "(string \<times> MultipartFormData) list"
  bd_cur :: "nat option"
  bd_count :: nat
  bd_undefined :: bool

definition string_max_size :: nat where "string_max_size = 2 ^ 62 - 1"

definition FORM_DATA_FILE_MAX_COUNT :: nat where "FORM_DATA_FILE_MAX_COUNT = 1024"

definition FORM_URL_ENCODED_PAYLOAD_MAX_LENGTH :: nat where "FORM_URL_ENCODED_PAYLOAD_MAX_LENGTH = 8192"

definition collect_body :: "body_state content_callback" where
  "collect_body b buf =
     (if length (bd_body b) + length buf > string_max_size then (False, b)
      else (True, b\<lparr> bd_body := bd_body b @ buf \<rparr>))"

definition collect_header :: "body_state header_callback" where
  "collect_header b file =
     (if bd_count b = FORM_DATA_FILE_MAX_COUNT then (False, b\<lparr> bd_count := bd_count b + 1 \<rparr>)
      else (True, b\<lparr> bd_count := bd_count b + 1,
               bd_files := mm_emplace string_less (mfd_name file) file (bd_files b),
               bd_cur := Some (length (takeWhile (\<lambda>e. \<not> string_less (mfd_name file) (fst e)) (bd_files b))) \<rparr>))"

definition collect_content :: "body_state content_callback" where
  "collect_content b buf =
     (case bd_cur b of
        None \<Rightarrow> (False, b\<lparr> bd_undefined := True \<rparr>)
      | Some i \<Rightarrow>
          (let (name, file) = bd_files b ! i in
           if length (mfd_content file) + length buf > string_max_size then (False, b)
           else (True, b\<lparr> bd_files := (bd_files b)[i := (name, file\<lparr> mfd_content := mfd_content file @ buf \<rparr>)] \<rparr>)))"

definition server_read_content ::
  "('w, 'a) server \<Rightarrow> 'w reader_state \<Rightarrow> (bool \<times> 'w reader_state) outcome" where
  "server_read_content svr st =
     (let req = fst (snd st);
          b = \<lparr> bd_body = req_body req, bd_files = req_files req, bd_cur = None, bd_count = 0, bd_undefined = False \<rparr>
      in obind (read_content_core svr st (Some collect_body) (Some collect_header) (Some collect_content) b)
        (\<lambda>(ok, b', strm, req', res').
          let req1 = req'\<lparr> req_body := bd_body b', req_files := bd_files b' \<rparr> in
          if bd_undefined b' then Undefined
          else if \<not> ok then Returns (False, strm, req1, res')
          else if prefix ''application/x-www-form-urlencoded'' (req_get_header_value req1 ''Content-Type'' 0)
          then if length (req_body req1) > FORM_URL_ENCODED_PAYLOAD_MAX_LENGTH
               then Returns (False, strm, req1, res'\<lparr> res_status := 413 \<rparr>)
               else Returns (True, strm, req1\<lparr> req_params := parse_query_text (req_body req1) (req_params req1) \<rparr>, res')
          else Returns (True, strm, req1, res')))"

section \<open>Routing\<close>

text \<open>One exchange on a connection, and how a part of its processing ends: with a flag, with an
  exception (the exchange as it is then), in undefined behaviour, or never.\<close>

record 'w exchange =
  x_strm :: SocketStream
  x_req :: Request
  x_res :: "'w Response"
  x_world :: 'w

datatype 'x step = Done bool 'x | Raised string 'x | Stuck | Endless

fun step_of :: "'x \<Rightarrow> ('b \<Rightarrow> 'x step) \<Rightarrow> 'b outcome \<Rightarrow> 'x step" where
  "step_of x k (Returns b) = k b"
| "step_of x k (Throws e) = Raised e x"
| "step_of x k Undefined = Stuck"
| "step_of x k Diverges = Endless"

text \<open>Continue when the flag is false.\<close>

fun or_else :: "'x step \<Rightarrow> ('x \<Rightarrow> 'x step) \<Rightarrow> 'x step" where
  "or_else (Done ok x) k = (if ok then Done True x else k x)"
| "or_else (Raised e x) k = Raised e x"
| "or_else Stuck k = Stuck"
| "or_else Endless k = Endless"

definition dispatch_request :: "('w, 'a) server \<Rightarrow> (matcher \<times> 'w handler) list \<Rightarrow> 'w exchange \<Rightarrow> 'w exchange step" where
  "dispatch_request svr handlers x =
     (case find_handler (regex_match svr) handlers (x_req x) of
        (None, req) \<Rightarrow> Done False (x\<lparr> x_req := req \<rparr>)
      | (Some h, req) \<Rightarrow>
          step_of (x\<lparr> x_req := req \<rparr>) (\<lambda>(res, w). Done True (x\<lparr> x_req := req, x_res := res, x_world := w \<rparr>))
            (h req (x_res x) (x_world x)))"

text \<open>The reader shares the request, the response and the stream with the handler; of the response it
  sets the status, which the handler overwrites.\<close>

definition dispatch_request_for_content_reader ::
  "('w, 'a) server \<Rightarrow> (matcher \<times> ('w, 'a) reader_handler) list \<Rightarrow> 'w exchange \<Rightarrow> 'w exchange step" where
  "dispatch_request_for_content_reader svr handlers x =
     (case find_handler (regex_match svr) handlers (x_req x) of
        (None, req) \<Rightarrow> Done False (x\<lparr> x_req := req \<rparr>)
      | (Some h, req) \<Rightarrow>
          step_of (x\<lparr> x_req := req \<rparr>)
            (\<lambda>(res, w, strm', req', _). Done True \<lparr> x_strm = strm', x_req = req', x_res = res, x_world = w \<rparr>)
            (h (server_reader svr) req (x_res x) (x_world x) (x_strm x, req, x_res x)))"

definition handlers_for_content_reader :: "('w, 'a) server \<Rightarrow> string \<Rightarrow> (matcher \<times> ('w, 'a) reader_handler) list" where
  "handlers_for_content_reader svr method =
     (if method = ''POST'' then post_handlers_for_content_reader svr
      else if method = ''PUT'' then put_handlers_for_content_reader svr
      else if method = ''PATCH'' then patch_handlers_for_content_reader svr
      else if method = ''DELETE'' then delete_handlers_for_content_reader svr
      else [])"

text \<open>The regular handlers of a method; \<^const>\<open>None\<close> for a method that has none.\<close>

definition regular_handlers :: "('w, 'a) server \<Rightarrow> string \<Rightarrow> (matcher \<times> 'w handler) list option" where
  "regular_handlers svr method =
     (if method = ''GET'' \<or> method = ''HEAD'' then Some (get_handlers svr)
      else if method = ''POST'' then Some (post_handlers svr)
      else if method = ''PUT'' then Some (put_handlers svr)
      else if method = ''DELETE'' then Some (delete_handlers svr)
      else if method = ''OPTIONS'' then Some (options_handlers svr)
      else if method = ''PATCH'' then Some (patch_handlers svr)
      else None)"

definition dispatch_regular :: "('w, 'a) server \<Rightarrow> 'w exchange \<Rightarrow> 'w exchange step" where
  "dispatch_regular svr x =
     (case regular_handlers svr (req_method (x_req x)) of
        Some handlers \<Rightarrow> dispatch_request svr handlers x
      | None \<Rightarrow> Done False (x\<lparr> x_res := (x_res x)\<lparr> res_status := 400 \<rparr> \<rparr>))"

text \<open>The handlers that read the body themselves, then the body, then the regular handlers.\<close>

definition route_with_content :: "('w, 'a) server \<Rightarrow> 'w exchange \<Rightarrow> 'w exchange step" where
  "route_with_content svr x =
     or_else (dispatch_request_for_content_reader svr (handlers_for_content_reader svr (req_method (x_req x))) x)
       (\<lambda>x1. step_of x1
          (\<lambda>(ok, strm, req, res).
             let x2 = x1\<lparr> x_strm := strm, x_req := req, x_res := res \<rparr>
             in if ok then dispatch_regular svr x2 else Done False x2)
          (server_read_content svr (x_strm x1, x_req x1, x_res x1)))"

definition routing :: "('w, 'a) server \<Rightarrow> 'w exchange \<Rightarrow> 'w exchange step" where
  "routing svr x =
     or_else
       (case pre_routing_handler svr of
          None \<Rightarrow> Done False x
        | Some h \<Rightarrow> step_of x (\<lambda>(r, res, w). Done (r = Handled) (x\<lparr> x_res := res, x_world := w \<rparr>))
                      (h (x_req x) (x_res x) (x_world x)))
       (\<lambda>x1. or_else
          (if req_method (x_req x1) = ''GET'' \<or> req_method (x_req x1) = ''HEAD''
           then step_of x1 (\<lambda>(ok, res, w). Done ok (x1\<lparr> x_res := res, x_world := w \<rparr>))
                  (handle_file_request svr (x_req x1) (x_res x1) (x_world x1) (req_method (x_req x1) = ''HEAD''))
           else Done False x1)
          (\<lambda>x2. if expect_content (x_req x2) then route_with_content svr x2 else dispatch_regular svr x2))"

section \<open>One request\<close>

record connection =
  cn_fd :: nat
  cn_remote :: "string \<times> int"
  cn_local :: "string \<times> int"

definition FD_SETSIZE :: nat where "FD_SETSIZE = 1024"

definition REQUEST_URI_MAX_LENGTH :: nat where "REQUEST_URI_MAX_LENGTH = 8192"

text \<open>The text of an exception in a header.\<close>

definition escape_what :: "string \<Rightarrow> string" where
  "escape_what s = concat (map (\<lambda>c. if c = CR then [CHR 0x5C, CHR ''r''] else if c = LF then [CHR 0x5C, CHR ''n''] else [c]) (c_str s))"

definition add_addresses :: "connection \<Rightarrow> Request \<Rightarrow> Request" where
  "add_addresses cn req =
     req_set_header (req_set_header (req_set_header (req_set_header req
       ''REMOTE_ADDR'' (fst (cn_remote cn))) ''REMOTE_PORT'' (dec_int (snd (cn_remote cn))))
       ''LOCAL_ADDR'' (fst (cn_local cn))) ''LOCAL_PORT'' (dec_int (snd (cn_local cn)))"

text \<open>What follows the routing: the exception handler or status 500, then the response.\<close>

definition routed_response ::
  "(nat \<Rightarrow> nat) \<Rightarrow> (nat \<Rightarrow> bool) \<Rightarrow> ('w, 'a) server \<Rightarrow> bool \<Rightarrow> 'w exchange step \<Rightarrow>
   (bool \<times> 'w Response \<times> 'w \<times> SocketStream) outcome" where
  "routed_response engine shut svr close_connection r =
     (let finish = (\<lambda>routed x.
            let status = res_status (x_res x);
                res = (if status = - 1 then (x_res x)\<lparr> res_status :=
                         (if \<not> routed then 404 else if req_ranges (x_req x) = [] then 200 else 206) \<rparr> else x_res x)
            in if routed
               then write_response_with_content engine shut svr (x_strm x) close_connection (x_req x) res (x_world x)
               else write_response engine shut svr (x_strm x) close_connection (x_req x) res (x_world x))
      in case r of
           Done routed x \<Rightarrow> finish routed x
         | Raised e x \<Rightarrow>
             (case exception_handler svr of
                Some h \<Rightarrow> obind (h e (x_req x) (x_res x) (x_world x))
                            (\<lambda>(res, w). finish True (x\<lparr> x_res := res, x_world := w \<rparr>))
              | None \<Rightarrow> finish False (x\<lparr> x_res := set_header ((x_res x)\<lparr> res_status := 500 \<rparr>) ''EXCEPTION_WHAT'' (escape_what e) \<rparr>))
         | Stuck \<Rightarrow> Undefined
         | Endless \<Rightarrow> Diverges)"

text \<open>\<^verbatim>\<open>Expect: 100-continue\<close>: go on with the stream, or answer at once (\<^const>\<open>None\<close>).\<close>

definition expect_continue :: "('w, 'a) server \<Rightarrow> SocketStream \<Rightarrow> Request \<Rightarrow> 'w Response \<Rightarrow> SocketStream option" where
  "expect_continue svr strm req res =
     (if req_get_header_value req ''Expect'' 0 = ''100-continue''
      then let status = (case expect_100_continue_handler svr of None \<Rightarrow> 100 | Some h \<Rightarrow> h req res)
        in if status = 100 \<or> status = 417 then Some (snd (socket_write strm (status_line status @ CRLF))) else None
      else Some strm)"

text \<open>The request after its line and headers: whether the connection is to be closed, and the outcome.\<close>

definition answer_request ::
  "(nat \<Rightarrow> nat) \<Rightarrow> (nat \<Rightarrow> bool) \<Rightarrow> ('w, 'a) server \<Rightarrow> connection \<Rightarrow> bool \<Rightarrow> SocketStream \<Rightarrow> Request \<Rightarrow> 'w Response \<Rightarrow> 'w \<Rightarrow>
   (bool \<times> 'w Response \<times> 'w \<times> SocketStream) outcome" where
  "answer_request engine shut svr cn close_connection strm req res w =
     (let req1 = add_addresses cn req;
          (range_ok, ranges) = (if req_has_header req1 ''Range''
            then parse_range_header (req_get_header_value req1 ''Range'' 0) (req_ranges req1) else (True, req_ranges req1));
          req2 = req1\<lparr> req_ranges := ranges \<rparr>
      in if \<not> range_ok
         then write_response engine shut svr strm close_connection req2 (res\<lparr> res_status := 416 \<rparr>) w
         else case expect_continue svr strm req2 res of
                None \<Rightarrow> write_response engine shut svr strm close_connection req2 res w
              | Some strm' \<Rightarrow>
                  routed_response engine shut svr close_connection
                    (routing svr \<lparr> x_strm = strm', x_req = req2, x_res = res, x_world = w \<rparr>))"

text \<open>The resources of the response are released when it is destroyed.\<close>

definition release :: "'w Response \<Rightarrow> 'w \<Rightarrow> 'w" where
  "release res w = (case res_resource_releaser res of None \<Rightarrow> w | Some f \<Rightarrow> f (res_content_provider_success res) w)"

definition wants_close :: "Request \<Rightarrow> bool" where
  "wants_close req \<longleftrightarrow> req_get_header_value req ''Connection'' 0 = ''close'' \<or>
     req_version req = ''HTTP/1.0'' \<and> req_get_header_value req ''Connection'' 0 \<noteq> ''Keep-Alive''"

text \<open>Refuse a request whose line was read; its headers are read into a dummy when they are still to come.\<close>

definition refuse_request ::
  "(nat \<Rightarrow> nat) \<Rightarrow> (nat \<Rightarrow> bool) \<Rightarrow> ('w, 'a) server \<Rightarrow> bool \<Rightarrow> SocketStream \<Rightarrow> 'w Response \<Rightarrow> int \<Rightarrow> 'w \<Rightarrow>
   (bool \<times> 'w Response \<times> 'w \<times> SocketStream) outcome" where
  "refuse_request engine shut svr close_connection strm res status w =
     obind (or_diverges (read_headers socket_read strm []))
       (\<lambda>(_, _, strm'). write_response engine shut svr strm' close_connection Request_default (res\<lparr> res_status := status \<rparr>) w)"

text \<open>\<^verbatim>\<open>process_request\<close>: what it returns, \<^verbatim>\<open>connection_closed\<close>, the world and the stream.\<close>

definition process_request ::
  "(nat \<Rightarrow> nat) \<Rightarrow> (nat \<Rightarrow> bool) \<Rightarrow> ('w, 'a) server \<Rightarrow> connection \<Rightarrow> SocketStream \<Rightarrow> bool \<Rightarrow> 'w \<Rightarrow>
   (bool \<times> bool \<times> 'w \<times> SocketStream) outcome" where
  "process_request engine shut svr cn strm close_connection w =
     obind (or_diverges (getline socket_read strm)) (\<lambda>(got, strm1).
       case got of
         None \<Rightarrow> Returns (False, False, w, strm1)
       | Some line \<Rightarrow>
           (let res = Response_default\<lparr> res_version := ''HTTP/1.1'', res_headers := default_headers svr \<rparr>;
                close_with = (\<lambda>closed r. obind r (\<lambda>(ret, res', w', strm'). Returns (ret, closed, release res' w', strm')))
            in if cn_fd cn \<ge> FD_SETSIZE
               then close_with False (refuse_request engine shut svr close_connection strm1 res 500 w)
               else if length line > REQUEST_URI_MAX_LENGTH
               then close_with False (refuse_request engine shut svr close_connection strm1 res 414 w)
               else case parse_request_line line Request_default of
                      (False, req) \<Rightarrow>
                        close_with False (write_response engine shut svr strm1 close_connection req (res\<lparr> res_status := 400 \<rparr>) w)
                    | (True, req) \<Rightarrow>
                        obind (or_diverges (read_headers socket_read strm1 (req_headers req))) (\<lambda>(ok, hs, strm2).
                          let req1 = req\<lparr> req_headers := hs \<rparr> in
                          if \<not> ok
                          then close_with False (write_response engine shut svr strm2 close_connection req1 (res\<lparr> res_status := 400 \<rparr>) w)
                          else close_with (wants_close req1)
                                 (answer_request engine shut svr cn close_connection strm2 req1 res w))))"

section \<open>One connection\<close>

text \<open>\<^verbatim>\<open>keep_alive\<close> waits for data or for the end of the connection; silence is the time-out.\<close>

definition keep_alive :: "socket \<Rightarrow> bool" where
  "keep_alive sk = select_read sk"

text \<open>The loop for a callback on a state; \<open>listening k\<close> tells whether the server socket is open when the
  \<open>k\<close>-th request is waited for.\<close>

fun serve_requests ::
  "(nat \<Rightarrow> bool) \<Rightarrow> ('x \<Rightarrow> bool) \<Rightarrow> (bool \<Rightarrow> 'x \<Rightarrow> (bool \<times> bool \<times> 'x) outcome) \<Rightarrow> nat \<Rightarrow> nat \<Rightarrow> bool \<Rightarrow> 'x \<Rightarrow> (bool \<times> 'x) outcome" where
  "serve_requests listening alive callback k 0 ret x = Returns (ret, x)"
| "serve_requests listening alive callback k (Suc count) ret x =
     (if listening k \<and> alive x
      then obind (callback (count = 0) x) (\<lambda>(ret', connection_closed, x').
        if \<not> ret' \<or> connection_closed then Returns (ret', x')
        else serve_requests listening alive callback (k + 1) count ret' x')
      else Returns (ret, x))"

text \<open>The assertion before the loop ends the program, or is not compiled: a bound of 0 is \<^const>\<open>Undefined\<close>.\<close>

definition process_server_socket_core ::
  "(nat \<Rightarrow> bool) \<Rightarrow> ('x \<Rightarrow> bool) \<Rightarrow> (bool \<Rightarrow> 'x \<Rightarrow> (bool \<times> bool \<times> 'x) outcome) \<Rightarrow> nat \<Rightarrow> 'x \<Rightarrow> (bool \<times> 'x) outcome" where
  "process_server_socket_core listening alive callback max_count x =
     (if max_count > 0 then serve_requests listening alive callback 0 max_count False x else Undefined)"

text \<open>Each request gets a stream of its own on the socket.\<close>

definition process_server_socket ::
  "(nat \<Rightarrow> bool) \<Rightarrow> nat \<Rightarrow> (SocketStream \<Rightarrow> bool \<Rightarrow> 'w \<Rightarrow> (bool \<times> bool \<times> 'w \<times> SocketStream) outcome) \<Rightarrow>
   socket \<times> 'w \<Rightarrow> (bool \<times> socket \<times> 'w) outcome" where
  "process_server_socket listening max_count callback x =
     process_server_socket_core listening (\<lambda>(sk, w). keep_alive sk)
       (\<lambda>close_connection (sk, w). obind (callback \<lparr> sock = sk, read_buff = [] \<rparr> close_connection w)
          (\<lambda>(ret, closed, w', strm). Returns (ret, closed, sock strm, w')))
       max_count x"

text \<open>The socket is closed in the end: nothing more arrives and nothing can be sent.\<close>

definition shut_socket :: "socket \<Rightarrow> socket" where
  "shut_socket sk = sk\<lparr> rx := [], rx_end := PeerClosed, tx_quota := Some 0 \<rparr>"

definition process_and_close_socket ::
  "(nat \<Rightarrow> nat) \<Rightarrow> (nat \<Rightarrow> bool) \<Rightarrow> (nat \<Rightarrow> bool) \<Rightarrow> ('w, 'a) server \<Rightarrow> connection \<Rightarrow> socket \<times> 'w \<Rightarrow>
   (bool \<times> socket \<times> 'w) outcome" where
  "process_and_close_socket engine shut listening svr cn x =
     obind (process_server_socket listening (keep_alive_max_count svr)
         (\<lambda>strm close_connection w. process_request engine shut svr cn strm close_connection w) x)
       (\<lambda>(ret, sk, w). Returns (ret, shut_socket sk, w))"

section \<open>The contract of the reader\<close>

text \<open>What a handler relies on that reads a body itself: the reader runs the header callback once for the part \<open>m\<close>, then the
  content callback on pieces of \<open>c\<close>; a plain body comes in the pieces \<open>es\<close>.\<close>

definition delivers_form :: "('c, 'r) content_reader \<Rightarrow> 'r \<Rightarrow> MultipartFormData \<Rightarrow> string \<Rightarrow> 'r \<Rightarrow> bool" where
  "delivers_form cr r m c r' \<longleftrightarrow> (\<forall>ccb hcb f h u.
     (\<forall>u x. ccb u x = (True, f u x)) \<longrightarrow> (\<forall>u m. hcb u m = (True, h u m)) \<longrightarrow>
     (\<exists>es. read_form cr r hcb ccb u = Returns (True, foldl f (h u m) es, r') \<and> concat es = c \<and> es \<noteq> []))"

definition delivers_pieces :: "('c, 'r) content_reader \<Rightarrow> 'r \<Rightarrow> string list \<Rightarrow> 'r \<Rightarrow> bool" where
  "delivers_pieces cr r es r' \<longleftrightarrow> (\<forall>ccb f u. (\<forall>u x. ccb u x = (True, f u x)) \<longrightarrow>
     read_plain cr r ccb u = Returns (True, foldl f u es, r'))"

text \<open>A body of a given length on the connection.\<close>

definition sized_body :: "('w, 'a) server \<Rightarrow> Request \<Rightarrow> string \<Rightarrow> bool" where
  "sized_body svr req body \<longleftrightarrow> prepare_content_receiver (req_headers req) True = None \<and>
     \<not> is_chunked_transfer_encoding (req_headers req) \<and> req_has_header req ''Content-Length'' \<and>
     get_header_value_u64 (req_headers req) ''Content-Length'' 0 0 = of_nat (length body) \<and>
     length body < 2 ^ 64 \<and> length body \<le> payload_max_length svr"

text \<open>A form with one part on the connection, whose opening delimiter arrives in one piece.\<close>

definition form_at :: "('w, 'a) server \<Rightarrow> 'w reader_state \<Rightarrow> MultipartFormData \<Rightarrow> string \<Rightarrow> bool" where
  "form_at svr st m c \<longleftrightarrow> (\<exists>strm req res b ls rest d. st = (strm, req, res) \<and>
     is_multipart_form_data req \<and> parse_multipart_boundary (req_get_header_value req ''Content-Type'' 0) = Some b \<and>
     sized_body svr req (multipart_body b ls c) \<and> socket_pending strm = multipart_body b ls c @ rest \<and>
     fst (socket_read strm (min (length (multipart_body b ls c)) RECV_BUFSIZ)) = ReadBytes d \<and>
     prefix (''--'' @ b @ CRLF) d \<and>
     list_all line_ok ls \<and> mp_header_fields ls MultipartFormData_default = Some m \<and>
     find_sub (c @ CRLF @ ''--'' @ b) (CRLF @ ''--'' @ b) 0 = Some (length c))"

text \<open>Reading leaves the request, the response and the sending side of the socket as they are.\<close>

definition reader_after :: "'w reader_state \<Rightarrow> 'w reader_state \<Rightarrow> bool" where
  "reader_after st st' \<longleftrightarrow> snd st' = snd st \<and> (sock (fst st'))\<lparr> rx := [] \<rparr> = (sock (fst st))\<lparr> rx := [] \<rparr>"

lemma feed_multipart:
  "mp_feed (call_or_throw ccb) (call_or_throw hcb) (rc_parser a) (rc_state a, rc_thrown a) ds = Some (True, p, c, t) \<Longrightarrow>
   feed_receiver (multipart_out hcb ccb) a ds r len = (True, a\<lparr> rc_parser := p, rc_state := c, rc_thrown := t \<rparr>)"
proof (induction ds arbitrary: a r)
  case (Cons d ds)
  from Cons.prems obtain p' c' t' where p: "mp_parse (rc_parser a) d (call_or_throw ccb) (call_or_throw hcb)
      (rc_state a, rc_thrown a) = Some (True, p', c', t')"
    "mp_feed (call_or_throw ccb) (call_or_throw hcb) p' (c', t') ds = Some (True, p, c, t)"
    by (auto split: option.splits if_splits)
  with Cons.IH [of "a\<lparr> rc_parser := p', rc_state := c', rc_thrown := t' \<rparr>"] show ?case
    by (simp add: multipart_out_def)
qed simp

lemma read_sized_body:
  assumes "sized_body svr req body" "body \<noteq> []" "socket_pending strm = body @ rest"
  shows "\<exists>ds strm'. concat ds = body \<and> ds \<noteq> [] \<and> socket_pending strm' = rest \<and>
    (sock strm')\<lparr> rx := [] \<rparr> = (sock strm)\<lparr> rx := [] \<rparr> \<and>
    fst (socket_read strm (min (length body) RECV_BUFSIZ)) = ReadBytes (hd ds) \<and>
    (\<forall>out (a :: 'z) a'. feed_receiver out a ds 0 (length body) = (True, a') \<longrightarrow>
      Http_Stream.read_content socket_read strm (req_headers req) (payload_max_length svr) status None out True a =
        Some (True, status, req_headers req, a', strm'))"
proof -
  have n: "unat (get_header_value_u64 (req_headers req) ''Content-Length'' 0 0) = length body"
    using assms(1) by (simp add: sized_body_def unat_of_nat)
  from socket_in.read_length_pieces [OF assms(3), of 0 "length body"] assms(2) obtain ds strm' s1 where
    "concat ds = body" "socket_pending strm' = rest" "(sock strm')\<lparr> rx := [] \<rparr> = (sock strm)\<lparr> rx := [] \<rparr>"
    "socket_read strm (min (length body) RECV_BUFSIZ) = (ReadBytes (hd ds), s1)" "ds \<noteq> []"
    "\<And>out (a :: 'z) a'. feed_receiver out a ds 0 (length body) = (True, a') \<Longrightarrow>
       read_length_loop socket_read strm (length body) None out a 0 = Some (True, a', strm')" by auto
  with assms n show ?thesis
    by (intro exI [of _ ds] exI [of _ strm'])
      (auto simp: sized_body_def Http_Stream.read_content_def read_content_with_length_def Let_def req_has_header_def)
qed

lemma foldl_fst: "foldl (\<lambda>p x. (f (fst p) x, snd p)) (c, t) es = (foldl f c es, t)"
  by (induction es arbitrary: c) auto

lemma server_reader_delivers:
  assumes "form_at svr st m c"
  shows "\<exists>st'. delivers_form (server_reader svr :: ('c, 'w reader_state) content_reader) st m c st' \<and> reader_after st st'"
proof -
  from assms obtain strm req res b ls rest d where f: "st = (strm, req, res)"
     "is_multipart_form_data req" "parse_multipart_boundary (req_get_header_value req ''Content-Type'' 0) = Some b"
     "sized_body svr req (multipart_body b ls c)" "socket_pending strm = multipart_body b ls c @ rest"
     "fst (socket_read strm (min (length (multipart_body b ls c)) RECV_BUFSIZ)) = ReadBytes d"
     "prefix (''--'' @ b @ CRLF) d"
    and ls: "list_all line_ok ls" "mp_header_fields ls MultipartFormData_default = Some m"
     "find_sub (c @ CRLF @ ''--'' @ b) (CRLF @ ''--'' @ b) 0 = Some (length c)"
    by (auto simp: form_at_def)
  let ?body = "multipart_body b ls c"
  have "?body \<noteq> []" by (simp add: multipart_body_def)
  from read_sized_body [OF f(4) this f(5), of "res_status res"] f(6)
  obtain ds strm' where ds: "concat ds = ?body" "ds \<noteq> []" "hd ds = d"
    "(sock strm')\<lparr> rx := [] \<rparr> = (sock strm)\<lparr> rx := [] \<rparr>"
    "\<And>out (a :: 'c receiving) a'. feed_receiver out a ds 0 (length ?body) = (True, a') \<Longrightarrow>
      Http_Stream.read_content socket_read strm (req_headers req) (payload_max_length svr) (res_status res) None out True a =
        Some (True, res_status res, req_headers req, a', strm')" by auto
  have "delivers_form (server_reader svr :: ('c, 'w reader_state) content_reader) st m c (strm', req, res)" unfolding delivers_form_def
  proof (intro allI impI)
    fix ccb :: "'c content_callback" and hcb :: "'c header_callback" and f h u
    assume cb: "\<forall>u x. ccb u x = (True, f u x)" "\<forall>u m. hcb u m = (True, h u m)"
    let ?f = "\<lambda>p x. (f (fst p) x, snd p)" and ?h = "\<lambda>p m. (h (fst p) m, snd p)"
    have "call_or_throw (Some ccb) a x = (True, ?f a x)" "call_or_throw (Some hcb) a y = (True, ?h a y)" for a x y
      using cb by (simp_all add: call_or_throw_def)
    moreover have "prefix (''--'' @ b @ CRLF) (hd ds)" "concat (hd ds # tl ds) = ?body" using ds(1-3) f(7) list.collapse [OF ds(2)] by (simp_all del: concat.simps)
    ultimately obtain p' es where p: "mp_feed (call_or_throw (Some ccb)) (call_or_throw (Some hcb)) (mp_init b) (u, False) ds =
        Some (True, p', foldl f (h u m) es, False)" "mp_valid p'" "concat es = c" "es \<noteq> []"
      using multipart_parsed [of "call_or_throw (Some ccb)" ?f "call_or_throw (Some hcb)" ?h b "hd ds" "tl ds" ls c m "(u, False)"]
        ls ds(2) by (auto simp: foldl_fst)
    let ?a = "\<lparr> rc_parser = mp_init b, rc_state = u, rc_thrown = False, rc_hung = False \<rparr>"
    have "feed_receiver (multipart_out (Some hcb) (Some ccb)) ?a ds 0 (length ?body) =
        (True, ?a\<lparr> rc_parser := p', rc_state := foldl f (h u m) es, rc_thrown := False \<rparr>)"
      by (rule feed_multipart) (use p(1) in simp)
    from ds(5) [OF this] have "read_form (server_reader svr) st hcb ccb u = Returns (True, foldl f (h u m) es, strm', req, res)"
      using f(1-4) p(2) by (simp add: server_reader_def read_content_with_content_receiver_def read_content_core_def sized_body_def)
    then show "\<exists>es. read_form (server_reader svr) st hcb ccb u = Returns (True, foldl f (h u m) es, strm', req, res) \<and>
        concat es = c \<and> es \<noteq> []" using p(3,4) by blast
  qed
  then show ?thesis using f(1) ds(4) by (auto simp: reader_after_def)
qed


section \<open>The requests of a connection\<close>

text \<open>A callback that also records with which \<^verbatim>\<open>close_connection\<close> it was called.\<close>

definition recorded :: "(bool \<Rightarrow> 'x \<Rightarrow> (bool \<times> bool \<times> 'x) outcome) \<Rightarrow> bool \<Rightarrow> bool list \<times> 'x \<Rightarrow> (bool \<times> bool \<times> bool list \<times> 'x) outcome" where
  "recorded callback close_connection y =
     obind (callback close_connection (snd y)) (\<lambda>(ret, closed, x'). Returns (ret, closed, fst y @ [close_connection], x'))"

lemma last_call_flags: "map (\<lambda>j. j = n) [0..<Suc m] = (n = 0) # map (\<lambda>j. Suc j = n) [0..<m]"
proof -
  have "[0..<Suc m] = 0 # map Suc [0..<m]" by (simp add: upt_conv_Cons map_Suc_upt)
  then show ?thesis by simp
qed

lemma keep_alive_run:
  "serve_requests listening alive callback k n ret x = Returns (r, x') \<Longrightarrow>
   \<exists>m \<le> n. serve_requests listening (\<lambda>y. alive (snd y)) (recorded callback) k n ret (cs, x) =
     Returns (r, cs @ map (\<lambda>j. Suc j = n) [0..<m], x')"
proof (induction n arbitrary: k ret x cs)
  case (Suc n)
  show ?case
  proof (cases "listening k \<and> alive x")
    case False
    then show ?thesis using Suc.prems by (intro exI [of _ 0]) auto
  next
    case True
    with Suc.prems obtain ret' closed x1 where c: "callback (n = 0) x = Returns (ret', closed, x1)"
      by (cases "callback (n = 0) x") auto
    then have rc: "recorded callback (n = 0) (cs, x) = Returns (ret', closed, cs @ [n = 0], x1)" by (simp add: recorded_def)
    show ?thesis
    proof (cases "\<not> ret' \<or> closed")
      case True
      then show ?thesis using Suc.prems \<open>listening k \<and> alive x\<close> c rc
        by (intro exI [of _ "Suc 0"]) (auto simp: last_call_flags simp del: upt_Suc)
    next
      case False
      then have "serve_requests listening alive callback (k + 1) n ret' x1 = Returns (r, x')"
        using Suc.prems \<open>listening k \<and> alive x\<close> c by simp
      from Suc.IH [OF this, of "cs @ [n = 0]"] obtain m where "m \<le> n"
        "serve_requests listening (\<lambda>y. alive (snd y)) (recorded callback) (k + 1) n ret' (cs @ [n = 0], x1) =
           Returns (r, (cs @ [n = 0]) @ map (\<lambda>j. Suc j = n) [0..<m], x')" by blast
      then show ?thesis using False \<open>listening k \<and> alive x\<close> rc
        by (intro exI [of _ "Suc m"]) (auto simp: last_call_flags simp del: upt_Suc)
    qed
  qed
qed simp

text \<open>
  C28. The bound on a connection: at most \<^verbatim>\<open>keep_alive_max_count\<close> requests are processed on it, and the one that
  reaches the bound, and no other, is processed with \<^verbatim>\<open>close_connection\<close>, so its response announces the end.
\<close>

theorem keep_alive_bounded:
  assumes "process_server_socket_core listening alive callback n x = Returns (r, x')"
  shows "\<exists>m \<le> n. process_server_socket_core listening (\<lambda>y. alive (snd y)) (recorded callback) n ([], x) =
    Returns (r, map (\<lambda>j. Suc j = n) [0..<m], x')"
  using keep_alive_run [of listening alive callback 0 n False x r x' "[]"] assms
  by (auto simp: process_server_socket_core_def split: if_splits)

theorem keep_alive_bounded_witness:
  "process_server_socket_core (\<lambda>_. True) (\<lambda>x. x < (9 :: nat)) (\<lambda>c x. Returns (True, False, x + 1)) 2 0 = Returns (True, 2) \<and>
   (\<exists>m \<le> 2. process_server_socket_core (\<lambda>_. True) (\<lambda>y. snd y < (9 :: nat)) (recorded (\<lambda>c x. Returns (True, False, x + 1))) 2 ([], 0) =
      Returns (True, map (\<lambda>j. Suc j = 2) [0..<m], 2))"
proof -
  have "process_server_socket_core (\<lambda>_. True) (\<lambda>x. x < (9 :: nat)) (\<lambda>c x. Returns (True, False, x + 1)) 2 0 = Returns (True, 2)"
    by (simp add: process_server_socket_core_def numeral_2_eq_2)
  from keep_alive_bounded [OF this] this show ?thesis by blast
qed

end
