(* ===== verification/S3Client.thy ===== *)
theory S3Client
  imports FileUtils
begin

text \<open>
  The object store client (\<^verbatim>\<open>src/src/ghts3client.cpp\<close>).  The AWS SDK and the Ceph gateway behind
  it are the parameter \<open>svc\<close>, a record of the calls the client makes; each takes the connected
  client, the state \<open>'s\<close> of the service and the request, and returns the new state and the
  outcome.  \<open>s3_service_ok\<close> states the documented behaviour of the object calls.  What the
  operations log is left out; \<^verbatim>\<open>listBuckets\<close>, which has no other result, returns its text.
\<close>

section \<open>The service\<close>

record s3_error =
  exception_name :: string
  error_message :: string

datatype url_scheme = HTTP | HTTPS

record S3_connection =
  access_key :: string
  access_secret :: string
  region :: string
  verifySSL :: bool
  connectTimeoutMs :: nat
  requestTimeoutMs :: nat
  endpointOverride :: string
  url_scheme_of :: url_scheme
  sign_payload :: bool
  virtual_addressing :: bool

text \<open>A bucket request carries the location constraint only when the region is not empty; a page
  of objects comes with the token of the next page, empty on the last one.\<close>

record 's s3_service =
  ListBuckets :: "S3_connection \<Rightarrow> 's \<Rightarrow> 's \<times> (s3_error + (string \<times> string) list)"
  CreateBucket :: "S3_connection \<Rightarrow> 's \<Rightarrow> string \<Rightarrow> string option \<Rightarrow> 's \<times> s3_error option"
  DeleteBucket :: "S3_connection \<Rightarrow> 's \<Rightarrow> string \<Rightarrow> 's \<times> s3_error option"
  ListObjectsV2 :: "S3_connection \<Rightarrow> 's \<Rightarrow> string \<Rightarrow> string option \<Rightarrow> 's \<times> (s3_error + string list \<times> string)"
  PutObject :: "S3_connection \<Rightarrow> 's \<Rightarrow> string \<Rightarrow> string \<Rightarrow> string \<Rightarrow> 's \<times> s3_error option"
  DeleteObject :: "S3_connection \<Rightarrow> 's \<Rightarrow> string \<Rightarrow> string \<Rightarrow> 's \<times> s3_error option"
  GetObject :: "S3_connection \<Rightarrow> 's \<Rightarrow> string \<Rightarrow> string \<Rightarrow> 's \<times> (s3_error + string)"
  HeadObject :: "S3_connection \<Rightarrow> 's \<Rightarrow> string \<Rightarrow> string \<Rightarrow> 's \<times> s3_error option"

section \<open>The client\<close>

text \<open>The gateway's host, from the environment when \<^verbatim>\<open>NODE_IP\<close> is set.\<close>

definition GhtS3Client :: "(string \<Rightarrow> string option) \<Rightarrow> string" where
  "GhtS3Client getenv =
     (case getenv ''NODE_IP'' of
        Some p \<Rightarrow> c_str p @ '':7480''
      | None \<Rightarrow> ''k8s-node1:7480'')"

text \<open>Every operation connects with the same settings.\<close>

definition s3_connect :: "string \<Rightarrow> S3_connection" where
  "s3_connect rgwHost =
     \<lparr> access_key = ''5ZJI63QPTJQUT8T3NECN'',
       access_secret = ''XWYEkt5iFQlWCP8uRopwHX08vBrdOwwVcu0Vs8eN'',
       region = [], verifySSL = False, connectTimeoutMs = 60000, requestTimeoutMs = 10000,
       endpointOverride = rgwHost, url_scheme_of = HTTP, sign_payload = False,
       virtual_addressing = False \<rparr>"

definition listBuckets :: "'s s3_service \<Rightarrow> string \<Rightarrow> 's \<Rightarrow> int \<times> string \<times> 's" where
  "listBuckets svc rgwHost s =
     (case ListBuckets svc (s3_connect rgwHost) s of
        (s', Inr buckets) \<Rightarrow>
          (0, concat (map (\<lambda>(name, date). ''name: '' @ name @ '' '' @ date @ [LF]) buckets), s')
      | (s', Inl err) \<Rightarrow> (0, exception_name err @ '': '' @ error_message err, s'))"

definition createBucket :: "'s s3_service \<Rightarrow> string \<Rightarrow> 's \<Rightarrow> string \<Rightarrow> bool \<times> 's" where
  "createBucket svc rgwHost s bucketName =
     (let config = s3_connect rgwHost;
          constraint = (if region config \<noteq> [] then Some (region config) else None)
      in case CreateBucket svc config s bucketName constraint of
           (s', outcome) \<Rightarrow> (outcome = None, s'))"

definition deleteBucket :: "'s s3_service \<Rightarrow> string \<Rightarrow> 's \<Rightarrow> string \<Rightarrow> bool \<times> 's" where
  "deleteBucket svc rgwHost s bucketName =
     (case DeleteBucket svc (s3_connect rgwHost) s bucketName of
        (s', outcome) \<Rightarrow> (outcome = None, s'))"

text \<open>The loop over the pages; \<^const>\<open>None\<close> stands for a service that never ends the list.  The token
  of the request stays the one set last.\<close>

partial_function (option) list_pages ::
  "'s s3_service \<Rightarrow> S3_connection \<Rightarrow> string \<Rightarrow> 's \<Rightarrow> string option \<Rightarrow> string list \<Rightarrow>
     (string list option \<times> 's) option" where
  "list_pages svc config bucketName s token allObjects =
     (case ListObjectsV2 svc config s bucketName token of
        (s', outcome) \<Rightarrow>
          (case outcome of
             Inl err \<Rightarrow> Some (None, s')
           | Inr page \<Rightarrow>
               if snd page \<noteq> [] then list_pages svc config bucketName s' (Some (snd page)) (allObjects @ fst page)
               else Some (Some (allObjects @ fst page), s')))"

definition listObjects ::
  "'s s3_service \<Rightarrow> string \<Rightarrow> 's \<Rightarrow> string \<Rightarrow> string list \<Rightarrow> (bool \<times> string list \<times> 's) option" where
  "listObjects svc rgwHost s bucketName keysResult =
     (case list_pages svc (s3_connect rgwHost) bucketName s None [] of
        None \<Rightarrow> None
      | Some (None, s') \<Rightarrow> Some (False, keysResult, s')
      | Some (Some allObjects, s') \<Rightarrow> Some (True, keysResult @ allObjects, s'))"

definition uploadFile :: "'s s3_service \<Rightarrow> string \<Rightarrow> fs \<Rightarrow> 's \<Rightarrow> string \<Rightarrow> string \<Rightarrow> string \<Rightarrow> int \<times> 's" where
  "uploadFile svc rgwHost fs s bucket keyName localFile =
     (if \<not> file_exists fs localFile then (1, s)
      else let input_data = (case stat fs localFile of Some (Reg d) \<Rightarrow> d | _ \<Rightarrow> [])
        in case PutObject svc (s3_connect rgwHost) s bucket keyName input_data of
             (s', None) \<Rightarrow> (0, s')
           | (s', Some error) \<Rightarrow> (1, s'))"

definition deleteFile :: "'s s3_service \<Rightarrow> string \<Rightarrow> 's \<Rightarrow> string \<Rightarrow> string \<Rightarrow> int \<times> 's" where
  "deleteFile svc rgwHost s bucket keyName =
     (case DeleteObject svc (s3_connect rgwHost) s bucket keyName of (s', outcome) \<Rightarrow> (0, s'))"

text \<open>The result is the flag converted to \<^verbatim>\<open>int\<close>: 1 on success.  A local file that cannot be
  opened is not noticed.\<close>

definition downloadFile ::
  "'s s3_service \<Rightarrow> string \<Rightarrow> fs \<Rightarrow> 's \<Rightarrow> string \<Rightarrow> string \<Rightarrow> string \<Rightarrow> int \<times> fs \<times> 's" where
  "downloadFile svc rgwHost fs s bucket keyName localFile =
     (case GetObject svc (s3_connect rgwHost) s bucket keyName of
        (s', Inr body) \<Rightarrow>
          (1, case fs_put fs localFile (\<lambda>_. body) of Some fs1 \<Rightarrow> fs1 | None \<Rightarrow> fs, s')
      | (s', Inl error) \<Rightarrow> (0, fs, s'))"

definition isFileExist :: "'s s3_service \<Rightarrow> string \<Rightarrow> 's \<Rightarrow> string \<Rightarrow> string \<Rightarrow> bool \<times> 's" where
  "isFileExist svc rgwHost s bucket keyName =
     (case HeadObject svc (s3_connect rgwHost) s bucket keyName of (s', outcome) \<Rightarrow> (outcome = None, s'))"

section \<open>What the service promises\<close>

type_synonym buckets = "string \<rightharpoonup> (string \<rightharpoonup> string)"

text \<open>\<open>V s\<close> are the buckets of the service: a put or get into an unknown bucket fails, a put
  replaces the object, a get returns it, a head tells whether it is there.\<close>

definition object_of :: "buckets \<Rightarrow> string \<Rightarrow> string \<Rightarrow> string option" where
  "object_of v b k = (case v b of None \<Rightarrow> None | Some m \<Rightarrow> m k)"

definition put_ok :: "'s s3_service \<Rightarrow> ('s \<Rightarrow> buckets) \<Rightarrow> bool" where
  "put_ok svc V \<longleftrightarrow> (\<forall>cl s b k d. case PutObject svc cl s b k d of
     (s', r) \<Rightarrow> (case V s b of
        None \<Rightarrow> r \<noteq> None \<and> V s' = V s
      | Some m \<Rightarrow> r = None \<and> V s' = (V s)(b \<mapsto> m(k \<mapsto> d))))"

definition get_ok :: "'s s3_service \<Rightarrow> ('s \<Rightarrow> buckets) \<Rightarrow> bool" where
  "get_ok svc V \<longleftrightarrow> (\<forall>cl s b k. case GetObject svc cl s b k of
     (s', r) \<Rightarrow> V s' = V s \<and> (case object_of (V s) b k of
        None \<Rightarrow> (\<exists>e. r = Inl e) | Some d \<Rightarrow> r = Inr d))"

definition head_ok :: "'s s3_service \<Rightarrow> ('s \<Rightarrow> buckets) \<Rightarrow> bool" where
  "head_ok svc V \<longleftrightarrow> (\<forall>cl s b k. case HeadObject svc cl s b k of
     (s', r) \<Rightarrow> V s' = V s \<and> (r = None \<longleftrightarrow> object_of (V s) b k \<noteq> None))"

definition s3_service_ok :: "'s s3_service \<Rightarrow> ('s \<Rightarrow> buckets) \<Rightarrow> bool" where
  "s3_service_ok svc V \<longleftrightarrow> put_ok svc V \<and> get_ok svc V \<and> head_ok svc V"

text \<open>A listing in pages: every page but the last has a token, which fetches the next one.\<close>

fun serves_pages ::
  "'s s3_service \<Rightarrow> S3_connection \<Rightarrow> string \<Rightarrow> 's \<Rightarrow> string option \<Rightarrow> (string list \<times> string) list \<Rightarrow> 's \<Rightarrow> bool" where
  "serves_pages svc config b s token [] s' \<longleftrightarrow> False"
| "serves_pages svc config b s token (p # ps) s' \<longleftrightarrow>
     snd (ListObjectsV2 svc config s b token) = Inr p \<and>
     (if ps = [] then snd p = [] \<and> fst (ListObjectsV2 svc config s b token) = s'
      else snd p \<noteq> [] \<and>
        serves_pages svc config b (fst (ListObjectsV2 svc config s b token)) (Some (snd p)) ps s')"

section \<open>Listing\<close>

lemma list_pages_all:
  "serves_pages svc config b s token ps s' \<Longrightarrow>
   list_pages svc config b s token acc = Some (Some (acc @ concat (map fst ps)), s')"
proof (induction ps arbitrary: s token acc)
  case (Cons p ps)
  then show ?case
    by (subst list_pages.simps) (auto split: prod.splits if_splits)
qed simp

text \<open>
  C34. Listing a bucket collects every page: when the service hands out the pages \<open>ps\<close>, each
  token leading to the next, the call succeeds and appends all their keys, in order.
\<close>

theorem listObjects_all_pages:
  assumes "serves_pages svc (s3_connect host) b s None ps s'"
  shows "listObjects svc host s b keys = Some (True, keys @ concat (map fst ps), s')"
  using list_pages_all [OF assms, of "[]"] by (simp add: listObjects_def)

section \<open>Round trip through the store\<close>

lemma s3_service_okD:
  assumes "s3_service_ok svc V"
  shows "PutObject svc cl s b k d = (s', r) \<Longrightarrow>
      case V s b of None \<Rightarrow> r \<noteq> None \<and> V s' = V s | Some m \<Rightarrow> r = None \<and> V s' = (V s)(b \<mapsto> m(k \<mapsto> d))"
    "GetObject svc cl s b k = (s', g) \<Longrightarrow>
      V s' = V s \<and> (case object_of (V s) b k of None \<Rightarrow> (\<exists>e. g = Inl e) | Some d \<Rightarrow> g = Inr d)"
    "HeadObject svc cl s b k = (s', h) \<Longrightarrow> V s' = V s \<and> (h = None \<longleftrightarrow> object_of (V s) b k \<noteq> None)"
proof -
  have "case PutObject svc cl s b k d of (s', r) \<Rightarrow>
      (case V s b of None \<Rightarrow> r \<noteq> None \<and> V s' = V s | Some m \<Rightarrow> r = None \<and> V s' = (V s)(b \<mapsto> m(k \<mapsto> d)))"
    using assms unfolding s3_service_ok_def put_ok_def by simp
  then show "PutObject svc cl s b k d = (s', r) \<Longrightarrow>
      case V s b of None \<Rightarrow> r \<noteq> None \<and> V s' = V s | Some m \<Rightarrow> r = None \<and> V s' = (V s)(b \<mapsto> m(k \<mapsto> d))"
    by simp
  have "case GetObject svc cl s b k of (s', r) \<Rightarrow> V s' = V s \<and>
      (case object_of (V s) b k of None \<Rightarrow> (\<exists>e. r = Inl e) | Some d \<Rightarrow> r = Inr d)"
    using assms unfolding s3_service_ok_def get_ok_def by simp
  then show "GetObject svc cl s b k = (s', g) \<Longrightarrow>
      V s' = V s \<and> (case object_of (V s) b k of None \<Rightarrow> (\<exists>e. g = Inl e) | Some d \<Rightarrow> g = Inr d)" by simp
  have "case HeadObject svc cl s b k of (s', r) \<Rightarrow> V s' = V s \<and> (r = None \<longleftrightarrow> object_of (V s) b k \<noteq> None)"
    using assms unfolding s3_service_ok_def head_ok_def by simp
  then show "HeadObject svc cl s b k = (s', h) \<Longrightarrow> V s' = V s \<and> (h = None \<longleftrightarrow> object_of (V s) b k \<noteq> None)"
    by simp
qed

lemma isFileExist_ok:
  assumes "s3_service_ok svc V"
  obtains s' where "isFileExist svc host s b k = (object_of (V s) b k \<noteq> None, s')" "V s' = V s"
  using s3_service_okD(3) [OF assms, of "s3_connect host" s b k] that
  by (cases "HeadObject svc (s3_connect host) s b k") (simp add: isFileExist_def)

lemma uploadFile_ok:
  assumes "s3_service_ok svc V" "stat fs f = Some (Reg d)" "V s b = Some m"
  obtains s' where "uploadFile svc host fs s b k f = (0, s')" "V s' = (V s)(b \<mapsto> m(k \<mapsto> d))"
  using s3_service_okD(1) [OF assms(1), of "s3_connect host" s b k d] that assms(2,3)
  by (cases "PutObject svc (s3_connect host) s b k d") (simp add: uploadFile_def file_exists_def)

lemma downloadFile_ok:
  assumes "s3_service_ok svc V"
  shows "object_of (V s) b k = Some d \<Longrightarrow> \<exists>s'. downloadFile svc host fs s b k f =
      (1, case fs_put fs f (\<lambda>_. d) of Some fs1 \<Rightarrow> fs1 | None \<Rightarrow> fs, s') \<and> V s' = V s"
    "object_of (V s) b k = None \<Longrightarrow> \<exists>s'. downloadFile svc host fs s b k f = (0, fs, s') \<and> V s' = V s"
  using s3_service_okD(2) [OF assms, of "s3_connect host" s b k]
  by (cases "GetObject svc (s3_connect host) s b k"; auto simp: downloadFile_def)+

text \<open>
  C26. A file put into an existing bucket is found there and comes back unchanged: after
  \<^verbatim>\<open>uploadFile\<close> of a regular file, \<^verbatim>\<open>isFileExist\<close> holds, and \<^verbatim>\<open>downloadFile\<close> to a place that can
  be written leaves there the content of the file and touches no other file.
\<close>

theorem s3_upload_download_round_trip:
  assumes svc: "s3_service_ok svc V" and b: "V s b = Some m" and ok: "fs_ok fs"
    and f: "file_key fs f = Some p" "fs_content fs p = Some d"
    and g: "file_key fs g = Some q"
  shows "\<exists>s1 s2 s3 fs'. uploadFile svc host fs s b k f = (0, s1) \<and>
    isFileExist svc host s1 b k = (True, s2) \<and>
    downloadFile svc host fs s2 b k g = (1, fs', s3) \<and>
    (\<forall>r. fs_content fs' r = (if r = q then Some d else fs_content fs r))"
proof -
  have st: "stat fs f = Some (Reg d)" using stat_file_key [OF f(1)] f(2) by auto
  obtain s1 where s1: "uploadFile svc host fs s b k f = (0, s1)" "V s1 = (V s)(b \<mapsto> m(k \<mapsto> d))"
    using uploadFile_ok [OF svc st b] by blast
  then have o: "object_of (V s1) b k = Some d" by (simp add: object_of_def)
  obtain s2 where s2: "isFileExist svc host s1 b k = (True, s2)" "V s2 = V s1"
    using isFileExist_ok [OF svc, of host s1 b k] o by auto
  obtain s3 where "downloadFile svc host fs s2 b k g =
      (1, case fs_put fs g (\<lambda>_. d) of Some fs1 \<Rightarrow> fs1 | None \<Rightarrow> fs, s3)"
    using downloadFile_ok(1) [OF svc, of s2 b k d host fs g] o s2 by auto
  moreover obtain fs1 where "fs_put fs g (\<lambda>_. d) = Some fs1"
    "\<And>r. fs_content fs1 r = (if r = q then Some d else fs_content fs r)"
    using fs_put_key [OF ok g, of "\<lambda>_. d"] by auto
  ultimately show ?thesis using s1(1) s2(1) by auto
qed


section \<open>Instances\<close>

text \<open>A service that keeps its buckets in memory and lists a bucket in two pages.\<close>

definition no_such :: s3_error where
  "no_such = \<lparr> exception_name = ''NoSuchBucket'', error_message = [] \<rparr>"

definition memory_service :: "buckets s3_service" where
  "memory_service =
     \<lparr> ListBuckets = (\<lambda>cl s. (s, Inr [])),
       CreateBucket = (\<lambda>cl s b c. (s(b \<mapsto> Map.empty), None)),
       DeleteBucket = (\<lambda>cl s b. (s(b := None), None)),
       ListObjectsV2 = (\<lambda>cl s b t. (s, if t = None then Inr ([''a'', ''b''], ''next'') else Inr ([''c''], []))),
       PutObject = (\<lambda>cl s b k d. case s b of
          None \<Rightarrow> (s, Some no_such) | Some m \<Rightarrow> (s(b \<mapsto> m(k \<mapsto> d)), None)),
       DeleteObject = (\<lambda>cl s b k. (case s b of None \<Rightarrow> s | Some m \<Rightarrow> s(b \<mapsto> m(k := None)), None)),
       GetObject = (\<lambda>cl s b k. (s, case object_of s b k of None \<Rightarrow> Inl no_such | Some d \<Rightarrow> Inr d)),
       HeadObject = (\<lambda>cl s b k. (s, if object_of s b k = None then Some no_such else None)) \<rparr>"

lemma memory_service_ok: "s3_service_ok memory_service (\<lambda>s. s)"
  by (auto simp: s3_service_ok_def put_ok_def get_ok_def head_ok_def memory_service_def split: option.splits)

theorem listObjects_all_pages_witness:
  "listObjects memory_service ''h'' Map.empty ''b'' [''z''] = Some (True, [''z'', ''a'', ''b'', ''c''], Map.empty)"
  using listObjects_all_pages [of memory_service "''h''" "''b''" Map.empty
      "[([''a'', ''b''], ''next''), ([''c''], [])]" Map.empty "[''z'']"]
  by (simp add: memory_service_def)

definition demo_disk :: fs where
  "demo_disk = \<lparr> fs_root = Dir [(''a'', Reg ''data'')], fs_cwd = [], dir_st_size = 4096 \<rparr>"

theorem s3_upload_download_round_trip_witness:
  "\<exists>s1 s2 s3 fs'. uploadFile memory_service ''h'' demo_disk (Map.empty(''b'' \<mapsto> Map.empty)) ''b'' ''k'' ''/a'' = (0, s1) \<and>
    isFileExist memory_service ''h'' s1 ''b'' ''k'' = (True, s2) \<and>
    downloadFile memory_service ''h'' demo_disk s2 ''b'' ''k'' ''/c'' = (1, fs', s3) \<and>
    (\<forall>r. fs_content fs' r = (if r = [''c''] then Some ''data'' else fs_content demo_disk r))"
proof (rule s3_upload_download_round_trip [OF memory_service_ok])
  show "fs_ok demo_disk" by (simp add: fs_ok_def demo_disk_def)
  show "file_key demo_disk ''/a'' = Some [''a'']" "file_key demo_disk ''/c'' = Some [''c'']"
    by code_simp+
  show "fs_content demo_disk [''a''] = Some ''data''" by (simp add: fs_content_def demo_disk_def)
qed simp

end
