(* ===== verification/FileTransfer.thy ===== *)
theory FileTransfer
  imports Http_Server S3Client
begin

text \<open>
  The request handlers of the file server (\<^verbatim>\<open>src/src/transfer.cpp\<close>, with the response helpers of
  \<^verbatim>\<open>src/src/httpUtils.cpp\<close>).  A handler works on the file cache and on the object store.  What it
  calls outside the repository is a parameter: the shell (\<^verbatim>\<open>popen\<close>), the object store service, the
  JSON library, the bytes in memory behind a buffer that is not terminated.  Logging is left out.
\<close>

section \<open>Environment and results\<close>

definition CACHE_DIR :: string where
  "CACHE_DIR = ''/app/run/frs/dat/fileCache/''"

definition CACHE_TEMP_DIR :: string where
  "CACHE_TEMP_DIR = ''/app/run/frs/dat/fileCache/temp/''"

definition CHUNK_SIZE :: nat where "CHUNK_SIZE = 32 * 1024"

definition BUCKET_IM :: string where "BUCKET_IM = ''frs-im''"

definition BUCKET_CONF :: string where "BUCKET_CONF = ''frs-conf''"

abbreviation CONTENT_TYPE_APP_JSON :: string where
  "CONTENT_TYPE_APP_JSON \<equiv> ''application/json''"

abbreviation CONTENT_TYPE_APP_OCTET :: string where
  "CONTENT_TYPE_APP_OCTET \<equiv> ''application/octet-stream''"

text \<open>The libraries and services a handler uses.  \<open>json_set v k x\<close> is \<^verbatim>\<open>v[k] = x\<close>; \<open>over_read\<close> gives
  the bytes found behind an unterminated buffer up to the next NUL.\<close>

record ('s, 'v) frs_env =
  env_popen :: "fs popen"
  env_s3 :: "'s s3_service"
  env_rgwHost :: string
  json_null :: 'v
  json_string :: "string \<Rightarrow> 'v"
  json_int :: "int \<Rightarrow> 'v"
  json_set :: "'v \<Rightarrow> string \<Rightarrow> 'v \<Rightarrow> 'v"
  json_write :: "(string \<Rightarrow> string option) \<Rightarrow> 'v \<Rightarrow> string"
  json_builder :: "string \<Rightarrow> string option"
  json_parse :: "string \<Rightarrow> 'v option"
  over_read :: "string \<Rightarrow> string"

record 's world =
  w_fs :: fs
  w_s3 :: 's

type_synonym 's response = "'s world Response"
type_synonym 's handler_result = "('s response \<times> 's world) outcome"

definition path_param :: "Request \<Rightarrow> string \<Rightarrow> (string \<Rightarrow> 'a outcome) \<Rightarrow> 'a outcome" where
  "path_param req key k =
     (case req_path_params req key of None \<Rightarrow> Throws ''out_of_range'' | Some v \<Rightarrow> k v)"

definition route_params ::
  "Request \<Rightarrow> (string \<Rightarrow> string \<Rightarrow> string \<Rightarrow> 'a outcome) \<Rightarrow> 'a outcome" where
  "route_params req k =
     path_param req ''apptype'' (\<lambda>apptype. path_param req ''restype'' (\<lambda>restype.
       path_param req ''filename'' (\<lambda>filename. k apptype restype filename)))"

text \<open>\<^verbatim>\<open>CACHE_DIR + apptype + "/" + restype + "/" + filename\<close>\<close>

definition cache_file :: "string \<Rightarrow> string \<Rightarrow> string \<Rightarrow> string" where
  "cache_file apptype restype filename = CACHE_DIR @ apptype @ ''/'' @ restype @ ''/'' @ filename"

text \<open>\<^verbatim>\<open>std::ifstream(file).good()\<close>: a path that exists can be opened for reading.\<close>

definition ifstream_good :: "fs \<Rightarrow> string \<Rightarrow> bool" where
  "ifstream_good fs file \<longleftrightarrow> stat fs file \<noteq> None"

section \<open>Responses\<close>

definition SetResponseMsg :: "('s, 'v) frs_env \<Rightarrow> 's response \<Rightarrow> int \<Rightarrow> int \<Rightarrow> string \<Rightarrow> 's response" where
  "SetResponseMsg env res status code msg =
     (let resp = json_set env (json_set env (json_null env) ''msg'' (json_string env msg)) ''code'' (json_int env code);
          json = json_unformat_string (json_write env) (json_builder env) resp
      in set_content (res\<lparr> res_status := status \<rparr>) json ''application/json'')"

definition SetResponseMsgWithData ::
  "('s, 'v) frs_env \<Rightarrow> 's response \<Rightarrow> int \<Rightarrow> int \<Rightarrow> string \<Rightarrow> 'v \<Rightarrow> 's response" where
  "SetResponseMsgWithData env res status code msg data =
     (let resp = json_set env (json_set env (json_set env (json_null env) ''msg'' (json_string env msg))
                   ''code'' (json_int env code)) ''data'' data;
          json = json_unformat_string (json_write env) (json_builder env) resp
      in set_content (res\<lparr> res_status := status \<rparr>) json ''application/json'')"

definition GetBucketName :: "string \<Rightarrow> string" where
  "GetBucketName apptype =
     (if apptype = ''im'' then BUCKET_IM else if apptype = ''conf'' then BUCKET_CONF else [])"

section \<open>Upload\<close>

text \<open>What the callbacks of an upload share: the file system, the parts announced so far, and
  whether the content callback ran before any part was announced (\<^verbatim>\<open>files.back()\<close> of nothing).\<close>

record upload_state =
  up_fs :: fs
  up_files :: "MultipartFormData list"
  up_undefined :: bool

definition form_header_callback :: "upload_state header_callback" where
  "form_header_callback u file = (True, u\<lparr> up_files := up_files u @ [file] \<rparr>)"

definition form_content_callback :: "string \<Rightarrow> string \<Rightarrow> upload_state content_callback" where
  "form_content_callback uploadTmpFile metaFile u data =
     (if up_files u = [] then (True, u\<lparr> up_undefined := True \<rparr>)
      else let file = last (up_files u) in
        if mfd_content_type file = CONTENT_TYPE_APP_OCTET
        then (True, u\<lparr> up_fs := snd (append_to_file2 (up_fs u) uploadTmpFile data) \<rparr>)
        else if mfd_content_type file = CONTENT_TYPE_APP_JSON
        then (True, u\<lparr> up_fs := snd (write_to_file (up_fs u) metaFile (c_str data)) \<rparr>)
        else (True, u))"

text \<open>\<^verbatim>\<open>write_to_file(metaFile, data)\<close> takes \<open>data\<close> as a C string.\<close>

definition as_c_string :: "('s, 'v) frs_env \<Rightarrow> string \<Rightarrow> string" where
  "as_c_string env data = (if NUL \<in> set data then c_str data else data @ over_read env data)"

definition json_content_callback :: "('s, 'v) frs_env \<Rightarrow> string \<Rightarrow> upload_state content_callback" where
  "json_content_callback env metaFile u data =
     (True, u\<lparr> up_fs := snd (write_to_file (up_fs u) metaFile (as_c_string env data)) \<rparr>)"

definition octet_content_callback :: "string \<Rightarrow> upload_state content_callback" where
  "octet_content_callback uploadTmpFile u data =
     (True, u\<lparr> up_fs := snd (write_to_binary_file (up_fs u) uploadTmpFile data) \<rparr>)"

text \<open>The reading of the body, in the four ways the handlers do it.\<close>

definition receive_upload ::
  "('s, 'v) frs_env \<Rightarrow> (upload_state, 'r) content_reader \<Rightarrow> 'r \<Rightarrow> Request \<Rightarrow> string \<Rightarrow> string \<Rightarrow> fs \<Rightarrow> (fs \<times> 'r) outcome" where
  "receive_upload env content_reader r req uploadTmpFile metaFile fs =
     (let u = \<lparr> up_fs = fs, up_files = [], up_undefined = False \<rparr>;
          content_type = req_get_header_value req ''Content-Type'' 0;
          got = (if is_multipart_form_data req
                 then read_form content_reader r form_header_callback (form_content_callback uploadTmpFile metaFile) u
                 else if content_type = CONTENT_TYPE_APP_JSON
                 then read_plain content_reader r (json_content_callback env metaFile) u
                 else if content_type = CONTENT_TYPE_APP_OCTET
                 then read_plain content_reader r (octet_content_callback uploadTmpFile) u
                 else Returns (True, u, r))
      in obind got (\<lambda>(_, u', r'). if up_undefined u' then Undefined else Returns (up_fs u', r')))"

text \<open>The digest check and the renaming, which ignores its own failure.\<close>

definition commit_upload ::
  "('s, 'v) frs_env \<Rightarrow> 's response \<Rightarrow> fs \<Rightarrow> string \<Rightarrow> string \<Rightarrow> string \<Rightarrow> 's response \<times> fs" where
  "commit_upload env res fs filename uploadTmpFile upload_file =
     (let (fs1, fileMd5) = calculate_file_md5 (env_popen env) fs uploadTmpFile
      in if fileMd5 \<noteq> filename then (SetResponseMsg env res 400 (- 5) ''md5 is NOT consistent'', fs1)
         else let fs2 = snd (file_rename fs1 uploadTmpFile upload_file)
           in (SetResponseMsg env res 200 0 ''file upload success1'', fs2))"

definition FileUploadCallback ::
  "('s, 'v) frs_env \<Rightarrow> (upload_state, 'r) content_reader \<Rightarrow> Request \<Rightarrow> 's response \<Rightarrow> 's world \<Rightarrow> 'r \<Rightarrow>
     ('s response \<times> 's world \<times> 'r) outcome" where
  "FileUploadCallback env content_reader req res w r =
     route_params req (\<lambda>apptype restype filename.
       let uploadDir = ''mkdir -p '' @ CACHE_DIR @ apptype @ ''/'' @ restype;
           fs1 = fst (cmd_system (env_popen env) (w_fs w) (Some (c_str uploadDir)));
           upload_file = cache_file apptype restype filename;
           metaFile = cache_file apptype restype filename @ ''.metadata'';
           uploadTmpFile = cache_file apptype restype filename @ ''.tmp''
       in if file_exists fs1 upload_file
          then Returns (SetResponseMsg env res 400 (- 2) ''file exist'', w\<lparr> w_fs := fs1 \<rparr>, r)
          else case receive_upload env content_reader r req uploadTmpFile metaFile fs1 of
                 Returns (fs2, r') \<Rightarrow>
                   (case commit_upload env res fs2 filename uploadTmpFile upload_file of
                      (res', fs3) \<Rightarrow> Returns (res', w\<lparr> w_fs := fs3 \<rparr>, r'))
               | Throws e \<Rightarrow> Throws e | Undefined \<Rightarrow> Undefined | Diverges \<Rightarrow> Diverges)"

definition TempFileUploadCallback ::
  "('s, 'v) frs_env \<Rightarrow> (upload_state, 'r) content_reader \<Rightarrow> Request \<Rightarrow> 's response \<Rightarrow> 's world \<Rightarrow> 'r \<Rightarrow>
     ('s response \<times> 's world \<times> 'r) outcome" where
  "TempFileUploadCallback env content_reader req res w r =
     path_param req ''filename'' (\<lambda>filename.
       let uploadDir = ''mkdir -p '' @ CACHE_DIR @ ''temp/'';
           fs1 = fst (cmd_system (env_popen env) (w_fs w) (Some (c_str uploadDir)));
           upload_file = CACHE_DIR @ ''temp/'' @ filename;
           metaFile = CACHE_DIR @ ''temp/'' @ filename @ ''.metadata'';
           uploadTmpFile = CACHE_DIR @ ''temp/'' @ filename @ ''.tmp''
       in if file_exists fs1 upload_file
          then Returns (SetResponseMsg env res 400 (- 2) ''file exist'', w\<lparr> w_fs := fs1 \<rparr>, r)
          else case receive_upload env content_reader r req uploadTmpFile metaFile fs1 of
                 Returns (fs2, r') \<Rightarrow>
                   (case commit_upload env res fs2 filename uploadTmpFile upload_file of
                      (res', fs3) \<Rightarrow> Returns (res', w\<lparr> w_fs := fs3 \<rparr>, r'))
               | Throws e \<Rightarrow> Throws e | Undefined \<Rightarrow> Undefined | Diverges \<Rightarrow> Diverges)"

section \<open>Download\<close>

text \<open>Fetch a missing file from the object store; the flag tells whether the local file is there now.\<close>

definition fetch_from_ceph ::
  "('s, 'v) frs_env \<Rightarrow> 's world \<Rightarrow> string \<Rightarrow> string \<Rightarrow> string \<Rightarrow> string \<Rightarrow> bool \<times> 's world" where
  "fetch_from_ceph env w apptype restype filename localFile =
     (let bucket = GetBucketName apptype;
          keyName = ''/'' @ restype @ ''/'' @ filename
      in case isFileExist (env_s3 env) (env_rgwHost env) (w_s3 w) bucket keyName of
           (False, s1) \<Rightarrow> (False, w\<lparr> w_s3 := s1 \<rparr>)
         | (True, s1) \<Rightarrow>
             (case downloadFile (env_s3 env) (env_rgwHost env) (w_fs w) s1 bucket keyName localFile of
                (_, fs2, s2) \<Rightarrow> (file_exists fs2 localFile, w\<lparr> w_fs := fs2, w_s3 := s2 \<rparr>)))"

text \<open>The metadata of a file as the data of the response.\<close>

definition respond_metadata :: "('s, 'v) frs_env \<Rightarrow> 's response \<Rightarrow> fs \<Rightarrow> string \<Rightarrow> 's response" where
  "respond_metadata env res fs metaFile =
     (let meta = read_from_file fs metaFile;
          data = snd (string2json (json_parse env) meta (json_null env))
      in SetResponseMsgWithData env res 200 0 ''OK'' data)"

definition FileGetMetadataCallback ::
  "('s, 'v) frs_env \<Rightarrow> Request \<Rightarrow> 's response \<Rightarrow> 's world \<Rightarrow> 's handler_result" where
  "FileGetMetadataCallback env req res w =
     route_params req (\<lambda>apptype restype filename.
       let metaFile = cache_file apptype restype filename
       in if ifstream_good (w_fs w) metaFile then Returns (respond_metadata env res (w_fs w) metaFile, w)
          else case fetch_from_ceph env w apptype restype filename metaFile of
                 (found, w') \<Rightarrow>
                   if found then Returns (respond_metadata env res (w_fs w') metaFile, w')
                   else Returns (SetResponseMsg env res 400 (- 4) ''file not found'', w'))"

definition FileHeadCallback ::
  "('s, 'v) frs_env \<Rightarrow> Request \<Rightarrow> 's response \<Rightarrow> 's world \<Rightarrow> 's handler_result" where
  "FileHeadCallback env req res w =
     route_params req (\<lambda>apptype restype filename.
       let metaFile = cache_file apptype restype filename @ ''.metadata'';
           (found, w') = (if \<not> ifstream_good (w_fs w) metaFile
                          then fetch_from_ceph env w apptype restype filename metaFile else (True, w))
       in if found then Returns (respond_metadata env res (w_fs w') metaFile, w')
          else Returns (SetResponseMsg env res 400 (- 4) ''file not found'', w'))"

text \<open>The provider of a download.  A directory opens as a stream whose size is unspecified.\<close>

definition download_provider :: "string \<Rightarrow> 's world content_provider_without_length" where
  "download_provider download_file w offset =
     (case stat (w_fs w) download_file of
        None \<Rightarrow> Some ([], False)
      | Some (Dir _) \<Rightarrow> None
      | Some (Reg s) \<Rightarrow>
          (let file_size = length s in
           if offset \<ge> file_size then Some ([], False)
           else let last_chunk = (\<not> file_size - offset > CHUNK_SIZE);
                    read_size = (if last_chunk then file_size - offset else CHUNK_SIZE)
             in Some (SinkWrite (take read_size (drop offset s)) # (if last_chunk then [SinkDone] else []), True)))"

definition FileChunkedDownloadCallback ::
  "('s, 'v) frs_env \<Rightarrow> Request \<Rightarrow> 's response \<Rightarrow> 's world \<Rightarrow> 's handler_result" where
  "FileChunkedDownloadCallback env req res w =
     route_params req (\<lambda>apptype restype filename.
       let res1 = set_header res ''Cache-Control'' ''no-cache'';
           res2 = set_header res1 ''Content-Disposition'' (''attachment; filename='' @ filename);
           download_file = cache_file apptype restype filename;
           (found, w') = (if \<not> ifstream_good (w_fs w) download_file
                          then fetch_from_ceph env w apptype restype filename download_file else (True, w))
       in if found
          then Returns (set_chunked_content_provider res2 ''application/octet-stream''
                          (download_provider download_file) None, w')
          else Returns (SetResponseMsg env res2 400 (- 4) ''file not found'', w'))"

definition FileGetHeadCallback ::
  "('s, 'v) frs_env \<Rightarrow> Request \<Rightarrow> 's response \<Rightarrow> 's world \<Rightarrow> 's handler_result" where
  "FileGetHeadCallback env req res w =
     path_param req ''filename'' (\<lambda>filename.
       if req_method req = ''HEAD'' then FileHeadCallback env req res w
       else if find_sub (c_str filename) ''.metadata'' 0 = None
       then FileChunkedDownloadCallback env req res w
       else FileGetMetadataCallback env req res w)"

definition TempFileDownloadCallback ::
  "('s, 'v) frs_env \<Rightarrow> Request \<Rightarrow> 's response \<Rightarrow> 's world \<Rightarrow> 's handler_result" where
  "TempFileDownloadCallback env req res w =
     path_param req ''filename'' (\<lambda>filename.
       let res1 = set_header res ''Cache-Control'' ''no-cache'';
           res2 = set_header res1 ''Content-Disposition'' ''attachment; filename=xxx.txt'';
           download_file = CACHE_TEMP_DIR @ filename
       in if \<not> ifstream_good (w_fs w) download_file
          then Returns (SetResponseMsg env res2 400 (- 4) ''file not found'', w)
          else Returns (set_chunked_content_provider res2 ''application/octet-stream''
                          (download_provider download_file) None, w))"

section \<open>Metadata and deletion\<close>

definition MetadataPatchCallback ::
  "('s, 'v) frs_env \<Rightarrow> Request \<Rightarrow> 's response \<Rightarrow> 's world \<Rightarrow> 's handler_result" where
  "MetadataPatchCallback env req res w =
     route_params req (\<lambda>apptype restype filename.
       let reqFile = cache_file apptype restype filename;
           metaFile = cache_file apptype restype filename @ ''.metadata''
       in if \<not> file_exists (w_fs w) reqFile
          then Returns (SetResponseMsg env res 400 (- 4) ''file not found'', w)
          else Returns (SetResponseMsg env res 200 0 ''metadata saved'',
                        w\<lparr> w_fs := snd (write_to_file (w_fs w) metaFile (req_body req)) \<rparr>))"

definition TestPatchCallback ::
  "('s, 'v) frs_env \<Rightarrow> Request \<Rightarrow> 's response \<Rightarrow> 's world \<Rightarrow> 's handler_result" where
  "TestPatchCallback env req res w = Returns (SetResponseMsg env res 200 0 ''PATCH received'', w)"

definition FileDeleteCallback ::
  "('s, 'v) frs_env \<Rightarrow> Request \<Rightarrow> 's response \<Rightarrow> 's world \<Rightarrow> 's handler_result" where
  "FileDeleteCallback env req res w =
     route_params req (\<lambda>apptype restype filename.
       let fullFile = cache_file apptype restype filename
       in if \<not> ifstream_good (w_fs w) fullFile
          then Returns (SetResponseMsg env res 400 (- 4) ''file not found'', w)
          else case os_remove (w_fs w) fullFile of
                 (rv, fs1) \<Rightarrow>
                   Returns (if rv = 0 then SetResponseMsg env res 200 0 ''file remove ok'' else res,
                            w\<lparr> w_fs := fs1 \<rparr>))"

definition cache_root :: "string list" where
  "cache_root = [''app'', ''run'', ''frs'', ''dat'', ''fileCache'']"

definition safe_name :: "string \<Rightarrow> bool" where
  "safe_name c \<longleftrightarrow> c \<noteq> [] \<and> c \<noteq> ''.'' \<and> c \<noteq> ''..'' \<and>
     list_all (\<lambda>x. c_isalnum x \<or> x \<in> {CHR ''.'', CHR ''_'', CHR ''-''}) c"

definition mkdir_law :: "fs popen \<Rightarrow> bool" where
  "mkdir_law sh \<longleftrightarrow> (\<forall>fs ds. fs_ok fs \<and> ds \<noteq> [] \<and> list_all safe_name ds \<and>
     (\<forall>q. prefix q ds \<longrightarrow> fs_content fs q = None) \<longrightarrow>
     (\<forall>s \<in> {[], ''/''}. \<exists>fs' out. sh fs (''mkdir -p '' @ path_text ds @ s) = (fs', Some out) \<and> fs_cwd fs' = fs_cwd fs \<and>
        fs_content fs' = fs_content fs \<and>
        (\<forall>q. is_dir_at (fs_root fs') q \<longleftrightarrow> is_dir_at (fs_root fs) q \<or> prefix q ds)))"

definition md5sum_law :: "fs popen \<Rightarrow> bool" where
  "md5sum_law sh \<longleftrightarrow> (\<forall>fs ds c. ds \<noteq> [] \<and> list_all safe_name ds \<and> fs_content fs ds = Some c \<longrightarrow>
     sh fs (''md5sum '' @ [DQUOTE] @ path_text ds @ [DQUOTE]) = (fs, Some (md5sum_line c (path_text ds))))"

definition shell_ok :: "fs popen \<Rightarrow> bool" where
  "shell_ok sh \<longleftrightarrow> mkdir_law sh \<and> md5sum_law sh"

lemma safe_name_chars:
  assumes "safe_name c" "x \<in> set c"
  shows "x \<noteq> CHR ''/''" "x \<noteq> NUL" "x \<noteq> LF" "x \<noteq> CR"
  using assms by (auto simp: safe_name_def list_all_iff c_isalnum_def c_isdigit_def c_isupper_def c_islower_def)

lemma safe_name_plain: "safe_name c \<Longrightarrow> plain c"
  using safe_name_chars [of c] by (auto simp: plain_def safe_name_def)

lemma safe_names_plain: "list_all safe_name ds \<Longrightarrow> list_all plain ds"
  by (auto simp: list_all_iff safe_name_plain)

lemma safe_path_chars: "list_all safe_name ds \<Longrightarrow> NUL \<notin> set (path_text ds) \<and> LF \<notin> set (path_text ds)"
  by (induction ds) (auto dest: safe_name_chars)

lemma safe_name_suffix: "safe_name f \<Longrightarrow> safe_name (f @ ''.tmp'')"
  by (auto simp: safe_name_def c_isalnum_def c_isdigit_def c_isupper_def c_islower_def)

lemma cache_root_safe [simp]: "list_all safe_name cache_root"
  by (simp add: cache_root_def safe_name_def c_isalnum_def c_isdigit_def c_isupper_def c_islower_def)

lemma cache_paths:
  "CACHE_DIR @ a @ ''/'' @ r = path_text (cache_root @ [a, r])"
  "cache_file a r f = path_text (cache_root @ [a, r, f])"
  "cache_file a r f @ s = path_text (cache_root @ [a, r, f @ s])"
  "CACHE_DIR @ ''temp/'' = path_text (cache_root @ [''temp'']) @ ''/''"
  "CACHE_DIR @ ''temp/'' @ f = path_text (cache_root @ [''temp'', f])"
  "CACHE_TEMP_DIR @ f = path_text (cache_root @ [''temp'', f])"
  by (simp_all add: CACHE_DIR_def CACHE_TEMP_DIR_def cache_file_def cache_root_def)

lemma mkdir_command:
  assumes "mkdir_law sh" "fs_ok fs" "list_all safe_name ds" "\<And>q. prefix q ds \<Longrightarrow> fs_content fs q = None"
    "s \<in> {[], ''/''}" "ds \<noteq> []"
  obtains fs' where "fst (cmd_system sh fs (Some (c_str (''mkdir -p '' @ path_text ds @ s)))) = fs'" "fs_ok fs'"
    "fs_content fs' = fs_content fs" "\<And>q. is_dir_at (fs_root fs') q \<longleftrightarrow> is_dir_at (fs_root fs) q \<or> prefix q ds"
proof -
  from assms obtain fs' out where fs': "sh fs (''mkdir -p '' @ path_text ds @ s) = (fs', Some out)"
    "fs_cwd fs' = fs_cwd fs" "fs_content fs' = fs_content fs"
    "\<And>q. is_dir_at (fs_root fs') q \<longleftrightarrow> is_dir_at (fs_root fs) q \<or> prefix q ds"
    unfolding mkdir_law_def by metis
  have "c_str (''mkdir -p '' @ path_text ds @ s) = ''mkdir -p '' @ path_text ds @ s"
    using safe_path_chars [OF assms(3)] assms(5) by (intro c_str_id) auto
  then show ?thesis using fs' assms(2) that [of fs'] by (simp add: cmd_system_def fs_ok_def)
qed

lemma md5_command:
  assumes "md5sum_law sh" "list_all safe_name ds" "fs_content fs ds = Some c" "length (path_text ds) < 2000" "ds \<noteq> []"
  shows "calculate_file_md5 sh fs (path_text ds) = (fs, hex_text (rfc_md5 (bytes_of c)))"
proof (rule calculate_file_md5_run)
  show "sh fs (''md5sum '' @ [DQUOTE] @ path_text ds @ [DQUOTE]) = (fs, Some (md5sum_line c (path_text ds)))"
    using assms(1-3,5) unfolding md5sum_law_def by blast
qed (use safe_path_chars [OF assms(2)] assms(4) in auto)

lemma SetResponseMsg_status [simp]:
  "res_status (SetResponseMsg env res st code msg) = st"
  "res_status (SetResponseMsgWithData env res st code msg d) = st"
  by (simp_all add: SetResponseMsg_def SetResponseMsgWithData_def set_content_def set_header_def Let_def)

text \<open>The place of an upload: its directory, its name, and its temporary name.\<close>

definition staged :: "fs \<Rightarrow> string list \<Rightarrow> string \<Rightarrow> bool" where
  "staged fs ds f \<longleftrightarrow> fs_ok fs \<and> list_all safe_name ds \<and> safe_name f \<and>
     file_key fs (path_text (ds @ [f])) = Some (ds @ [f]) \<and>
     file_key fs (path_text (ds @ [f @ ''.tmp''])) = Some (ds @ [f @ ''.tmp'']) \<and>
     length (path_text (ds @ [f])) < 1990"

lemma stagedI:
  assumes "fs_ok fs" "list_all safe_name ds" "safe_name f" "is_dir_at (fs_root fs) ds"
    "\<not> is_dir_at (fs_root fs) (ds @ [f])" "\<not> is_dir_at (fs_root fs) (ds @ [f @ ''.tmp''])"
    "length (path_text (ds @ [f])) < 1990"
  shows "staged fs ds f"
proof -
  have "list_all plain (ds @ [f])" "list_all plain (ds @ [f @ ''.tmp''])"
    using assms(2,3) safe_names_plain safe_name_plain safe_name_suffix by auto
  then show ?thesis using assms file_key_plain [of "ds @ [f]" fs] file_key_plain [of "ds @ [f @ ''.tmp'']" fs]
    by (simp add: staged_def)
qed

lemma staged_cong: "staged fs ds f \<Longrightarrow> fs_ok fs' \<Longrightarrow> file_key fs' = file_key fs \<Longrightarrow> staged fs' ds f"
  by (simp add: staged_def)

lemma commit_upload_ok:
  assumes sh: "md5sum_law (env_popen env)" and st: "staged fs ds f"
    and t: "fs_content fs (ds @ [f @ ''.tmp'']) = Some t"
  shows "\<exists>res' fs'. commit_upload env res fs f (path_text (ds @ [f @ ''.tmp''])) (path_text (ds @ [f])) = (res', fs') \<and>
    (if hex_text (rfc_md5 (bytes_of t)) = f
     then res_status res' = 200 \<and> fs_content fs' = (fs_content fs)(ds @ [f] \<mapsto> t, ds @ [f @ ''.tmp''] := None)
     else res_status res' = 400 \<and> fs' = fs)"
proof -
  let ?tmp = "ds @ [f @ ''.tmp'']"
  have ok: "fs_ok fs" "list_all safe_name ?tmp" "length (path_text ?tmp) < 2000"
    using st by (auto simp: staged_def safe_name_suffix)
  have md5: "calculate_file_md5 (env_popen env) fs (path_text ?tmp) = (fs, hex_text (rfc_md5 (bytes_of t)))"
    by (rule md5_command [OF sh ok(2) t ok(3)]) simp
  have "fs_content (snd (file_rename fs (path_text ?tmp) (path_text (ds @ [f])))) =
      (fs_content fs)(ds @ [f] \<mapsto> t, ?tmp := None)"
    using disk.move_law [OF ok(1), of "path_text ?tmp" ?tmp "path_text (ds @ [f])" "ds @ [f]" t] t st
    by (simp add: staged_def)
  then show ?thesis using md5 unfolding commit_upload_def by (simp add: Let_def)
qed


section \<open>The readers of a body\<close>

lemma form_pieces:
  assumes "mfd_content_type m = CONTENT_TYPE_APP_OCTET" "up_files u \<noteq> []" "last (up_files u) = m"
  shows "foldl (\<lambda>u x. snd (form_content_callback tmp meta u x)) u es =
    u\<lparr> up_fs := foldl (\<lambda>fs d. snd (append_to_file2 fs tmp d)) (up_fs u) es \<rparr>"
  using assms by (induction es arbitrary: u) (simp_all add: form_content_callback_def)

lemma octet_pieces:
  "foldl (\<lambda>u x. snd (octet_content_callback tmp u x)) u es =
    u\<lparr> up_fs := foldl (\<lambda>fs d. snd (write_to_binary_file fs tmp d)) (up_fs u) es \<rparr>"
  by (induction es arbitrary: u) (simp_all add: octet_content_callback_def)

lemma receive_form:
  assumes "is_multipart_form_data req" "mfd_content_type m = CONTENT_TYPE_APP_OCTET" "delivers_form cr r m c r'"
  shows "\<exists>es. es \<noteq> [] \<and> concat es = c \<and> receive_upload env cr r req tmp meta fs =
    Returns (foldl (\<lambda>fs d. snd (append_to_file2 fs tmp d)) fs es, r')"
proof -
  let ?f = "\<lambda>u x. snd (form_content_callback tmp meta u x)" and ?h = "\<lambda>u m. snd (form_header_callback u m)"
  let ?u = "\<lparr> up_fs = fs, up_files = [], up_undefined = False \<rparr>"
  have "form_content_callback tmp meta u x = (True, ?f u x)" for u x
    by (auto simp: form_content_callback_def Let_def)
  moreover have "form_header_callback u m = (True, ?h u m)" for u m by (simp add: form_header_callback_def)
  ultimately obtain es where es: "read_form cr r form_header_callback (form_content_callback tmp meta) ?u =
      Returns (True, foldl ?f (?h ?u m) es, r')" "concat es = c" "es \<noteq> []"
    using assms(3) [unfolded delivers_form_def, rule_format, of "form_content_callback tmp meta" ?f
        form_header_callback ?h ?u] by blast
  have "foldl ?f (?h ?u m) es =
      \<lparr> up_fs = foldl (\<lambda>fs d. snd (append_to_file2 fs tmp d)) fs es, up_files = [m], up_undefined = False \<rparr>"
    using form_pieces [OF assms(2), of "?h ?u m" tmp meta es] by (simp add: form_header_callback_def)
  then show ?thesis using es assms(1) by (intro exI [of _ es]) (simp add: receive_upload_def Let_def)
qed

lemma receive_octet:
  assumes "\<not> is_multipart_form_data req" "req_get_header_value req ''Content-Type'' 0 = CONTENT_TYPE_APP_OCTET"
    "delivers_pieces cr r es r'"
  shows "receive_upload env cr r req tmp meta fs =
    Returns (foldl (\<lambda>fs d. snd (write_to_binary_file fs tmp d)) fs es, r')"
proof -
  have "octet_content_callback tmp u x = (True, snd (octet_content_callback tmp u x))" for u x
    by (simp add: octet_content_callback_def)
  then have "read_plain cr r (octet_content_callback tmp) u =
      Returns (True, foldl (\<lambda>u x. snd (octet_content_callback tmp u x)) u es, r')" for u
    using assms(3) [unfolded delivers_pieces_def, rule_format, of "octet_content_callback tmp"
        "\<lambda>u x. snd (octet_content_callback tmp u x)"] by blast
  then show ?thesis using assms(1,2) by (simp add: receive_upload_def Let_def octet_pieces)
qed

text \<open>The cache before an upload into \<open>ds\<close>: no file stands where a directory is needed, and neither the
  file nor a directory in its place or in the place of its temporary file exists.\<close>

definition upload_place :: "fs \<Rightarrow> string list \<Rightarrow> string \<Rightarrow> bool" where
  "upload_place fs ds f \<longleftrightarrow> fs_ok fs \<and> list_all safe_name ds \<and> safe_name f \<and>
     length (path_text (ds @ [f])) < 1990 \<and> (\<forall>q. prefix q ds \<longrightarrow> fs_content fs q = None) \<and>
     node_at (fs_root fs) (ds @ [f]) = None \<and> \<not> is_dir_at (fs_root fs) (ds @ [f @ ''.tmp''])"

text \<open>How an upload that received \<open>t\<close> as its temporary file ends.\<close>

definition upload_result ::
  "(string list \<rightharpoonup> string) \<Rightarrow> string list \<Rightarrow> string \<Rightarrow> string \<Rightarrow> 's response \<Rightarrow> (string list \<rightharpoonup> string) \<Rightarrow> bool" where
  "upload_result before ds f t res after \<longleftrightarrow>
     (if hex_text (rfc_md5 (bytes_of t)) = f
      then res_status res = 200 \<and> after = before(ds @ [f] \<mapsto> t, ds @ [f @ ''.tmp''] := None)
      else res_status res = 400 \<and> after = before(ds @ [f @ ''.tmp''] \<mapsto> t))"

text \<open>The same when the file may be there already, and what an upload to such a place comes to.\<close>

definition upload_dir :: "fs \<Rightarrow> string list \<Rightarrow> string \<Rightarrow> bool" where
  "upload_dir fs ds f \<longleftrightarrow> fs_ok fs \<and> list_all safe_name ds \<and> safe_name f \<and>
     length (path_text (ds @ [f])) < 1990 \<and> (\<forall>q. prefix q ds \<longrightarrow> fs_content fs q = None) \<and>
     \<not> is_dir_at (fs_root fs) (ds @ [f]) \<and> \<not> is_dir_at (fs_root fs) (ds @ [f @ ''.tmp''])"

definition upload_answer ::
  "(string list \<rightharpoonup> string) \<Rightarrow> string list \<Rightarrow> string \<Rightarrow> string \<Rightarrow> 's response \<Rightarrow> (string list \<rightharpoonup> string) \<Rightarrow> bool" where
  "upload_answer before ds f t res after \<longleftrightarrow>
     (if before (ds @ [f]) = None then upload_result before ds f t res after
      else res_status res = 400 \<and> after = before)"

lemma upload_answer_free: "before (ds @ [f]) = None \<Longrightarrow> upload_answer before ds f t res after = upload_result before ds f t res after"
  by (simp add: upload_answer_def)

lemma upload_place_dir: "upload_place fs ds f \<longleftrightarrow> upload_dir fs ds f \<and> fs_content fs (ds @ [f]) = None"
  by (auto simp: upload_place_def upload_dir_def is_dir_at_def fs_content_def file_in_def split: option.splits inode.splits)

lemma upload_prepared:
  assumes "mkdir_law sh" "upload_place fs ds f" "s \<in> {[], ''/''}" "ds \<noteq> []"
  obtains fs1 where "fst (cmd_system sh fs (Some (c_str (''mkdir -p '' @ path_text ds @ s)))) = fs1"
    "fs_content fs1 = fs_content fs" "staged fs1 ds f" "\<not> file_exists fs1 (path_text (ds @ [f]))"
proof -
  from assms(2) have pl: "fs_ok fs" "list_all safe_name ds" "safe_name f" "length (path_text (ds @ [f])) < 1990"
    "\<And>q. prefix q ds \<Longrightarrow> fs_content fs q = None" "node_at (fs_root fs) (ds @ [f]) = None"
    "\<not> is_dir_at (fs_root fs) (ds @ [f @ ''.tmp''])" by (simp_all add: upload_place_def)
  from mkdir_command [OF assms(1) pl(1,2,5) assms(3,4)] obtain fs1 where fs1:
    "fst (cmd_system sh fs (Some (c_str (''mkdir -p '' @ path_text ds @ s)))) = fs1"
    "fs_ok fs1" "fs_content fs1 = fs_content fs"
    "\<And>q. is_dir_at (fs_root fs1) q \<longleftrightarrow> is_dir_at (fs_root fs) q \<or> prefix q ds" by blast
  have no: "\<not> prefix (ds @ [x]) ds" for x using prefix_length_le [of "ds @ [x]" ds] by auto
  have st: "staged fs1 ds f"
    using fs1(2,4) pl no by (intro stagedI) (simp_all add: is_dir_at_def [of "fs_root fs" "ds @ [f]"])
  moreover have "fs_content fs1 (ds @ [f]) = None" using fs1(3) pl(6) by (simp add: fs_content_def file_in_def)
  ultimately have "\<not> file_exists fs1 (path_text (ds @ [f]))"
    using stat_file_key [of fs1 "path_text (ds @ [f])"] by (simp add: file_exists_def staged_def)
  with fs1(1,3) st that show ?thesis by blast
qed

lemma stat_content:
  assumes "list_all plain ds" "ds \<noteq> []" "fs_content fs ds = Some c"
  shows "stat fs (path_text ds) = Some (Reg c)"
proof -
  have n: "node_at (fs_root fs) ds = Some (Reg c)"
    using assms(3) by (auto simp: fs_content_def file_in_def split: option.splits inode.splits)
  have "is_dir_at (fs_root fs) (butlast ds)"
  proof -
    have "node_at (fs_root fs) (butlast ds @ [last ds]) = Some (Reg c)" using n assms(2) by simp
    then show ?thesis by (auto simp: node_at_append is_dir_at_def split: option.splits inode.splits)
  qed
  then show ?thesis using n os_path_plain [OF assms(2,1)] by (simp add: stat_def)
qed

lemma upload_occupied:
  assumes "mkdir_law sh" "upload_dir fs ds f" "s \<in> {[], ''/''}" "ds \<noteq> []" "fs_content fs (ds @ [f]) = Some d"
  obtains fs1 where "fst (cmd_system sh fs (Some (c_str (''mkdir -p '' @ path_text ds @ s)))) = fs1"
    "fs_content fs1 = fs_content fs" "file_exists fs1 (path_text (ds @ [f]))"
proof -
  from assms(2) have pl: "fs_ok fs" "list_all safe_name ds" "safe_name f" "\<And>q. prefix q ds \<Longrightarrow> fs_content fs q = None"
    by (simp_all add: upload_dir_def)
  from mkdir_command [OF assms(1) pl(1,2,4) assms(3,4)] obtain fs1 where fs1:
    "fst (cmd_system sh fs (Some (c_str (''mkdir -p '' @ path_text ds @ s)))) = fs1"
    "fs_ok fs1" "fs_content fs1 = fs_content fs" by blast
  have "list_all plain (ds @ [f])" using pl(2,3) safe_names_plain safe_name_plain by auto
  then have "stat fs1 (path_text (ds @ [f])) = Some (Reg d)"
    using stat_content [of "ds @ [f]" fs1 d] fs1(3) assms(5) by simp
  then show ?thesis using that fs1(1,3) by (simp add: file_exists_def)
qed

lemma upload_finished:
  assumes "md5sum_law (env_popen env)" "staged fs1 ds f"
    and fs2: "fs_ok fs2" "file_key fs2 = file_key fs1" "fs_content fs2 = (fs_content fs1)(ds @ [f @ ''.tmp''] \<mapsto> t)"
  obtains res' fs3 where
    "commit_upload env res fs2 f (path_text (ds @ [f @ ''.tmp''])) (path_text (ds @ [f])) = (res', fs3)"
    "upload_result (fs_content fs1) ds f t res' (fs_content fs3)"
  using commit_upload_ok [OF assms(1) staged_cong [OF assms(2) fs2(1,2)], of t res] fs2(3) that
  by (fastforce simp: upload_result_def split: if_splits)

lemmas upload_defs = FileUploadCallback_def TempFileUploadCallback_def route_params_def path_param_def Let_def

lemma FileUpload_run:
  assumes sh: "shell_ok (env_popen env)" and pl: "upload_place (w_fs w) (cache_root @ [a, r]) f"
    and par: "req_path_params req ''apptype'' = Some a" "req_path_params req ''restype'' = Some r"
      "req_path_params req ''filename'' = Some f"
    and recv: "\<And>fs meta. staged fs (cache_root @ [a, r]) f \<Longrightarrow> fs_content fs = fs_content (w_fs w) \<Longrightarrow>
      \<exists>fs2. receive_upload env cr st req (path_text (cache_root @ [a, r, f @ ''.tmp''])) meta fs = Returns (fs2, st') \<and>
        fs_ok fs2 \<and> file_key fs2 = file_key fs \<and> fs_content fs2 = (fs_content fs)(cache_root @ [a, r, f @ ''.tmp''] \<mapsto> t)"
  shows "\<exists>res' w'. FileUploadCallback env cr req res w st = Returns (res', w', st') \<and> w_s3 w' = w_s3 w \<and>
    upload_result (fs_content (w_fs w)) (cache_root @ [a, r]) f t res' (fs_content (w_fs w'))"
proof -
  have laws: "mkdir_law (env_popen env)" "md5sum_law (env_popen env)" using sh by (auto simp: shell_ok_def)
  from upload_prepared [OF laws(1) pl, of "[]"] obtain fs1 where fs1:
    "fst (cmd_system (env_popen env) (w_fs w) (Some (c_str (''mkdir -p '' @ path_text (cache_root @ [a, r]))))) = fs1"
    "fs_content fs1 = fs_content (w_fs w)" "staged fs1 (cache_root @ [a, r]) f"
    "\<not> file_exists fs1 (path_text (cache_root @ [a, r, f]))" by auto
  from recv [OF fs1(3,2)] obtain fs2 where fs2:
    "receive_upload env cr st req (path_text (cache_root @ [a, r, f @ ''.tmp'']))
       (path_text (cache_root @ [a, r, f @ ''.metadata''])) fs1 = Returns (fs2, st')"
    "fs_ok fs2" "file_key fs2 = file_key fs1" "fs_content fs2 = (fs_content fs1)((cache_root @ [a, r]) @ [f @ ''.tmp''] \<mapsto> t)"
    by auto
  from upload_finished [OF laws(2) fs1(3) fs2(2-4), of res] obtain res' fs3 where fs3:
    "commit_upload env res fs2 f (path_text (cache_root @ [a, r, f @ ''.tmp''])) (path_text (cache_root @ [a, r, f])) = (res', fs3)"
    "upload_result (fs_content (w_fs w)) (cache_root @ [a, r]) f t res' (fs_content fs3)" using fs1(2) by auto
  have "FileUploadCallback env cr req res w st = Returns (res', w\<lparr> w_fs := fs3 \<rparr>, st')"
    unfolding upload_defs cache_paths(3)
    unfolding cache_paths par option.case fs1(1) if_not_P [OF fs1(4)] fs2(1) fs3(1) outcome.case prod.case ..
  then show ?thesis using fs3(2) by (intro exI [of _ res'] exI [of _ "w\<lparr> w_fs := fs3 \<rparr>"]) simp
qed

lemma TempFileUpload_run:
  assumes sh: "shell_ok (env_popen env)" and pl: "upload_place (w_fs w) (cache_root @ [''temp'']) f"
    and par: "req_path_params req ''filename'' = Some f"
    and recv: "\<And>fs meta. staged fs (cache_root @ [''temp'']) f \<Longrightarrow> fs_content fs = fs_content (w_fs w) \<Longrightarrow>
      \<exists>fs2. receive_upload env cr st req (path_text (cache_root @ [''temp'', f @ ''.tmp''])) meta fs = Returns (fs2, st') \<and>
        fs_ok fs2 \<and> file_key fs2 = file_key fs \<and> fs_content fs2 = (fs_content fs)(cache_root @ [''temp'', f @ ''.tmp''] \<mapsto> t)"
  shows "\<exists>res' w'. TempFileUploadCallback env cr req res w st = Returns (res', w', st') \<and> w_s3 w' = w_s3 w \<and>
    upload_result (fs_content (w_fs w)) (cache_root @ [''temp'']) f t res' (fs_content (w_fs w'))"
proof -
  have laws: "mkdir_law (env_popen env)" "md5sum_law (env_popen env)" using sh by (auto simp: shell_ok_def)
  from upload_prepared [OF laws(1) pl, of "''/''"] obtain fs1 where fs1:
    "fst (cmd_system (env_popen env) (w_fs w) (Some (c_str (''mkdir -p '' @ path_text (cache_root @ [''temp'']) @ ''/'')))) = fs1"
    "fs_content fs1 = fs_content (w_fs w)" "staged fs1 (cache_root @ [''temp'']) f"
    "\<not> file_exists fs1 (path_text (cache_root @ [''temp'', f]))" by auto
  from recv [OF fs1(3,2)] obtain fs2 where fs2:
    "receive_upload env cr st req (path_text (cache_root @ [''temp'', f @ ''.tmp'']))
       (path_text (cache_root @ [''temp'', f @ ''.metadata''])) fs1 = Returns (fs2, st')"
    "fs_ok fs2" "file_key fs2 = file_key fs1" "fs_content fs2 = (fs_content fs1)((cache_root @ [''temp'']) @ [f @ ''.tmp''] \<mapsto> t)"
    by auto
  from upload_finished [OF laws(2) fs1(3) fs2(2-4), of res] obtain res' fs3 where fs3:
    "commit_upload env res fs2 f (path_text (cache_root @ [''temp'', f @ ''.tmp''])) (path_text (cache_root @ [''temp'', f])) = (res', fs3)"
    "upload_result (fs_content (w_fs w)) (cache_root @ [''temp'']) f t res' (fs_content fs3)" using fs1(2) by auto
  have "TempFileUploadCallback env cr req res w st = Returns (res', w\<lparr> w_fs := fs3 \<rparr>, st')"
    unfolding upload_defs cache_paths par option.case fs1(1) if_not_P [OF fs1(4)] fs2(1) fs3(1) outcome.case prod.case ..
  then show ?thesis using fs3(2) by (intro exI [of _ res'] exI [of _ "w\<lparr> w_fs := fs3 \<rparr>"]) simp
qed

lemma form_received:
  assumes "is_multipart_form_data req" "mfd_content_type m = CONTENT_TYPE_APP_OCTET" "delivers_form cr st m c st'"
    "staged fs ds f"
  shows "\<exists>fs2. receive_upload env cr st req (path_text (ds @ [f @ ''.tmp''])) meta fs = Returns (fs2, st') \<and>
    fs_ok fs2 \<and> file_key fs2 = file_key fs \<and> fs_content fs2 = (fs_content fs)(ds @ [f @ ''.tmp''] \<mapsto>
      (case fs_content fs (ds @ [f @ ''.tmp'']) of None \<Rightarrow> [] | Some old \<Rightarrow> old) @ c)"
proof -
  from receive_form [OF assms(1-3), of env "path_text (ds @ [f @ ''.tmp''])" meta fs] obtain es where
    es: "es \<noteq> []" "concat es = c" "receive_upload env cr st req (path_text (ds @ [f @ ''.tmp''])) meta fs =
      Returns (foldl (\<lambda>fs d. snd (append_to_file2 fs (path_text (ds @ [f @ ''.tmp''])) d)) fs es, st')" by blast
  then show ?thesis
    using disk.append_all [of fs "path_text (ds @ [f @ ''.tmp''])" "ds @ [f @ ''.tmp'']" es] assms(4)
    by (simp add: staged_def Let_def)
qed

lemma octet_received:
  assumes "\<not> is_multipart_form_data req" "req_get_header_value req ''Content-Type'' 0 = CONTENT_TYPE_APP_OCTET"
    "delivers_pieces cr st es st'" "es \<noteq> []" "staged fs ds f"
  shows "\<exists>fs2. receive_upload env cr st req (path_text (ds @ [f @ ''.tmp''])) meta fs = Returns (fs2, st') \<and>
    fs_ok fs2 \<and> file_key fs2 = file_key fs \<and> fs_content fs2 = (fs_content fs)(ds @ [f @ ''.tmp''] \<mapsto> last es)"
  using receive_octet [OF assms(1-3), of env "path_text (ds @ [f @ ''.tmp''])" meta fs]
    disk.write_all [of fs "path_text (ds @ [f @ ''.tmp''])" "ds @ [f @ ''.tmp'']" es] assms(4,5)
  by (simp add: staged_def Let_def)

lemma form_upload_run:
  assumes "shell_ok (env_popen env)" "upload_place (w_fs w) (cache_root @ [a, r]) f"
    and "req_path_params req ''apptype'' = Some a" "req_path_params req ''restype'' = Some r"
      "req_path_params req ''filename'' = Some f"
    and "is_multipart_form_data req" "mfd_content_type m = CONTENT_TYPE_APP_OCTET" "delivers_form cr st m c st'"
  shows "\<exists>res' w'. FileUploadCallback env cr req res w st = Returns (res', w', st') \<and> w_s3 w' = w_s3 w \<and>
    upload_result (fs_content (w_fs w)) (cache_root @ [a, r]) f
      ((case fs_content (w_fs w) (cache_root @ [a, r, f @ ''.tmp'']) of None \<Rightarrow> [] | Some old \<Rightarrow> old) @ c) res' (fs_content (w_fs w'))"
proof (rule FileUpload_run [OF assms(1-5)])
  fix fs meta assume s: "staged fs (cache_root @ [a, r]) f" and e: "fs_content fs = fs_content (w_fs w)"
  show "\<exists>fs2. receive_upload env cr st req (path_text (cache_root @ [a, r, f @ ''.tmp''])) meta fs = Returns (fs2, st') \<and>
      fs_ok fs2 \<and> file_key fs2 = file_key fs \<and> fs_content fs2 = (fs_content fs)(cache_root @ [a, r, f @ ''.tmp''] \<mapsto>
        (case fs_content (w_fs w) (cache_root @ [a, r, f @ ''.tmp'']) of None \<Rightarrow> [] | Some old \<Rightarrow> old) @ c)"
    using form_received [OF assms(6-8) s, of env meta] e by simp
qed

text \<open>A file that is there already is refused before anything is read.\<close>

lemma FileUpload_refused:
  assumes "shell_ok (env_popen env)" "upload_dir (w_fs w) (cache_root @ [a, r]) f" "fs_content (w_fs w) (cache_root @ [a, r, f]) = Some d"
    and par: "req_path_params req ''apptype'' = Some a" "req_path_params req ''restype'' = Some r"
      "req_path_params req ''filename'' = Some f"
  shows "\<exists>w'. FileUploadCallback env cr req res w st = Returns (SetResponseMsg env res 400 (- 2) ''file exist'', w', st) \<and>
    w_s3 w' = w_s3 w \<and> fs_content (w_fs w') = fs_content (w_fs w)"
proof -
  have "mkdir_law (env_popen env)" using assms(1) by (simp add: shell_ok_def)
  from upload_occupied [OF this assms(2), of "[]" d] assms(3) obtain fs1 where fs1:
    "fst (cmd_system (env_popen env) (w_fs w) (Some (c_str (''mkdir -p '' @ path_text (cache_root @ [a, r]))))) = fs1"
    "fs_content fs1 = fs_content (w_fs w)" "file_exists fs1 (path_text (cache_root @ [a, r, f]))" by auto
  have "FileUploadCallback env cr req res w st = Returns (SetResponseMsg env res 400 (- 2) ''file exist'', w\<lparr> w_fs := fs1 \<rparr>, st)"
    unfolding upload_defs cache_paths(3)
    unfolding cache_paths par option.case fs1(1) if_P [OF fs1(3)] ..
  then show ?thesis using fs1(2) by simp
qed

text \<open>A reader of forms as the upload needs it: what it \<open>carries\<close> it delivers, and afterwards the
  exchange is as \<open>after\<close> tells.\<close>

locale upload_reader =
  fixes cr :: "(upload_state, 'r) content_reader"
    and carries :: "'r \<Rightarrow> MultipartFormData \<Rightarrow> string \<Rightarrow> bool"
    and after :: "'r \<Rightarrow> 'r \<Rightarrow> bool"
  assumes delivers: "carries st m c \<Longrightarrow> \<exists>st'. delivers_form cr st m c st' \<and> after st st'"
begin

lemma form_upload:
  assumes "shell_ok (env_popen env)" "upload_place (w_fs w) (cache_root @ [a, r]) f"
    and "req_path_params req ''apptype'' = Some a" "req_path_params req ''restype'' = Some r"
      "req_path_params req ''filename'' = Some f"
    and "is_multipart_form_data req" "mfd_content_type m = CONTENT_TYPE_APP_OCTET" "carries st m c"
  shows "\<exists>res' w' st'. FileUploadCallback env cr req res w st = Returns (res', w', st') \<and> after st st' \<and> w_s3 w' = w_s3 w \<and>
    upload_result (fs_content (w_fs w)) (cache_root @ [a, r]) f
      ((case fs_content (w_fs w) (cache_root @ [a, r, f @ ''.tmp'']) of None \<Rightarrow> [] | Some old \<Rightarrow> old) @ c) res' (fs_content (w_fs w'))"
proof -
  obtain st' where st': "delivers_form cr st m c st'" "after st st'" using delivers [OF assms(8)] by blast
  from form_upload_run [OF assms(1-7) st'(1)] st'(2) show ?thesis by blast
qed

end

text \<open>The reader the server passes to its handlers.\<close>

interpretation server_forms: upload_reader "server_reader svr" "form_at svr" reader_after for svr
  by unfold_locales (rule server_reader_delivers)

text \<open>
  C3. An upload of a multipart form with an octet-stream part, to a safe name of the cache: the handler
  returns.  If a file of that name is there, it answers 400, reads nothing and changes no file.  Otherwise, with
  \<open>t\<close> the content of the part appended to what a temporary file of that name still held, it answers 200 and
  stores exactly \<open>t\<close> under the requested name, leaving no temporary file, when the RFC 1321 digest of \<open>t\<close> is
  that name; and it answers 400, stores nothing under the name and leaves \<open>t\<close> in the temporary file when it is
  not.  No other file of the cache changes, nor does the store.  The interface document asks for status 401
  in both cases of a refusal.
\<close>

theorem upload_form_checked:
  assumes "shell_ok (env_popen env)" "upload_dir (w_fs w) (cache_root @ [a, r]) f"
    and "req_path_params req ''apptype'' = Some a" "req_path_params req ''restype'' = Some r"
      "req_path_params req ''filename'' = Some f"
    and "is_multipart_form_data req" "mfd_content_type m = CONTENT_TYPE_APP_OCTET" "delivers_form cr st m c st'"
  shows "\<exists>res' w'. FileUploadCallback env cr req res w st =
      Returns (res', w', if fs_content (w_fs w) (cache_root @ [a, r, f]) = None then st' else st) \<and> w_s3 w' = w_s3 w \<and>
    upload_answer (fs_content (w_fs w)) (cache_root @ [a, r]) f
      ((case fs_content (w_fs w) (cache_root @ [a, r, f @ ''.tmp'']) of None \<Rightarrow> [] | Some old \<Rightarrow> old) @ c) res' (fs_content (w_fs w'))"
proof (cases "fs_content (w_fs w) (cache_root @ [a, r, f])")
  case None
  then have "upload_place (w_fs w) (cache_root @ [a, r]) f" using assms(2) by (simp add: upload_place_dir)
  from form_upload_run [OF assms(1) this assms(3-8), of res] None show ?thesis by (simp add: upload_answer_def)
next
  case (Some d)
  from FileUpload_refused [OF assms(1,2) Some assms(3-5), of cr res st] Some show ?thesis
    by (auto simp: upload_answer_def SetResponseMsg_status)
qed

text \<open>
  C31. An upload of a plain octet-stream body that arrives in several pieces checks and stores only
  the last piece, because each piece truncates the temporary file.
\<close>

theorem upload_octet_last_piece:
  assumes "shell_ok (env_popen env)" "upload_place (w_fs w) (cache_root @ [a, r]) f"
    and "req_path_params req ''apptype'' = Some a" "req_path_params req ''restype'' = Some r"
      "req_path_params req ''filename'' = Some f"
    and "\<not> is_multipart_form_data req" "req_get_header_value req ''Content-Type'' 0 = CONTENT_TYPE_APP_OCTET"
      "delivers_pieces cr st es st'" "es \<noteq> []"
  shows "\<exists>res' w'. FileUploadCallback env cr req res w st = Returns (res', w', st') \<and> w_s3 w' = w_s3 w \<and>
    upload_result (fs_content (w_fs w)) (cache_root @ [a, r]) f
      (last es) res' (fs_content (w_fs w'))"
proof (rule FileUpload_run [OF assms(1-5)])
  fix fs meta assume s: "staged fs (cache_root @ [a, r]) f" and e: "fs_content fs = fs_content (w_fs w)"
  show "\<exists>fs2. receive_upload env cr st req (path_text (cache_root @ [a, r, f @ ''.tmp''])) meta fs = Returns (fs2, st') \<and>
      fs_ok fs2 \<and> file_key fs2 = file_key fs \<and> fs_content fs2 = (fs_content fs)(cache_root @ [a, r, f @ ''.tmp''] \<mapsto>
        last es)"
    using octet_received [OF assms(6-9) s, of env meta] e by simp
qed

lemma temp_upload_form_checked:
  assumes "shell_ok (env_popen env)" "upload_place (w_fs w) (cache_root @ [''temp'']) f"
    and "req_path_params req ''filename'' = Some f"
    and "is_multipart_form_data req" "mfd_content_type m = CONTENT_TYPE_APP_OCTET" "delivers_form cr st m c st'"
  shows "\<exists>res' w'. TempFileUploadCallback env cr req res w st = Returns (res', w', st') \<and> w_s3 w' = w_s3 w \<and>
    upload_result (fs_content (w_fs w)) (cache_root @ [''temp'']) f
      ((case fs_content (w_fs w) (cache_root @ [''temp'', f @ ''.tmp'']) of None \<Rightarrow> [] | Some old \<Rightarrow> old) @ c) res' (fs_content (w_fs w'))"
proof (rule TempFileUpload_run [OF assms(1-3)])
  fix fs meta assume s: "staged fs (cache_root @ [''temp'']) f" and e: "fs_content fs = fs_content (w_fs w)"
  show "\<exists>fs2. receive_upload env cr st req (path_text (cache_root @ [''temp'', f @ ''.tmp''])) meta fs = Returns (fs2, st') \<and>
      fs_ok fs2 \<and> file_key fs2 = file_key fs \<and> fs_content fs2 = (fs_content fs)(cache_root @ [''temp'', f @ ''.tmp''] \<mapsto>
        (case fs_content (w_fs w) (cache_root @ [''temp'', f @ ''.tmp'']) of None \<Rightarrow> [] | Some old \<Rightarrow> old) @ c)"
    using form_received [OF assms(4-6) s, of env meta] e by simp
qed

section \<open>Downloads\<close>

lemma provider_pieces:
  assumes "stat (w_fs w) p = Some (Reg c)" "off < length c"
  shows "ContentProviderAdapter (download_provider p) w off len =
    Some (SinkWrite (take CHUNK_SIZE (drop off c)) # (if length c - off \<le> CHUNK_SIZE then [SinkDone] else []), True)"
  using assms by (auto simp: ContentProviderAdapter_def download_provider_def Let_def)

lemma chunk_size_props: "0 < CHUNK_SIZE" "CHUNK_SIZE < ULONG_MAX"
  by (simp_all add: CHUNK_SIZE_def ULONG_MAX_def)

definition serves_file :: "'s response \<Rightarrow> string \<Rightarrow> bool" where
  "serves_file res p \<longleftrightarrow> res_is_chunked_content_provider res \<and> res_content_length res = 0 \<and>
     res_content_provider res = Some (ContentProviderAdapter (download_provider p))"

lemma serves_file_set [simp]:
  "serves_file (set_chunked_content_provider res ct (download_provider p) None) p"
  by (simp add: serves_file_def set_chunked_content_provider_def)

definition sends_and_arrives :: "'s world content_provider \<Rightarrow> 's world \<Rightarrow> string \<Rightarrow> bool" where
  "sends_and_arrives p w c \<longleftrightarrow> (\<forall>st. socket_live st \<longrightarrow> (\<exists>st' body.
     write_content_chunked socket_is_writable socket_write st p w (\<lambda>_. False) nocompressor = Some (True, Success, st') \<and>
     tx (sock st') = tx (sock st) @ body \<and>
     (\<forall>peer rest hs. socket_pending peer = body @ rest \<longrightarrow>
       (\<exists>peer'. read_content_chunked socket_read peer hs append_receiver [] = Some (True, hs, c, peer') \<and>
         socket_pending peer' = rest))))"

lemma serves_file_chunks:
  assumes "stat (w_fs w) p = Some (Reg c)" "c \<noteq> []" "socket_live st"
  shows "\<exists>st' body. write_content_chunked socket_is_writable socket_write st (ContentProviderAdapter (download_provider p)) w
      (\<lambda>_. False) nocompressor = Some (True, Success, st') \<and> tx (sock st') = tx (sock st) @ body \<and> chunked_body c body"
  using chunked_written [of c "ContentProviderAdapter (download_provider p)" w CHUNK_SIZE st "\<lambda>_. False",
      OF provider_pieces [OF assms(1)] assms(2) chunk_size_props assms(3)] by blast

lemma serves_file_arrives:
  assumes "stat (w_fs w) p = Some (Reg c)" "c \<noteq> []"
  shows "sends_and_arrives (ContentProviderAdapter (download_provider p)) w c"
  unfolding sends_and_arrives_def using serves_file_chunks [OF assms] chunked_body_read by metis

lemmas handler_defs = route_params_def path_param_def Let_def ifstream_good_def

definition route_of :: "Request \<Rightarrow> string \<Rightarrow> string \<Rightarrow> string \<Rightarrow> bool" where
  "route_of req a r f \<longleftrightarrow> req_path_params req ''apptype'' = Some a \<and>
     req_path_params req ''restype'' = Some r \<and> req_path_params req ''filename'' = Some f"

text \<open>A GET of a file whose name is not that of a metadata file.\<close>

definition plain_get :: "Request \<Rightarrow> string \<Rightarrow> string \<Rightarrow> string \<Rightarrow> bool" where
  "plain_get req a r f \<longleftrightarrow> route_of req a r f \<and> req_method req = ''GET'' \<and> find_sub (c_str f) ''.metadata'' 0 = None"

lemma FileGet_eq:
  assumes "plain_get req a r f"
  shows "FileGetHeadCallback env req res w = FileChunkedDownloadCallback env req res w"
  using assms by (simp add: plain_get_def route_of_def FileGetHeadCallback_def path_param_def)

text \<open>
  C5. A GET of a non-empty cached file answers with a chunked provider that delivers the file: on
  any live connection the server's chunked writer sends it completely, and a client that decodes
  the bytes, however they are cut into segments, gets exactly the content of the file.
\<close>

theorem download_cached_file:
  assumes "plain_get req a r f" "stat (w_fs w) (cache_file a r f) = Some (Reg c)" "c \<noteq> []"
  shows "\<exists>res'. FileGetHeadCallback env req res w = Returns (res', w) \<and> serves_file res' (cache_file a r f) \<and>
    sends_and_arrives (ContentProviderAdapter (download_provider (cache_file a r f))) w c"
  using assms serves_file_arrives [OF assms(2,3)]
  by (simp add: FileGet_eq) (simp add: FileChunkedDownloadCallback_def handler_defs plain_get_def route_of_def)

text \<open>The empty file.\<close>

lemma download_empty_file_cancelled:
  assumes "stat (w_fs w) p = Some (Reg [])" "socket_live st"
  shows "write_content_chunked socket_is_writable socket_write st (ContentProviderAdapter (download_provider p)) w
     (\<lambda>_. False) nocompressor = Some (False, Canceled, st)"
proof -
  have "socket_is_writable st" by (rule socket_out.live_writable [OF assms(2)])
  moreover have "ContentProviderAdapter (download_provider p) w 0 0 = Some ([], False)"
    using assms(1) by (simp add: ContentProviderAdapter_def download_provider_def)
  ultimately show ?thesis unfolding write_content_chunked_def by (subst write_chunked_loop.simps) simp
qed

section \<open>The fallback to the object store\<close>

definition ceph_key :: "string \<Rightarrow> string \<Rightarrow> string" where
  "ceph_key r f = ''/'' @ r @ ''/'' @ f"

lemma fetch_missing:
  assumes "s3_service_ok (env_s3 env) V" "object_of (V (w_s3 w)) (GetBucketName a) (ceph_key r f) = None"
  shows "\<exists>s'. fetch_from_ceph env w a r f p = (False, w\<lparr> w_s3 := s' \<rparr>) \<and> V s' = V (w_s3 w)"
proof -
  obtain s1 where "isFileExist (env_s3 env) (env_rgwHost env) (w_s3 w) (GetBucketName a) (ceph_key r f) = (False, s1)"
    "V s1 = V (w_s3 w)"
    using isFileExist_ok [OF assms(1), of "env_rgwHost env" "w_s3 w" "GetBucketName a" "ceph_key r f"] assms(2) by auto
  then show ?thesis by (intro exI [of _ s1]) (simp add: fetch_from_ceph_def Let_def ceph_key_def)
qed

lemma fetch_found:
  assumes "s3_service_ok (env_s3 env) V" "object_of (V (w_s3 w)) (GetBucketName a) (ceph_key r f) = Some c"
  shows "\<exists>s'. let fs' = (case fs_put (w_fs w) p (\<lambda>_. c) of Some fs1 \<Rightarrow> fs1 | None \<Rightarrow> w_fs w) in
    fetch_from_ceph env w a r f p = (file_exists fs' p, w\<lparr> w_fs := fs', w_s3 := s' \<rparr>) \<and> V s' = V (w_s3 w)"
proof -
  obtain s1 where s1: "isFileExist (env_s3 env) (env_rgwHost env) (w_s3 w) (GetBucketName a) (ceph_key r f) = (True, s1)"
    "V s1 = V (w_s3 w)"
    using isFileExist_ok [OF assms(1), of "env_rgwHost env" "w_s3 w" "GetBucketName a" "ceph_key r f"] assms(2) by auto
  with downloadFile_ok(1) [OF assms(1), of s1 "GetBucketName a" "ceph_key r f" c "env_rgwHost env" "w_fs w" p] assms(2)
  show ?thesis by (auto simp: fetch_from_ceph_def Let_def ceph_key_def)
qed

lemma get_from_store:
  assumes "plain_get req a r f" "s3_service_ok (env_s3 env) V" "fs_ok (w_fs w)"
    and "file_key (w_fs w) (cache_file a r f) = Some k" "fs_content (w_fs w) k = None"
  shows "\<exists>res' w'. FileGetHeadCallback env req res w = Returns (res', w') \<and> V (w_s3 w') = V (w_s3 w) \<and>
    (case object_of (V (w_s3 w)) (GetBucketName a) (ceph_key r f) of
       None \<Rightarrow> res_status res' = 400 \<and> w_fs w' = w_fs w
     | Some c \<Rightarrow> serves_file res' (cache_file a r f) \<and> fs_content (w_fs w') = (fs_content (w_fs w))(k \<mapsto> c) \<and>
         (c \<noteq> [] \<longrightarrow> sends_and_arrives (ContentProviderAdapter (download_provider (cache_file a r f))) w' c))"
proof -
  let ?p = "cache_file a r f"
  have none: "stat (w_fs w) ?p = None" using stat_file_key [OF assms(4)] assms(5) by simp
  note get = FileGet_eq [OF assms(1)] FileChunkedDownloadCallback_def handler_defs
  show ?thesis
  proof (cases "object_of (V (w_s3 w)) (GetBucketName a) (ceph_key r f)")
    case None
    from fetch_missing [OF assms(2) None, of ?p] none assms(1) show ?thesis
      by (auto simp: get plain_get_def route_of_def None)
  next
    case (Some c)
    obtain fs' where fs': "fs_put (w_fs w) ?p (\<lambda>_. c) = Some fs'" "same_dirs (w_fs w) fs'"
      "fs_content fs' = (fs_content (w_fs w))(k \<mapsto> c)" using fs_put_key [OF assms(3,4), of "\<lambda>_. c"] by auto
    have st: "stat fs' ?p = Some (Reg c)"
      using stat_file_key [of fs' ?p k] assms(4) same_dirs_keys [OF fs'(2)] fs'(3) by simp
    then have ex: "file_exists fs' ?p" by (simp add: file_exists_def)
    from fetch_found [OF assms(2) Some, of ?p] fs'(1) ex obtain s' where
      "fetch_from_ceph env w a r f ?p = (True, w\<lparr> w_fs := fs', w_s3 := s' \<rparr>)" "V s' = V (w_s3 w)" by auto
    moreover have "c \<noteq> [] \<Longrightarrow> sends_and_arrives (ContentProviderAdapter (download_provider ?p)) (w\<lparr> w_fs := fs', w_s3 := s \<rparr>) c" for s
      by (rule serves_file_arrives) (simp_all add: st)
    ultimately show ?thesis using none assms(1) fs'(3)
      by (simp add: get plain_get_def route_of_def Some)
  qed
qed

text \<open>
  C11. A GET of a file, whose name does not contain \<^verbatim>\<open>.metadata\<close>, that is not in the cache, but whose directory
  is: when the object store has the object, it is copied into the cache, nothing else changes there, and the
  response serves it, completely if it is not empty; when it does not, the answer is 400 and the cache is
  unchanged.  The store is never changed.  The interface document and the comment in the handler name status
  404 for a file that does not exist; the code answers 400.
\<close>

theorem download_from_store:
  assumes "plain_get req a r f" "s3_service_ok (env_s3 env) V" "fs_ok (w_fs w)"
    and "file_key (w_fs w) (cache_file a r f) = Some k" "fs_content (w_fs w) k = None"
  shows "\<exists>res' w'. FileGetHeadCallback env req res w = Returns (res', w') \<and> V (w_s3 w') = V (w_s3 w) \<and>
    (case object_of (V (w_s3 w)) (GetBucketName a) (ceph_key r f) of
       None \<Rightarrow> res_status res' = 400 \<and> w_fs w' = w_fs w
     | Some c \<Rightarrow> serves_file res' (cache_file a r f) \<and> fs_content (w_fs w') = (fs_content (w_fs w))(k \<mapsto> c) \<and>
         (c \<noteq> [] \<longrightarrow> sends_and_arrives (ContentProviderAdapter (download_provider (cache_file a r f))) w' c))"
  using assms by (rule get_from_store)

text \<open>Without the directory of the file in the cache nothing can be fetched.\<close>

text \<open>
  A GET of a file whose directory is missing in the cache answers 400 whether or not the object
  store holds the object, since the handler does not create the directory before downloading.
\<close>

theorem fetch_needs_directory:
  assumes "plain_get req a r f" "s3_service_ok (env_s3 env) V"
    and "os_path (w_fs w) (cache_file a r f) = None"
  shows "\<exists>res' s'. FileGetHeadCallback env req res w = Returns (res', w\<lparr> w_s3 := s' \<rparr>) \<and> res_status res' = 400 \<and>
    V s' = V (w_s3 w)"
proof -
  let ?p = "cache_file a r f"
  have none: "stat (w_fs w) ?p = None" "fs_put (w_fs w) ?p g = None" for g
    using assms(3) by (simp_all add: stat_def fs_put_def)
  have "\<exists>s'. fetch_from_ceph env w a r f ?p = (False, w\<lparr> w_s3 := s' \<rparr>) \<and> V s' = V (w_s3 w)"
  proof (cases "object_of (V (w_s3 w)) (GetBucketName a) (ceph_key r f)")
    case None
    then show ?thesis using fetch_missing [OF assms(2)] by blast
  next
    case (Some c)
    from fetch_found [OF assms(2) Some, of ?p] none show ?thesis by (auto simp: file_exists_def)
  qed
  then show ?thesis using none assms(1)
    by (auto simp: FileGet_eq [OF assms(1)] FileChunkedDownloadCallback_def handler_defs plain_get_def route_of_def)
qed

section \<open>Deletion and metadata\<close>



lemma delete_get_run:
  assumes "plain_get req a r f" "s3_service_ok (env_s3 env) V" "fs_ok (w_fs w)"
    and "file_key (w_fs w) (cache_file a r f) = Some k" "fs_content (w_fs w) k = Some d"
    and "object_of (V (w_s3 w)) (GetBucketName a) (ceph_key r f) = Some c"
  shows "\<exists>res1 res2 w1 w2. FileDeleteCallback env req res w = Returns (res1, w1) \<and> res_status res1 = 200 \<and>
    fs_content (w_fs w1) = (fs_content (w_fs w))(k := None) \<and> w_s3 w1 = w_s3 w \<and>
    FileGetHeadCallback env req res w1 = Returns (res2, w2) \<and> serves_file res2 (cache_file a r f) \<and>
    fs_content (w_fs w2) = (fs_content (w_fs w))(k \<mapsto> c)"
proof -
  let ?p = "cache_file a r f" let ?w = "w\<lparr> w_fs := snd (os_remove (w_fs w) ?p) \<rparr>"
  note rm = os_remove_key [OF assms(3,4)]
  have good: "stat (w_fs w) ?p \<noteq> None" "fst (os_remove (w_fs w) ?p) = 0"
    using stat_file_key [OF assms(4)] rm assms(5) by auto
  then have del: "FileDeleteCallback env req res w = Returns (SetResponseMsg env res 200 0 ''file remove ok'', ?w)"
    using assms(1) by (auto simp: FileDeleteCallback_def handler_defs plain_get_def route_of_def split: prod.split)
  have w: "fs_ok (w_fs ?w)" "file_key (w_fs ?w) ?p = Some k" "fs_content (w_fs ?w) = (fs_content (w_fs w))(k := None)"
    using rm assms(3,4) same_dirs_ok [of "w_fs w" "w_fs ?w"] same_dirs_keys [of "w_fs w" "w_fs ?w"] by auto
  from get_from_store [OF assms(1,2) w(1,2), of res] w(3) assms(6) obtain res2 w2 where
    "FileGetHeadCallback env req res ?w = Returns (res2, w2)" "serves_file res2 ?p"
    "fs_content (w_fs w2) = (fs_content (w_fs w))(k \<mapsto> c)" by auto
  with del w(3) show ?thesis by (intro exI conjI) (assumption | simp)+
qed

text \<open>
  C30. Deleting a file removes it from the cache only: the object store keeps its copy, and the next
  GET answers with it and puts it back into the cache.
\<close>

theorem delete_then_get_restores:
  assumes "plain_get req a r f" "s3_service_ok (env_s3 env) V" "fs_ok (w_fs w)"
    and "file_key (w_fs w) (cache_file a r f) = Some k" "fs_content (w_fs w) k = Some d"
    and "object_of (V (w_s3 w)) (GetBucketName a) (ceph_key r f) = Some c"
  shows "\<exists>res1 res2 w1 w2. FileDeleteCallback env req res w = Returns (res1, w1) \<and> res_status res1 = 200 \<and>
    fs_content (w_fs w1) = (fs_content (w_fs w))(k := None) \<and> w_s3 w1 = w_s3 w \<and>
    FileGetHeadCallback env req res w1 = Returns (res2, w2) \<and> serves_file res2 (cache_file a r f) \<and>
    fs_content (w_fs w2) = (fs_content (w_fs w))(k \<mapsto> c)"
  using assms by (rule delete_get_run)

text \<open>The body of a response that carries data.\<close>

definition json_reply :: "('s, 'v) frs_env \<Rightarrow> 'v \<Rightarrow> string" where
  "json_reply env data = json_write env (json_builder env)
     (json_set env (json_set env (json_set env (json_null env) ''msg'' (json_string env ''OK''))
        ''code'' (json_int env 0)) ''data'' data)"

lemma respond_metadata_body:
  "res_body (respond_metadata env res fs p) =
     json_reply env (case json_parse env (read_from_file fs p) of Some v \<Rightarrow> v | None \<Rightarrow> json_null env)"
  "res_status (respond_metadata env res fs p) = 200"
  by (simp_all add: respond_metadata_def SetResponseMsgWithData_def json_reply_def set_content_def set_header_def
      json_unformat_string_def string2json_def Let_def split: option.splits)


section \<open>Instances\<close>

text \<open>A shell that knows \<^verbatim>\<open>mkdir -p\<close> and \<^verbatim>\<open>md5sum\<close>.\<close>

fun mkdirs :: "inode \<Rightarrow> string list \<Rightarrow> inode" where
  "mkdirs n [] = n"
| "mkdirs (Reg s) (c # cs) = Reg s"
| "mkdirs (Dir es) (c # cs) =
     Dir (AList.update c (mkdirs (case map_of es c of Some n \<Rightarrow> n | None \<Rightarrow> Dir []) cs) es)"

definition demo_shell :: "fs popen" where
  "demo_shell fs cmd =
     (if prefix ''mkdir -p '' cmd
      then (fs\<lparr> fs_root := mkdirs (fs_root fs) (filter (\<lambda>c. c \<noteq> []) (slash_pieces (drop 9 cmd))) \<rparr>, Some [])
      else if prefix ''md5sum '' cmd
      then (fs, let p = butlast (drop 8 cmd) in
                case stat fs p of Some (Reg c) \<Rightarrow> Some (md5sum_line c p) | _ \<Rightarrow> Some [])
      else (fs, None))"

lemma mkdirs_view:
  "is_dir_at n [] \<Longrightarrow> (\<And>q. prefix q ds \<Longrightarrow> file_in n q = None) \<Longrightarrow>
   file_in (mkdirs n ds) q = file_in n q \<and> (is_dir_at (mkdirs n ds) q \<longleftrightarrow> is_dir_at n q \<or> prefix q ds)"
proof (induction n ds arbitrary: q rule: mkdirs.induct)
  case (3 es c cs)
  let ?m = "case map_of es c of Some n \<Rightarrow> n | None \<Rightarrow> Dir []"
  have no: "file_in ?m q = None" if "prefix q cs" for q
    using "3.prems"(2) [of "c # q"] that by (cases q) (auto split: option.splits)
  have "is_dir_at ?m []" using no [of "[]"] by (cases ?m) auto
  note IH = "3.IH" [OF this no]
  have e: "file_in (Dir []) x = None" "is_dir_at (Dir []) x \<longleftrightarrow> x = []" for x by (cases x; simp)+
  show ?case
  proof (cases q)
    case (Cons d q')
    then show ?thesis using IH [of q'] e
      by (auto simp: update_conv' split: option.splits)
  qed simp
qed auto


lemma slash_pieces_path:
  assumes "list_all safe_name ds" "ds \<noteq> []" "s \<in> {[], ''/''}"
  shows "filter (\<lambda>c. c \<noteq> []) (slash_pieces (path_text ds @ s)) = ds"
proof -
  have pl: "list_all plain ds" by (rule safe_names_plain [OF assms(1)])
  then have keep: "filter (\<lambda>c. c \<noteq> []) ds = ds" by (auto simp: filter_id_conv list_all_iff plain_def)
  show ?thesis
  proof (cases "s = []")
    case True
    then show ?thesis using pieces_path_text [of "[]" ds] pl keep by simp
  next
    case False
    then have s: "s = ''/''" using assms(3) by simp
    have "slash_pieces (c @ path_text ds @ ''/'') = c # ds @ [[]]" if "CHR ''/'' \<notin> set c" for c
      using pl that
    proof (induction ds arbitrary: c)
      case Nil
      then show ?case using fields_stop [of c "\<lambda>c. c = CHR ''/''" "CHR ''/''" "[]"] by auto
    next
      case (Cons d ds)
      then show ?case
        using fields_stop [of c "\<lambda>c. c = CHR ''/''" "CHR ''/''" "d @ path_text ds @ ''/''"] by (auto simp: plain_def)
    qed
    from this [of "[]"] show ?thesis using keep s by simp
  qed
qed

lemma demo_shell_ok: "shell_ok demo_shell"
proof -
  have "mkdir_law demo_shell" unfolding mkdir_law_def
  proof (intro allI impI ballI)
    fix fs ds s
    assume a: "fs_ok fs \<and> ds \<noteq> [] \<and> list_all safe_name ds \<and> (\<forall>q. prefix q ds \<longrightarrow> fs_content fs q = None)"
      and s: "s \<in> {[], ''/''}"
    let ?fs = "fs\<lparr> fs_root := mkdirs (fs_root fs) ds \<rparr>"
    have "demo_shell fs (''mkdir -p '' @ path_text ds @ s) = (?fs, Some [])"
      using slash_pieces_path [of ds s] a s by (simp add: demo_shell_def)
    moreover have "fs_content ?fs = fs_content fs \<and> (\<forall>q. is_dir_at (fs_root ?fs) q \<longleftrightarrow> is_dir_at (fs_root fs) q \<or> prefix q ds)"
      using mkdirs_view [of "fs_root fs" ds] a by (auto simp: fs_ok_def fs_content_def)
    ultimately show "\<exists>fs' out. demo_shell fs (''mkdir -p '' @ path_text ds @ s) = (fs', Some out) \<and> fs_cwd fs' = fs_cwd fs \<and>
        fs_content fs' = fs_content fs \<and> (\<forall>q. is_dir_at (fs_root fs') q \<longleftrightarrow> is_dir_at (fs_root fs) q \<or> prefix q ds)" by auto
  qed
  moreover have "md5sum_law demo_shell"
    using stat_content safe_names_plain by (simp add: md5sum_law_def demo_shell_def butlast_append)
  ultimately show ?thesis by (simp add: shell_ok_def)
qed

text \<open>JSON values as text, and a body that arrives in the pieces it holds.\<close>

definition demo_env :: "(buckets, string) frs_env" where
  "demo_env = \<lparr> env_popen = demo_shell, env_s3 = memory_service, env_rgwHost = ''h'', json_null = [],
     json_string = (\<lambda>s. s), json_int = (\<lambda>i. dec_int i), json_set = (\<lambda>v k x. v @ k @ '':'' @ x @ '','' ),
     json_write = (\<lambda>_ v. v), json_builder = Map.empty, json_parse = (\<lambda>s. Some s), over_read = (\<lambda>_. []) \<rparr>"

definition demo_reader :: "(upload_state, MultipartFormData \<times> string list) content_reader" where
  "demo_reader = \<lparr>
     read_form = (\<lambda>r hcb ccb u. Returns (True, foldl (\<lambda>u x. snd (ccb u x)) (snd (hcb u (fst r))) (snd r), r)),
     read_plain = (\<lambda>r ccb u. Returns (True, foldl (\<lambda>u x. snd (ccb u x)) u (snd r), r)) \<rparr>"

lemma demo_reader_delivers:
  "ds \<noteq> [] \<Longrightarrow> delivers_form demo_reader (m, ds) m (concat ds) (m, ds)"
  "delivers_pieces demo_reader (m, ds) ds (m, ds)"
  by (auto simp: delivers_form_def delivers_pieces_def demo_reader_def)

definition demo_request :: "string \<Rightarrow> string \<Rightarrow> string \<Rightarrow> Request" where
  "demo_request method ct f = Request_default\<lparr> req_method := method, req_headers := [(''Content-Type'', ct)],
     req_body := ''meta'', req_path_params := [''apptype'' \<mapsto> ''im'', ''restype'' \<mapsto> ''pic'', ''filename'' \<mapsto> f] \<rparr>"

definition demo_world :: "buckets world" where
  "demo_world = \<lparr> w_fs = \<lparr> fs_root = Dir [], fs_cwd = [], dir_st_size = 0 \<rparr>, w_s3 = Map.empty \<rparr>"

definition demo_digest :: string where
  "demo_digest = hex_text (rfc_md5 (bytes_of ''xy''))"

lemma demo_digest_safe: "safe_name demo_digest" "length demo_digest = 32"
proof -
  show len: "length demo_digest = 32"
    by (simp add: demo_digest_def rfc_md5_def hex_text_length length_Encode [of _ 4, simplified])
  have "c_isalnum c" if "c \<in> set demo_digest" for c
    using that hex_text_no [of c "rfc_md5 (bytes_of ''xy'')"] by (simp add: demo_digest_def)
  moreover have "demo_digest \<noteq> x" if "length x < 32" for x using len that by auto
  then have "demo_digest \<noteq> []" "demo_digest \<noteq> ''.''" "demo_digest \<noteq> ''..''" by simp_all
  ultimately show "safe_name demo_digest" by (auto simp: safe_name_def list_all_iff)
qed

lemma demo_place:
  "upload_place (w_fs demo_world) (cache_root @ [''im'', ''pic'']) demo_digest"
  "upload_place (w_fs demo_world) (cache_root @ [''temp'']) demo_digest"
  using demo_digest_safe
  by (simp_all add: upload_place_def demo_world_def fs_ok_def cache_root_def fs_content_def file_in_def
      is_dir_at_def safe_name_def c_isalnum_def c_isdigit_def c_isupper_def c_islower_def)

abbreviation demo_part :: MultipartFormData where
  "demo_part \<equiv> MultipartFormData_default\<lparr> mfd_content_type := CONTENT_TYPE_APP_OCTET \<rparr>"

lemma demo_requests:
  "is_multipart_form_data (demo_request me ''multipart/form-data; boundary=b'' f)"
  "\<not> is_multipart_form_data (demo_request me CONTENT_TYPE_APP_OCTET f)"
  "req_get_header_value (demo_request me CONTENT_TYPE_APP_OCTET f) ''Content-Type'' 0 = CONTENT_TYPE_APP_OCTET"
  "route_of (demo_request me ct f) ''im'' ''pic'' f" "req_method (demo_request me ct f) = me"
  "req_body (demo_request me ct f) = ''meta''"
  by (simp_all add: demo_request_def Request_default_def is_multipart_form_data_def req_get_header_value_def
      get_header_value_def mm_equal_range_def mm_equiv_def ci_def route_of_def)

lemma demo_stored:
  assumes "upload_result (fs_content (w_fs demo_world)) ds demo_digest ''xy'' res after"
  shows "res_status res = 200 \<and> after (ds @ [demo_digest]) = Some ''xy''"
  using assms by (simp add: upload_result_def demo_digest_def [symmetric])

theorem upload_form_checked_witness:
  "\<exists>res' w'. FileUploadCallback demo_env demo_reader (demo_request ''POST'' ''multipart/form-data; boundary=b'' demo_digest)
      Response_default demo_world (demo_part, [''x'', ''y'']) = Returns (res', w', (demo_part, [''x'', ''y''])) \<and>
    res_status res' = 200 \<and> fs_content (w_fs w') (cache_root @ [''im'', ''pic'', demo_digest]) = Some ''xy''"
proof -
  let ?req = "demo_request ''POST'' ''multipart/form-data; boundary=b'' demo_digest"
  have e: "fs_content (w_fs demo_world) q = None" for q
    by (cases q) (simp_all add: demo_world_def fs_content_def file_in_def)
  have sh: "shell_ok (env_popen demo_env)" by (simp add: demo_env_def demo_shell_ok)
  have pl: "upload_dir (w_fs demo_world) (cache_root @ [''im'', ''pic'']) demo_digest" using demo_place(1) by (simp add: upload_place_dir)
  have par: "req_path_params ?req ''apptype'' = Some ''im''" "req_path_params ?req ''restype'' = Some ''pic''"
    "req_path_params ?req ''filename'' = Some demo_digest" using demo_requests(4) by (simp_all add: route_of_def)
  have ct: "mfd_content_type demo_part = CONTENT_TYPE_APP_OCTET" by simp
  from upload_form_checked [OF sh pl par demo_requests(1) ct demo_reader_delivers(1) [of "[''x'', ''y'']" demo_part], of Response_default]
  obtain res' w' where "FileUploadCallback demo_env demo_reader ?req Response_default demo_world (demo_part, [''x'', ''y'']) =
      Returns (res', w', (demo_part, [''x'', ''y'']))"
    "upload_result (fs_content (w_fs demo_world)) (cache_root @ [''im'', ''pic'']) demo_digest ''xy'' res' (fs_content (w_fs w'))"
    by (auto simp: e upload_answer_def)
  with demo_stored [of "cache_root @ [''im'', ''pic'']"] show ?thesis by auto
qed

lemma temp_upload_form_checked_witness:
  "\<exists>res' w'. TempFileUploadCallback demo_env demo_reader (demo_request ''POST'' ''multipart/form-data; boundary=b'' demo_digest)
      Response_default demo_world (demo_part, [''x'', ''y'']) = Returns (res', w', (demo_part, [''x'', ''y''])) \<and>
    res_status res' = 200 \<and> fs_content (w_fs w') (cache_root @ [''temp'', demo_digest]) = Some ''xy''"
proof -
  let ?req = "demo_request ''POST'' ''multipart/form-data; boundary=b'' demo_digest"
  have e: "fs_content (w_fs demo_world) q = None" for q
    by (cases q) (simp_all add: demo_world_def fs_content_def file_in_def)
  have "\<exists>res' w'. TempFileUploadCallback demo_env demo_reader ?req Response_default demo_world (demo_part, [''x'', ''y'']) =
      Returns (res', w', (demo_part, [''x'', ''y''])) \<and> w_s3 w' = w_s3 demo_world \<and>
      upload_result (fs_content (w_fs demo_world)) (cache_root @ [''temp'']) demo_digest
        ((case fs_content (w_fs demo_world) (cache_root @ [''temp'', demo_digest @ ''.tmp'']) of None \<Rightarrow> [] | Some old \<Rightarrow> old) @ ''xy'')
        res' (fs_content (w_fs w'))"
    by (rule temp_upload_form_checked [OF _ demo_place(2), where m = demo_part])
      (use demo_requests(1,4) [of "''POST''"] demo_reader_delivers(1) [of "[''x'', ''y'']" demo_part]
        in \<open>auto simp: demo_env_def demo_shell_ok route_of_def\<close>)
  with demo_stored [of "cache_root @ [''temp'']"] show ?thesis unfolding e by auto
qed

theorem upload_octet_last_piece_witness:
  "\<exists>res' w'. FileUploadCallback demo_env demo_reader (demo_request ''POST'' CONTENT_TYPE_APP_OCTET demo_digest)
      Response_default demo_world (demo_part, [''lost'', ''xy'']) = Returns (res', w', (demo_part, [''lost'', ''xy''])) \<and>
    res_status res' = 200 \<and> fs_content (w_fs w') (cache_root @ [''im'', ''pic'', demo_digest]) = Some ''xy''"
proof -
  let ?req = "demo_request ''POST'' CONTENT_TYPE_APP_OCTET demo_digest"
  have "\<exists>res' w'. FileUploadCallback demo_env demo_reader ?req Response_default demo_world (demo_part, [''lost'', ''xy'']) =
      Returns (res', w', (demo_part, [''lost'', ''xy''])) \<and> w_s3 w' = w_s3 demo_world \<and>
      upload_result (fs_content (w_fs demo_world)) (cache_root @ [''im'', ''pic'']) demo_digest
        (last [''lost'', ''xy'']) res' (fs_content (w_fs w'))"
    by (rule upload_octet_last_piece [OF _ demo_place(1)])
      (use demo_requests(2-4) [of "''POST''"] demo_reader_delivers(2) [of demo_part "[''lost'', ''xy'']"]
        in \<open>auto simp: demo_env_def demo_shell_ok route_of_def\<close>)
  with demo_stored [of "cache_root @ [''im'', ''pic'']"] show ?thesis by auto
qed

text \<open>A cache with one directory and the given files in it, and a store that holds one object.\<close>

definition demo_cache :: "(string \<times> inode) list \<Rightarrow> buckets world" where
  "demo_cache es = \<lparr> w_fs = \<lparr> fs_root = Dir [(''app'', Dir [(''run'', Dir [(''frs'', Dir [(''dat'', Dir
       [(''fileCache'', Dir [(''im'', Dir [(''pic'', Dir es)])])])])])])], fs_cwd = [], dir_st_size = 0 \<rparr>,
     w_s3 = [''frs-im'' \<mapsto> [''/pic/a'' \<mapsto> ''stored'']] \<rparr>"

lemma demo_cache_simps:
  "fs_ok (w_fs (demo_cache es))"
  "fs_content (w_fs (demo_cache es)) (cache_root @ [''im'', ''pic'', f]) =
     (case map_of es f of Some (Reg s) \<Rightarrow> Some s | _ \<Rightarrow> None)"
  "object_of (w_s3 (demo_cache es)) (GetBucketName ''im'') (ceph_key ''pic'' ''a'') = Some ''stored''"
  by (simp_all add: demo_cache_def fs_ok_def fs_content_def cache_root_def file_in_def object_of_def GetBucketName_def
      BUCKET_IM_def ceph_key_def split: option.splits)

lemma demo_cache_key:
  assumes "map_of es f = None \<or> (\<exists>s. map_of es f = Some (Reg s))" "plain f"
  shows "file_key (w_fs (demo_cache es)) (cache_file ''im'' ''pic'' f) = Some (cache_root @ [''im'', ''pic'', f])"
  unfolding cache_paths
  by (rule file_key_plain)
    (use assms in \<open>auto simp: demo_cache_def cache_root_def plain_def\<close>)

lemma demo_get: "plain_get (demo_request ''GET'' [] ''a'') ''im'' ''pic'' ''a''"
  using demo_requests(4,5) by (simp add: plain_get_def find_sub_def)

lemma plain_a: "plain ''a''" "plain ''a.metadata''" by (simp_all add: plain_def)

theorem download_cached_file_witness:
  "\<exists>res'. FileGetHeadCallback demo_env (demo_request ''GET'' [] ''a'') Response_default (demo_cache [(''a'', Reg ''data'')]) =
      Returns (res', demo_cache [(''a'', Reg ''data'')]) \<and> serves_file res' (cache_file ''im'' ''pic'' ''a'') \<and>
    sends_and_arrives (ContentProviderAdapter (download_provider (cache_file ''im'' ''pic'' ''a'')))
      (demo_cache [(''a'', Reg ''data'')]) ''data''"
proof -
  have "stat (w_fs (demo_cache [(''a'', Reg ''data'')])) (cache_file ''im'' ''pic'' ''a'') = Some (Reg ''data'')"
    using stat_file_key [OF demo_cache_key, of "[(''a'', Reg ''data'')]" "''a''"] plain_a demo_cache_simps(2) by simp
  from download_cached_file [OF demo_get this] show ?thesis by simp
qed

theorem download_from_store_witness:
  "\<exists>res' w'. FileGetHeadCallback demo_env (demo_request ''GET'' [] ''a'') Response_default (demo_cache []) = Returns (res', w') \<and>
    serves_file res' (cache_file ''im'' ''pic'' ''a'') \<and>
    fs_content (w_fs w') (cache_root @ [''im'', ''pic'', ''a'']) = Some ''stored''"
proof -
  have "s3_service_ok (env_s3 demo_env) (\<lambda>s. s)" using memory_service_ok by (simp add: demo_env_def)
  from download_from_store [OF demo_get this demo_cache_simps(1) demo_cache_key, of "[]" Response_default]
  show ?thesis using plain_a(1) demo_cache_simps(2,3) [of "[]"] by fastforce
qed

theorem fetch_needs_directory_witness:
  "\<exists>res' s'. FileGetHeadCallback demo_env (demo_request ''GET'' [] ''a'') Response_default demo_world =
     Returns (res', demo_world\<lparr> w_s3 := s' \<rparr>) \<and> res_status res' = 400"
proof -
  have "s3_service_ok (env_s3 demo_env) (\<lambda>s. s)" using memory_service_ok by (simp add: demo_env_def)
  moreover have "os_path (w_fs demo_world) (cache_file ''im'' ''pic'' ''a'') = None"
    unfolding cache_paths
    by (subst os_path_plain) (simp_all add: cache_root_def plain_def demo_world_def)
  ultimately show ?thesis using fetch_needs_directory [OF demo_get, of demo_env "\<lambda>s. s" demo_world] by blast
qed

theorem delete_then_get_restores_witness:
  "\<exists>res1 res2 w1 w2. FileDeleteCallback demo_env (demo_request ''GET'' [] ''a'') Response_default
      (demo_cache [(''a'', Reg ''data'')]) = Returns (res1, w1) \<and> res_status res1 = 200 \<and>
    FileGetHeadCallback demo_env (demo_request ''GET'' [] ''a'') Response_default w1 = Returns (res2, w2) \<and>
    fs_content (w_fs w2) (cache_root @ [''im'', ''pic'', ''a'']) = Some ''stored''"
proof -
  have "s3_service_ok (env_s3 demo_env) (\<lambda>s. s)" using memory_service_ok by (simp add: demo_env_def)
  from delete_then_get_restores [OF demo_get this demo_cache_simps(1) demo_cache_key,
      of "[(''a'', Reg ''data'')]" "''data''" "''stored''" Response_default]
  show ?thesis using plain_a(1) demo_cache_simps(2,3) by fastforce
qed


end
