(* ===== verification/FrsMain.thy ===== *)
theory FrsMain
  imports FileTransfer
begin

text \<open>
  The program: its routes and error handler, the start-up, and the thread that copies the cache to
  the object store (\<^verbatim>\<open>src/src/main.cpp\<close>).  The time the program was built and started are parameters,
  as are regular expressions.  A round of the storage thread is a function; the threads only meet in
  the cache and in the store.
\<close>

section \<open>The handlers of main.cpp\<close>

definition ErrorHandler :: "('s, 'v) frs_env \<Rightarrow> 's world handler" where
  "ErrorHandler env req res w =
     Returns (if res_status res \<in> {200, 400, 401, 402, 403, 404} then res
              else SetResponseMsg env res (res_status res) (- 1) ''request path error'', w)"

definition FRS_VERSION :: string where "FRS_VERSION = ''V00.00.09''"

definition version_handler :: "('s, 'v) frs_env \<Rightarrow> string \<Rightarrow> string \<Rightarrow> 's world handler" where
  "version_handler env built startAt req res w =
     (let resp = json_set env (json_set env (json_set env (json_null env) ''version'' (json_string env FRS_VERSION))
            ''built'' (json_string env built)) ''startAt'' (json_string env startAt);
          json = json_unformat_string (json_write env) (json_builder env) resp
      in Returns (set_content res json ''application/json'', w))"

definition test_handler :: "'s world handler" where
  "test_handler req res w =
     path_param req ''apptype'' (\<lambda>_. path_param req ''restype'' (\<lambda>_.
       Returns (set_content res ''Hello World!'' ''text/plain'', w)))"

section \<open>The server\<close>

definition FILE_ROUTE :: string where "FILE_ROUTE = ''/api/v1/:apptype/:restype/:filename''"

definition TEMP_ROUTE :: string where "TEMP_ROUTE = ''/api/v1/temp/:filename''"

text \<open>The folders created at the start.\<close>

definition create_folders :: "('s, 'v) frs_env \<Rightarrow> 's world \<Rightarrow> 's world" where
  "create_folders env w =
     foldl (\<lambda>w dir. w\<lparr> w_fs := fst (cmd_system (env_popen env) (w_fs w) (Some (c_str (''mkdir -p '' @ dir)))) \<rparr>) w
       [CACHE_DIR, CACHE_TEMP_DIR, CACHE_DIR @ ''im/'', CACHE_DIR @ ''conf/'', ''/app/run/frs/log/'']"

definition frs_server ::
  "('s, 'v) frs_env \<Rightarrow> (string \<Rightarrow> string \<Rightarrow> bool) \<Rightarrow> string \<Rightarrow> string \<Rightarrow> ('s world, upload_state) server" where
  "frs_server env regex built startAt =
     (let svr = Server regex w_fs;
          svr = set_plain_error_handler svr (ErrorHandler env);
          svr = Post_reader svr FILE_ROUTE (FileUploadCallback env);
          svr = Get svr FILE_ROUTE (FileGetHeadCallback env);
          svr = Put svr FILE_ROUTE (MetadataPatchCallback env);
          svr = Patch svr FILE_ROUTE (MetadataPatchCallback env);
          svr = Delete svr FILE_ROUTE (FileDeleteCallback env);
          svr = Post_reader svr TEMP_ROUTE (TempFileUploadCallback env);
          svr = Get svr TEMP_ROUTE (TempFileDownloadCallback env);
          svr = Get svr ''/version'' (version_handler env built startAt);
          svr = Get svr ''/test/:apptype/:restype'' test_handler;
          svr = set_keep_alive_max_count svr 50
      in set_keep_alive_timeout svr 20)"

section \<open>The storage thread\<close>

fun upload_listed :: "('s, 'v) frs_env \<Rightarrow> fs \<Rightarrow> string \<Rightarrow> string \<Rightarrow> string list \<Rightarrow> 's \<Rightarrow> 's" where
  "upload_listed env fs bucket path [] s = s"
| "upload_listed env fs bucket path (localFile # files) s =
     (let keyName = drop (length path) localFile in
      case isFileExist (env_s3 env) (env_rgwHost env) s bucket keyName of
        (found, s1) \<Rightarrow>
          upload_listed env fs bucket path files
            (if \<not> found then snd (uploadFile (env_s3 env) (env_rgwHost env) fs s1 bucket keyName localFile) else s1))"

definition s3_upload_files :: "('s, 'v) frs_env \<Rightarrow> 's world \<Rightarrow> string \<Rightarrow> string \<Rightarrow> int \<times> 's world" where
  "s3_upload_files env w bucket path =
     (let files = snd (get_all_files (w_fs w) path [])
      in (0, w\<lparr> w_s3 := upload_listed env (w_fs w) bucket path files (w_s3 w) \<rparr>))"

text \<open>One round of the loop, and the thread up to the end of its \<open>n\<close>-th round.\<close>

definition ceph_round :: "('s, 'v) frs_env \<Rightarrow> 's world \<Rightarrow> 's world" where
  "ceph_round env w =
     (let w1 = snd (s3_upload_files env w BUCKET_IM (CACHE_DIR @ ''/im''))
      in snd (s3_upload_files env w1 BUCKET_CONF (CACHE_DIR @ ''/conf'')))"

primrec ceph_storage_thread :: "('s, 'v) frs_env \<Rightarrow> 's world \<Rightarrow> nat \<Rightarrow> 's world" where
  "ceph_storage_thread env w 0 =
     (case listBuckets (env_s3 env) (env_rgwHost env) (w_s3 w) of (_, _, s') \<Rightarrow> w\<lparr> w_s3 := s' \<rparr>)"
| "ceph_storage_thread env w (Suc n) = ceph_round env (ceph_storage_thread env w n)"

text \<open>The port on the command line is read and printed, and not used.\<close>

definition main_port :: "string list \<Rightarrow> int option \<times> int" where
  "main_port argv = (if length argv \<ge> 2 then Some (str2int (argv ! 1)) else None, 8183)"

section \<open>The storage thread copies the cache\<close>

text \<open>A file below a directory is found under the path of the directory followed by its own.\<close>

lemma stat_below:
  assumes "stat fs p = Some (Dir es)" "NUL \<notin> set p" "file_in (Dir es) q = Some d" "list_all plain q"
  shows "stat fs (p @ path_text q) = Some (Reg d)"
proof -
  obtain r where r: "os_path fs p = Some r" "node_at (fs_root fs) r = Some (Dir es)"
    using assms(1) by (auto simp: stat_def split: option.splits)
  have p: "p \<noteq> []" using r(1) by (auto simp: os_path_def)
  have n: "node_at (fs_root fs) (r @ q) = Some (Reg d)"
    using r(2) assms(3) by (auto simp: node_at_append file_in_def split: option.splits inode.splits)
  have "q \<noteq> []" using assms(3) by (auto simp: file_in_def)
  then have "node_at (fs_root fs) ((r @ butlast q) @ [last q]) = Some (Reg d)" using n by simp
  then have "is_dir_at (fs_root fs) (r @ butlast q)"
    unfolding node_at_append [of _ "r @ butlast q"] is_dir_at_def by (auto split: option.splits inode.splits)
  then have "os_path fs (p @ path_text q) = Some (r @ q)"
    using r(1) p assms(2,4) path_text_no_nul [OF assms(4)] pieces_below [OF assms(4), of p] walk_plain [OF assms(4)]
    by (simp add: os_path_def Let_def walk_append)
  then show ?thesis using n by (simp add: stat_def)
qed


lemma map_of_keys: "map_of (map (\<lambda>k. (k, f k)) ks) k = (if k \<in> set ks then Some (f k) else None)"
  by (induction ks) auto

lemma upload_listed_store:
  assumes "s3_service_ok (env_s3 env) V" "V s b = Some m"
    "\<forall>k \<in> set ks. stat fs (path @ k) = Some (Reg (g k))"
  shows "V (upload_listed env fs b path (map ((@) path) ks) s) = (V s)(b \<mapsto> map_of (map (\<lambda>k. (k, g k)) ks) ++ m)"
  using assms(2,3)
proof (induction ks arbitrary: s m)
  case Nil
  then show ?case by (simp add: fun_upd_idem)
next
  case (Cons k ks)
  obtain s1 where s1: "isFileExist (env_s3 env) (env_rgwHost env) s b k = (object_of (V s) b k \<noteq> None, s1)" "V s1 = V s"
    by (rule isFileExist_ok [OF assms(1)])
  have o: "object_of (V s) b k = m k" using Cons.prems(1) by (simp add: object_of_def)
  obtain s2 where s2: "uploadFile (env_s3 env) (env_rgwHost env) fs s1 b k (path @ k) = (0, s2)"
    "V s2 = (V s1)(b \<mapsto> m(k \<mapsto> g k))"
    by (rule uploadFile_ok [OF assms(1), of fs "path @ k" "g k" s1 b m]) (use Cons.prems s1 in auto)
  have step: "upload_listed env fs b path (map ((@) path) (k # ks)) s =
      upload_listed env fs b path (map ((@) path) ks) (if m k = None then s2 else s1)"
    using s1(1) s2(1) o by (simp add: Let_def)
  let ?m = "if m k = None then m(k \<mapsto> g k) else m"
  have "V (if m k = None then s2 else s1) b = Some ?m" "\<forall>k \<in> set ks. stat fs (path @ k) = Some (Reg (g k))"
    using s1 s2 Cons.prems by auto
  note IH = Cons.IH [OF this]
  have upd: "(V (if m k = None then s2 else s1))(b \<mapsto> X) = (V s)(b \<mapsto> X)" for X using s1(2) s2(2) by simp
  show ?case unfolding step IH emplace_map upd by (simp add: fun_upd_def)
qed

lemma s3_upload_files_run:
  assumes "s3_service_ok (env_s3 env) V" "V (w_s3 w) b = Some m"
    and "stat (w_fs w) path = Some (Dir es)" "wf_inode (Dir es)" "NUL \<notin> set path"
    and "\<forall>q. file_in (Dir es) q \<noteq> None \<longrightarrow> list_all plain q"
  shows "\<exists>w'. s3_upload_files env w b path = (0, w') \<and> w_fs w' = w_fs w \<and>
    (\<forall>b'. b' \<noteq> b \<longrightarrow> V (w_s3 w') b' = V (w_s3 w) b') \<and>
    (\<forall>q d. file_in (Dir es) q = Some d \<longrightarrow>
      object_of (V (w_s3 w')) b (path_text q) = Some (case m (path_text q) of Some old \<Rightarrow> old | None \<Rightarrow> d)) \<and>
    (\<forall>k. (\<forall>q. file_in (Dir es) q \<noteq> None \<longrightarrow> k \<noteq> path_text q) \<longrightarrow> object_of (V (w_s3 w')) b k = m k)"
proof -
  let ?qs = "tree_files (Dir es)" let ?ks = "map path_text ?qs"
  let ?g = "\<lambda>k. case stat (w_fs w) (path @ k) of Some (Reg d) \<Rightarrow> d | _ \<Rightarrow> []"
  have below: "stat (w_fs w) (path @ path_text q) = Some (Reg d)" if "file_in (Dir es) q = Some d" for q d
    using stat_below [OF assms(3,5) that] assms(6) that by simp
  have mem: "k \<in> set ?ks \<longleftrightarrow> (\<exists>q. file_in (Dir es) q \<noteq> None \<and> k = path_text q)" for k
    using tree_files_spec [OF assms(4)] by (auto simp del: tree_files.simps)
  then have reg: "\<forall>k \<in> set ?ks. stat (w_fs w) (path @ k) = Some (Reg (?g k))" using below by fastforce
  have "snd (get_all_files (w_fs w) path []) = map ((@) path) ?ks"
    using get_all_files_tree [OF assms(4), of path "[]"] assms(3) by (simp add: get_all_files_def is_dir_at_def comp_def)
  moreover note upload_listed_store [OF assms(1,2) reg]
  ultimately have V: "V (w_s3 (snd (s3_upload_files env w b path))) = (V (w_s3 w))(b \<mapsto> map_of (map (\<lambda>k. (k, ?g k)) ?ks) ++ m)"
    by (simp add: s3_upload_files_def Let_def)
  have o: "object_of (V (w_s3 (snd (s3_upload_files env w b path)))) b k =
      (case m k of Some old \<Rightarrow> Some old | None \<Rightarrow> if k \<in> set ?ks then Some (?g k) else None)" for k
    unfolding V by (simp add: object_of_def map_add_def map_of_keys del: tree_files.simps map_map split: option.split)
  have "object_of (V (w_s3 (snd (s3_upload_files env w b path)))) b (path_text q) =
      Some (case m (path_text q) of Some old \<Rightarrow> old | None \<Rightarrow> d)" if "file_in (Dir es) q = Some d" for q d
  proof -
    have "path_text q \<in> set ?ks" using mem that by blast
    then show ?thesis unfolding o using below [OF that] by (simp split: option.split)
  qed
  moreover have "object_of (V (w_s3 (snd (s3_upload_files env w b path)))) b k = m k"
    if "\<forall>q. file_in (Dir es) q \<noteq> None \<longrightarrow> k \<noteq> path_text q" for k
  proof -
    have "k \<notin> set ?ks" using mem that by blast
    then show ?thesis unfolding o by (simp split: option.split)
  qed
  ultimately show ?thesis using V
    by (intro exI [of _ "snd (s3_upload_files env w b path)"]) (simp add: s3_upload_files_def Let_def)
qed

text \<open>
  C9. A round of the storage thread over a directory: afterwards the bucket holds, under the path of
  each file below the directory, the content of the file, except that an object that was there
  before is kept as it was, even when the file has changed since; nothing else in the store changes,
  and the cache is not touched.
\<close>

theorem s3_upload_files_complete:
  assumes "s3_service_ok (env_s3 env) V" "V (w_s3 w) b = Some m"
    and "stat (w_fs w) path = Some (Dir es)" "wf_inode (Dir es)" "NUL \<notin> set path"
    and "\<forall>q. file_in (Dir es) q \<noteq> None \<longrightarrow> list_all plain q"
  shows "\<exists>w'. s3_upload_files env w b path = (0, w') \<and> w_fs w' = w_fs w \<and>
    (\<forall>b'. b' \<noteq> b \<longrightarrow> V (w_s3 w') b' = V (w_s3 w) b') \<and>
    (\<forall>q d. file_in (Dir es) q = Some d \<longrightarrow>
      object_of (V (w_s3 w')) b (path_text q) = Some (case m (path_text q) of Some old \<Rightarrow> old | None \<Rightarrow> d)) \<and>
    (\<forall>k. (\<forall>q. file_in (Dir es) q \<noteq> None \<longrightarrow> k \<noteq> path_text q) \<longrightarrow> object_of (V (w_s3 w')) b k = m k)"
  using assms by (rule s3_upload_files_run)



text \<open>A folder of the cache as the storage thread names it, with two slashes.\<close>

lemma stat_cache_folder:
  assumes "node_at (fs_root fs) (cache_root @ [a]) = Some (Dir es)" "plain a"
  shows "stat fs (CACHE_DIR @ ''/'' @ a) = Some (Dir es)" "NUL \<notin> set (CACHE_DIR @ ''/'' @ a)"
proof -
  have c: "CACHE_DIR = path_text cache_root @ ''/''" by (simp add: CACHE_DIR_def cache_root_def)
  show n: "NUL \<notin> set (CACHE_DIR @ ''/'' @ a)" using assms(2) by (simp add: CACHE_DIR_def plain_def)
  have pl: "list_all plain cache_root" by (simp add: cache_root_def plain_def)
  have d: "is_dir_at (fs_root fs) (cache_root @ [a])" using assms(1) by (simp add: is_dir_at_def)
  have d': "is_dir_at (fs_root fs) q" if p: "prefix q (cache_root @ [a])" for q
  proof -
    obtain z where "cache_root @ [a] = q @ z" using p by (rule prefixE)
    then show ?thesis using d is_dir_prefix [of "fs_root fs" q z] by simp
  qed
  have "slash_pieces (path_text cache_root @ CHR ''/'' # CHR ''/'' # a) = ([] # cache_root) @ slash_pieces (CHR ''/'' # a)"
    using pieces_append [of "\<lambda>c. c = CHR ''/''" "CHR ''/''" "path_text cache_root" "CHR ''/'' # a"] pieces_path_text [of "[]", OF _ pl]
    by simp
  moreover have "slash_pieces (CHR ''/'' # a) = [[], a]"
    using fields_none [of a "\<lambda>c. c = CHR ''/''"] assms(2) by (auto simp: plain_def)
  ultimately have "slash_pieces (CACHE_DIR @ ''/'' @ a) = [] # cache_root @ [[], a]" unfolding c by simp
  moreover have "walk (fs_root fs) [] cache_root = Some cache_root"
    using walk_plain [OF pl, of "fs_root fs" "[]"] d' [of "butlast cache_root"]
    by (simp add: prefix_def) (metis append_butlast_last_id append_assoc)
  then have "walk (fs_root fs) [] ([] # cache_root @ [[], a]) = Some (cache_root @ [a])"
    using d' [of "[]"] d' [of cache_root] assms(2) by (simp add: walk_append plain_def)
  moreover have "c_str (CACHE_DIR @ ''/'' @ a) = CACHE_DIR @ ''/'' @ a" using n by (rule c_str_id)
  moreover have "hd (CACHE_DIR @ ''/'' @ a) = CHR ''/''" "CACHE_DIR @ ''/'' @ a \<noteq> []" by (simp_all add: CACHE_DIR_def)
  ultimately have "os_path fs (CACHE_DIR @ ''/'' @ a) = Some (cache_root @ [a])"
    unfolding os_path_def Let_def by (simp only: if_False if_True refl)
  then show "stat fs (CACHE_DIR @ ''/'' @ a) = Some (Dir es)" using assms(1) by (simp add: stat_def)
qed

text \<open>The two folders the storage thread copies, as trees.\<close>

definition cache_folders :: "fs \<Rightarrow> (string \<Rightarrow> inode) \<Rightarrow> bool" where
  "cache_folders fs tree \<longleftrightarrow> fs_ok fs \<and> (\<forall>a \<in> {''im'', ''conf''}. \<exists>es. tree a = Dir es \<and>
     node_at (fs_root fs) (cache_root @ [a]) = Some (Dir es) \<and> wf_inode (Dir es) \<and>
     (\<forall>q. file_in (Dir es) q \<noteq> None \<longrightarrow> list_all plain q))"

lemma ceph_round_stores:
  assumes "s3_service_ok (env_s3 env) V" "V (w_s3 w) BUCKET_IM = Some mi" "V (w_s3 w) BUCKET_CONF = Some mc"
    and "cache_folders (w_fs w) tree" "a \<in> {''im'', ''conf''}" "file_in (tree a) q = Some d"
  shows "w_fs (ceph_round env w) = w_fs w"
    "object_of (V (w_s3 (ceph_round env w))) (GetBucketName a) (path_text q) =
      Some (case object_of (V (w_s3 w)) (GetBucketName a) (path_text q) of Some old \<Rightarrow> old | None \<Rightarrow> d)"
proof -
  have b: "BUCKET_IM \<noteq> BUCKET_CONF" "plain ''im''" "plain ''conf''" by (simp_all add: BUCKET_IM_def BUCKET_CONF_def plain_def)
  from assms(4) obtain ei ec where i: "tree ''im'' = Dir ei" "node_at (fs_root (w_fs w)) (cache_root @ [''im'']) = Some (Dir ei)"
      "wf_inode (Dir ei)" "\<forall>q. file_in (Dir ei) q \<noteq> None \<longrightarrow> list_all plain q"
    and c: "tree ''conf'' = Dir ec" "node_at (fs_root (w_fs w)) (cache_root @ [''conf'']) = Some (Dir ec)"
      "wf_inode (Dir ec)" "\<forall>q. file_in (Dir ec) q \<noteq> None \<longrightarrow> list_all plain q"
    unfolding cache_folders_def by blast
  let ?o = "\<lambda>m q d. Some (case m (path_text q) of Some old \<Rightarrow> old | None \<Rightarrow> d)"
  from s3_upload_files_run [OF assms(1,2) stat_cache_folder(1) [OF i(2) b(2)] i(3) stat_cache_folder(2) [OF i(2) b(2)] i(4)]
  obtain w1 where w1: "s3_upload_files env w BUCKET_IM (CACHE_DIR @ ''/im'') = (0, w1)" "w_fs w1 = w_fs w"
    "V (w_s3 w1) BUCKET_CONF = Some mc"
    "\<And>q d. file_in (Dir ei) q = Some d \<Longrightarrow> object_of (V (w_s3 w1)) BUCKET_IM (path_text q) = ?o mi q d"
    using b(1) assms(3) by auto
  from s3_upload_files_run [OF assms(1) w1(3), of "CACHE_DIR @ ''/conf''" ec] stat_cache_folder [OF c(2) b(3)] c(3,4) w1(2)
  obtain w2 where w2: "s3_upload_files env w1 BUCKET_CONF (CACHE_DIR @ ''/conf'') = (0, w2)" "w_fs w2 = w_fs w"
    "V (w_s3 w2) BUCKET_IM = V (w_s3 w1) BUCKET_IM"
    "\<And>q d. file_in (Dir ec) q = Some d \<Longrightarrow> object_of (V (w_s3 w2)) BUCKET_CONF (path_text q) = ?o mc q d"
    using b(1) by auto
  have r: "ceph_round env w = w2" using w1(1) w2(1) by (simp add: ceph_round_def)
  show "w_fs (ceph_round env w) = w_fs w" using r w2(2) by simp
  have "object_of (V (w_s3 w)) BUCKET_IM (path_text q) = mi (path_text q)"
    "object_of (V (w_s3 w)) BUCKET_CONF (path_text q) = mc (path_text q)" using assms(2,3) by (simp_all add: object_of_def)
  moreover have "object_of (V (w_s3 w2)) BUCKET_IM k = object_of (V (w_s3 w1)) BUCKET_IM k" for k
    using w2(3) by (simp add: object_of_def)
  ultimately show "object_of (V (w_s3 (ceph_round env w))) (GetBucketName a) (path_text q) =
      Some (case object_of (V (w_s3 w)) (GetBucketName a) (path_text q) of Some old \<Rightarrow> old | None \<Rightarrow> d)"
    using assms(5,6) i(1) c(1) w1(4) [of q d] w2(4) [of q d] unfolding r by (auto simp: GetBucketName_def)
qed

text \<open>
  C12. A file of the applications \<^verbatim>\<open>im\<close> and \<^verbatim>\<open>conf\<close> comes back after its deletion from the cache: after one
  round of the storage thread, with both buckets in the store, deleting the file and getting it again answers with a file and has it in the
  cache, the other files being what they were before the round.  Its content is the one it had, if the store had
  no object of its key before the round; if it had one, the round keeps that object and its older content comes
  back.  All this rests on the deletion leaving the store alone, although the comment in its handler says that it
  deletes the file there as well.
\<close>

theorem stored_file_survives_delete:
  assumes "s3_service_ok (env_s3 env) V" "V (w_s3 w) BUCKET_IM = Some mi" "V (w_s3 w) BUCKET_CONF = Some mc"
    and "cache_folders (w_fs w) tree" "a \<in> {''im'', ''conf''}" "file_in (tree a) [r, f] = Some d" "plain_get req a r f"
  shows "\<exists>res1 res2 w1 w2. FileDeleteCallback env req res (ceph_round env w) = Returns (res1, w1) \<and> res_status res1 = 200 \<and>
    fs_content (w_fs w1) (cache_root @ [a, r, f]) = None \<and>
    FileGetHeadCallback env req res w1 = Returns (res2, w2) \<and> serves_file res2 (cache_file a r f) \<and>
    fs_content (w_fs w2) = (fs_content (w_fs w))(cache_root @ [a, r, f] \<mapsto>
      (case object_of (V (w_s3 w)) (GetBucketName a) (ceph_key r f) of Some old \<Rightarrow> old | None \<Rightarrow> d))"
proof -
  let ?w = "ceph_round env w"
  note st = ceph_round_stores [OF assms(1-6)]
  obtain es where es: "tree a = Dir es" "node_at (fs_root (w_fs w)) (cache_root @ [a]) = Some (Dir es)"
    and p: "\<forall>q. file_in (Dir es) q \<noteq> None \<longrightarrow> list_all plain q"
    using assms(4,5) unfolding cache_folders_def by blast
  have rf: "list_all plain [r, f]" using p assms(6) unfolding es(1) by (metis option.distinct(1))
  have n: "node_at (fs_root (w_fs w)) (cache_root @ [a, r, f]) = Some (Reg d)"
    using es assms(6) node_at_append [of "fs_root (w_fs w)" "cache_root @ [a]" "[r, f]"]
    by (auto simp: file_in_def split: option.splits inode.splits)
  have pl: "list_all plain (cache_root @ [a, r, f])" using rf assms(5) by (auto simp: cache_root_def plain_def)
  have "node_at (fs_root (w_fs w)) ((cache_root @ [a, r]) @ [f]) = Some (Reg d)" using n by simp
  then have "is_dir_at (fs_root (w_fs w)) (cache_root @ [a, r])"
    unfolding node_at_append [of _ "cache_root @ [a, r]"] is_dir_at_def by (auto split: option.splits inode.splits)
  then have k: "file_key (w_fs ?w) (cache_file a r f) = Some (cache_root @ [a, r, f])"
    unfolding cache_paths st(1) using pl n
    by (intro file_key_plain) (auto simp: butlast_append is_dir_at_def)
  have "fs_content (w_fs ?w) (cache_root @ [a, r, f]) = Some d" using n st(1) by (simp add: fs_content_def file_in_def)
  moreover have "fs_ok (w_fs ?w)" using assms(4) st(1) by (simp add: cache_folders_def)
  moreover have "object_of (V (w_s3 ?w)) (GetBucketName a) (ceph_key r f) =
      Some (case object_of (V (w_s3 w)) (GetBucketName a) (ceph_key r f) of Some old \<Rightarrow> old | None \<Rightarrow> d)"
    using st(2) by (simp add: ceph_key_def)
  ultimately show ?thesis using delete_get_run [OF assms(7,1) _ k, of d _ res] st(1) by fastforce
qed


section \<open>Witnesses\<close>

text \<open>A cache with one file for \<^verbatim>\<open>im\<close> and none for \<^verbatim>\<open>conf\<close>, and a store with two empty buckets.\<close>

definition demo_tree :: "string \<Rightarrow> inode" where
  "demo_tree a = (if a = ''im'' then Dir [(''pic'', Dir [(''a'', Reg ''data'')])] else Dir [])"

definition demo_program :: "buckets world" where
  "demo_program = \<lparr> w_fs = \<lparr> fs_root = Dir [(''app'', Dir [(''run'', Dir [(''frs'', Dir [(''dat'', Dir
       [(''fileCache'', Dir [(''im'', demo_tree ''im''), (''conf'', demo_tree ''conf'')])])])])])], fs_cwd = [], dir_st_size = 0 \<rparr>,
     w_s3 = [BUCKET_IM \<mapsto> Map.empty, BUCKET_CONF \<mapsto> Map.empty] \<rparr>"

lemma demo_tree_plain: "\<forall>q. file_in (demo_tree a) q \<noteq> None \<longrightarrow> list_all plain q"
proof (intro allI impI)
  fix q assume "file_in (demo_tree a) q \<noteq> None"
  moreover have "wf_inode (demo_tree a)" by (simp add: demo_tree_def)
  ultimately have "q \<in> set (tree_files (demo_tree a))" using tree_files_spec by blast
  then show "list_all plain q" by (auto simp: demo_tree_def plain_def split: if_splits)
qed

lemma demo_folders: "cache_folders (w_fs demo_program) demo_tree"
  unfolding cache_folders_def
proof (intro conjI ballI)
  show "fs_ok (w_fs demo_program)" by (simp add: demo_program_def fs_ok_def)
  fix a assume "a \<in> {''im'', ''conf''}"
  then have "node_at (fs_root (w_fs demo_program)) (cache_root @ [a]) = Some (demo_tree a)" "wf_inode (demo_tree a)"
    by (auto simp: demo_program_def cache_root_def demo_tree_def)
  moreover obtain es where "demo_tree a = Dir es" by (cases "demo_tree a") (auto simp: demo_tree_def split: if_splits)
  ultimately show "\<exists>es. demo_tree a = Dir es \<and> node_at (fs_root (w_fs demo_program)) (cache_root @ [a]) = Some (Dir es) \<and>
      wf_inode (Dir es) \<and> (\<forall>q. file_in (Dir es) q \<noteq> None \<longrightarrow> list_all plain q)"
    using demo_tree_plain [of a] by auto
qed

lemma demo_buckets:
  "s3_service_ok (env_s3 demo_env) (\<lambda>s. s)" "w_s3 demo_program BUCKET_IM = Some Map.empty"
  "w_s3 demo_program BUCKET_CONF = Some Map.empty" "object_of (w_s3 demo_program) b k = None"
  using memory_service_ok by (simp_all add: demo_env_def demo_program_def BUCKET_IM_def BUCKET_CONF_def object_of_def)

theorem stored_file_survives_delete_witness:
  "\<exists>res1 res2 w1 w2. FileDeleteCallback demo_env (demo_request ''GET'' [] ''a'') Response_default (ceph_round demo_env demo_program) =
      Returns (res1, w1) \<and> fs_content (w_fs w1) (cache_root @ [''im'', ''pic'', ''a'']) = None \<and>
    FileGetHeadCallback demo_env (demo_request ''GET'' [] ''a'') Response_default w1 = Returns (res2, w2) \<and>
    fs_content (w_fs w2) (cache_root @ [''im'', ''pic'', ''a'']) = Some ''data''"
proof -
  have "file_in (demo_tree ''im'') [''pic'', ''a''] = Some ''data''" by (simp add: demo_tree_def file_in_def)
  from stored_file_survives_delete [OF demo_buckets(1-3) demo_folders _ this demo_get, of Response_default]
  show ?thesis by (simp add: demo_buckets(4)) fastforce
qed

theorem s3_upload_files_complete_witness:
  "\<exists>w'. s3_upload_files demo_env demo_program BUCKET_IM (CACHE_DIR @ ''/im'') = (0, w') \<and>
    object_of (w_s3 w') BUCKET_IM ''/pic/a'' = Some ''data''"
proof -
  obtain es where es: "demo_tree ''im'' = Dir es" "node_at (fs_root (w_fs demo_program)) (cache_root @ [''im'']) = Some (Dir es)"
    "wf_inode (Dir es)" "\<forall>q. file_in (Dir es) q \<noteq> None \<longrightarrow> list_all plain q"
    using demo_folders unfolding cache_folders_def by blast
  have "plain ''im''" by (simp add: plain_def)
  note s = stat_cache_folder [OF es(2) this, unfolded append.simps]
  have "file_in (Dir es) [''pic'', ''a''] = Some ''data''" using es(1) by (auto simp: demo_tree_def file_in_def)
  moreover from s3_upload_files_complete [OF demo_buckets(1,2) s(1) es(3) s(2) es(4)] obtain w' where
    "s3_upload_files demo_env demo_program BUCKET_IM (CACHE_DIR @ ''/im'') = (0, w')"
    "\<And>q d. file_in (Dir es) q = Some d \<Longrightarrow> object_of (w_s3 w') BUCKET_IM (path_text q) = Some d" by auto
  ultimately show ?thesis by fastforce
qed

end
