(* ===== verification/FrsExchange.thy ===== *)
theory FrsExchange
  imports FrsMain
begin

text \<open>
  Whole exchanges of the program: the bytes of a request on a connection, the server of
  \<^verbatim>\<open>src/src/main.cpp\<close> with its handlers, and the bytes of the response.  The definitions here
  only describe requests and what the theorems say about them; the program is in the theories below.
\<close>

section \<open>The head of a request\<close>

definition request_line :: "string \<Rightarrow> string \<Rightarrow> string" where
  "request_line method target = method @ '' '' @ target @ '' HTTP/1.1'' @ CRLF"

definition request_head :: "string \<Rightarrow> string \<Rightarrow> headers \<Rightarrow> string" where
  "request_head method target hs = request_line method target @ concat (map header_line hs) @ CRLF"

text \<open>A target without query, fragment and escapes.\<close>

definition plain_target :: "string \<Rightarrow> bool" where
  "plain_target t \<longleftrightarrow> t \<noteq> [] \<and> list_all (\<lambda>c. c \<noteq> SP \<and> c \<noteq> CHR 0x09 \<and> c \<noteq> CR \<and> c \<noteq> LF \<and> c \<noteq> NUL \<and>
     c \<noteq> CHR ''#'' \<and> c \<noteq> CHR ''?'' \<and> c \<noteq> CHR ''%'') t"

definition parsed_request :: "string \<Rightarrow> string \<Rightarrow> Request" where
  "parsed_request method target = Request_default\<lparr> req_method := method, req_target := target,
     req_version := ''HTTP/1.1'', req_path := target \<rparr>"

lemma no_blanks:
  assumes "list_all (\<lambda>c. \<not> P c) s"
  shows "takeWhile P s = []" "dropWhile P (rev s) = rev s"
proof -
  show "takeWhile P s = []" using assms by (cases s) auto
  show "dropWhile P (rev s) = rev s" using assms by (cases s rule: rev_cases) auto
qed

lemma trim_copy_no_blanks: "list_all (\<lambda>c. \<not> is_space_or_tab c) s \<Longrightarrow> trim_copy s = s"
  using no_blanks [of is_space_or_tab s] by (simp add: trim_copy_def http_trim_def substr_def)

lemma http_split_loop_whole:
  "d \<notin> set s \<Longrightarrow> i \<le> length s \<Longrightarrow> s \<noteq> [] \<Longrightarrow> http_split_loop s d m i 0 count = split_piece s 0 (length s)"
proof (induction "length s - i" arbitrary: i)
  case 0
  then show ?case by (subst http_split_loop.simps) auto
next
  case (Suc k)
  then have "i < length s" "s ! i \<noteq> d" by (auto simp: in_set_conv_nth)
  then show ?case using Suc(1) [of "i + 1"] Suc(2-) by (subst http_split_loop.simps) auto
qed

lemma http_split_whole:
  assumes "d \<notin> set s" "s \<noteq> []" "list_all (\<lambda>c. \<not> is_space_or_tab c) s"
  shows "http_split s d m = [s]"
  using http_split_loop_whole [OF assms(1) _ assms(2), of 0 m 1] no_blanks [OF assms(3)] assms(2)
  by (simp add: http_split_def split_piece_def http_trim_def substr_def)

lemma plain_target_chars:
  assumes "plain_target t"
  shows "t \<noteq> []" "SP \<notin> set t" "LF \<notin> set t" "NUL \<notin> set t" "CHR ''?'' \<notin> set t" "CHR ''%'' \<notin> set t"
    "list_all (\<lambda>c. \<not> is_space_or_tab c) t" "takeWhile (\<lambda>c. c \<noteq> CHR ''#'') t = t"
  using assms by (auto simp: plain_target_def list_all_iff is_space_or_tab_def takeWhile_eq_all_conv)

lemma method_chars:
  assumes "method \<in> set request_methods"
  shows "method \<noteq> []" "SP \<notin> set method" "LF \<notin> set method" "NUL \<notin> set method"
    "list_all (\<lambda>c. \<not> is_space_or_tab c) method"
  using assms by (auto simp: request_methods_def is_space_or_tab_def)

lemma parse_request_line_plain:
  assumes "method \<in> set request_methods" "plain_target target"
  shows "parse_request_line (request_line method target) Request_default = (True, parsed_request method target)"
proof -
  note t = plain_target_chars [OF assms(2)] and m = method_chars [OF assms(1)]
  let ?l = "method @ SP # target @ SP # ''HTTP/1.1''"
  have c: "c_str (request_line method target) = ?l @ CRLF" using t m by (simp add: request_line_def)
  have v: "list_all (\<lambda>c. \<not> is_space_or_tab c) ''HTTP/1.1''" by (simp add: is_space_or_tab_def)
  have "pieces (\<lambda>c. c = SP) ?l = [method, target, ''HTTP/1.1'']"
    using m(2) t(2) by (subst fields_stop; auto)+
  then have ws: "http_split ?l SP None = [method, target, ''HTTP/1.1'']"
    using m t v trim_copy_no_blanks by (simp add: http_split_pieces)
  have q: "http_split target (CHR ''?'') (Some 2) = [target]" by (rule http_split_whole [OF t(5,1,7)])
  have crlf: "take (length (l @ CRLF) - 2) (l @ CRLF) = l" "(l @ CRLF) ! (length (l @ CRLF) - 2) = CR"
    "(l @ CRLF) ! (length (l @ CRLF) - 1) = LF" "\<not> length (l @ CRLF) < 2" for l by (simp_all add: nth_append)
  show ?thesis unfolding parse_request_line_def Let_def c crlf ws
    using q assms(1) decode_no_percent [OF t(6)]
    by (simp add: t(8) set_words_def set_target_def parsed_request_def Request_default_def Let_def del: append.simps append_assoc)
qed


section \<open>From the socket to the handlers\<close>

text \<open>
  The head of a request arrives in any segments, as the receives return them; the last of them also holds
  \<open>first\<close>, the beginning of what follows the head, and the rest comes in the segments \<open>segs\<close>.
\<close>

definition head_arrives :: "socket \<Rightarrow> string \<Rightarrow> string \<Rightarrow> string list \<Rightarrow> bool" where
  "head_arrives sk head first segs \<longleftrightarrow> (\<exists>pre x. rx sk = pre @ (x @ first) # segs \<and> concat pre @ x = head \<and> x \<noteq> [] \<and>
     length (x @ first) \<le> read_buff_size)"

lemma head_arrives_at_once:
  "rx sk = (head @ first) # segs \<Longrightarrow> head \<noteq> [] \<Longrightarrow> length (head @ first) \<le> read_buff_size \<Longrightarrow> head_arrives sk head first segs"
  unfolding head_arrives_def by (intro exI [of _ "[]"] exI [of _ head]) simp

lemma head_arrives_view: "head_arrives sk head first segs \<Longrightarrow> head_view first segs \<lparr> sock = sk, read_buff = [] \<rparr> head"
  unfolding head_arrives_def by (auto intro: head_viewI(2) [where st = "\<lparr> sock = sk, read_buff = [] \<rparr>", simplified])

definition seen_request :: "connection \<Rightarrow> string \<Rightarrow> string \<Rightarrow> headers \<Rightarrow> Request" where
  "seen_request cn method target hs = add_addresses cn ((parsed_request method target)\<lparr> req_headers := hs \<rparr>)"

text \<open>A request whose head the server accepts, and which asks for no range and no interim response.\<close>

definition plain_request :: "connection \<Rightarrow> string \<Rightarrow> string \<Rightarrow> headers \<Rightarrow> bool" where
  "plain_request cn method target hs \<longleftrightarrow> cn_fd cn < FD_SETSIZE \<and> method \<in> set request_methods \<and> plain_target target \<and>
     mm_sorted ci hs \<and> (\<forall>kv \<in> set hs. wire_header kv) \<and>
     length (request_line method target) \<le> REQUEST_URI_MAX_LENGTH \<and>
     \<not> req_has_header (seen_request cn method target hs) ''Range'' \<and>
     req_get_header_value (seen_request cn method target hs) ''Expect'' 0 \<noteq> ''100-continue''"

lemma request_head_read:
  assumes "head_arrives sk (request_head method target hs) first segs" "plain_request cn method target hs"
  obtains st where "getline socket_read \<lparr> sock = sk, read_buff = [] \<rparr> = Some (Some (request_line method target), st)"
    "read_headers socket_read st [] = Some (True, hs, \<lparr> sock = sk\<lparr> rx := [] # segs \<rparr>, read_buff = first \<rparr>)"
proof -
  let ?l = "method @ SP # target @ SP # ''HTTP/1.1''" and ?hs = "concat (map header_line hs) @ CRLF"
  have p: "method \<in> set request_methods" "plain_target target" "mm_sorted ci hs" "\<forall>kv \<in> set hs. wire_header kv"
    using assms(2) by (simp_all add: plain_request_def)
  have "head_view first segs \<lparr> sock = sk, read_buff = [] \<rparr> (?l @ CRLF @ ?hs)"
    using head_arrives_view [OF assms(1)] by (simp add: request_head_def request_line_def)
  moreover have "LF \<notin> set ?l" using method_chars [OF p(1)] plain_target_chars [OF p(2)] by simp
  ultimately obtain st where st: "getline socket_read \<lparr> sock = sk, read_buff = [] \<rparr> = Some (Some (?l @ CRLF), st)"
    "head_view first segs st ?hs" "(sock st)\<lparr> rx := [] \<rparr> = sk\<lparr> rx := [] \<rparr>"
    by (rule socket_head.getline_crlf) simp
  from socket_head.read_headers_wire [of "[]" hs first segs st "[]"] p(3,4) st(2) obtain s2 where
    s2: "read_headers socket_read st [] = Some (True, hs, s2)" "head_view first segs s2 []" "(sock s2)\<lparr> rx := [] \<rparr> = (sock st)\<lparr> rx := [] \<rparr>"
    by auto
  note d = head_view_done [OF s2(2)]
  have "sock s2 = (sk\<lparr> rx := [] \<rparr>)\<lparr> rx := rx (sock s2) \<rparr>" unfolding st(3) [symmetric] s2(3) [symmetric] by simp
  then have "s2 = \<lparr> sock = sk\<lparr> rx := [] # segs \<rparr>, read_buff = first \<rparr>" using d by (cases s2) simp
  then show ?thesis using that [of st] st(1) s2(1) by (simp add: request_line_def)
qed

text \<open>What \<^verbatim>\<open>process_request\<close> does with such a request: it routes it and answers.\<close>

lemma process_request_plain:
  assumes "head_arrives sk (request_head method target hs) first segs" "plain_request cn method target hs"
  shows "process_request engine shut svr cn \<lparr> sock = sk, read_buff = [] \<rparr> close w =
    obind (routed_response engine shut svr close (routing svr
        \<lparr> x_strm = \<lparr> sock = sk\<lparr> rx := [] # segs \<rparr>, read_buff = first \<rparr>, x_req = seen_request cn method target hs,
          x_res = Response_default\<lparr> res_version := ''HTTP/1.1'', res_headers := default_headers svr \<rparr>, x_world = w \<rparr>))
      (\<lambda>(ret, res', w', strm'). Returns (ret, wants_close ((parsed_request method target)\<lparr> req_headers := hs \<rparr>), release res' w', strm'))"
proof -
  obtain st where r: "getline socket_read \<lparr> sock = sk, read_buff = [] \<rparr> = Some (Some (request_line method target), st)"
    "read_headers socket_read st [] = Some (True, hs, \<lparr> sock = sk\<lparr> rx := [] # segs \<rparr>, read_buff = first \<rparr>)"
    by (rule request_head_read [OF assms])
  have p: "cn_fd cn < FD_SETSIZE" "length (request_line method target) \<le> REQUEST_URI_MAX_LENGTH"
    "\<not> req_has_header (seen_request cn method target hs) ''Range''"
    "req_get_header_value (seen_request cn method target hs) ''Expect'' 0 \<noteq> ''100-continue''"
    "method \<in> set request_methods" "plain_target target"
    using assms(2) by (simp_all add: plain_request_def)
  have rr: "req_headers (parsed_request method target) = []" "req_ranges (seen_request cn method target hs) = []"
    by (simp_all add: parsed_request_def seen_request_def add_addresses_def req_set_header_def Request_default_def)
  have e: "(seen_request cn method target hs)\<lparr> req_ranges := [] \<rparr> = seen_request cn method target hs" using rr(2) by simp
  have a: "answer_request engine shut svr cn close strm ((parsed_request method target)\<lparr> req_headers := hs \<rparr>) res w =
      routed_response engine shut svr close (routing svr \<lparr> x_strm = strm, x_req = seen_request cn method target hs, x_res = res, x_world = w \<rparr>)" for strm res
    using p(3,4) rr(2) by (simp add: answer_request_def expect_continue_def seen_request_def [symmetric] e Let_def)
  show ?thesis unfolding process_request_def
    using p(1,2) r(2) by (simp add: r(1) or_diverges_def Let_def parse_request_line_plain [OF p(5,6)] rr(1) a)
qed


section \<open>Responses\<close>

text \<open>A server that uses none of the hooks this program leaves alone.\<close>

definition plain_server :: "('w, 'a) server \<Rightarrow> bool" where
  "plain_server svr \<longleftrightarrow> post_routing_handler svr = None \<and> logger svr = None \<and> pre_routing_handler svr = None \<and>
     header_writer svr = write_headers buffer_write \<and> base_dirs svr = [] \<and> exception_handler svr = None"

text \<open>The error handler leaves this response alone.\<close>

definition kept_response :: "('w, 'a) server \<Rightarrow> Request \<Rightarrow> 'w Response \<Rightarrow> 'w \<Rightarrow> bool" where
  "kept_response svr req res w \<longleftrightarrow> (case error_handler svr of None \<Rightarrow> True
     | Some h \<Rightarrow> 400 \<le> res_status res \<longrightarrow> (\<exists>r. h req res w = Returns (r, res, w)))"

lemma set_header_fields [simp]:
  "res_status (set_header res k v) = res_status res" "res_body (set_header res k v) = res_body res"
  "res_content_provider (set_header res k v) = res_content_provider res"
  "res_content_length (set_header res k v) = res_content_length res"
  "res_is_chunked_content_provider (set_header res k v) = res_is_chunked_content_provider res"
  "res_resource_releaser (set_header res k v) = res_resource_releaser res"
  "res_content_provider_success (set_header res k v) = res_content_provider_success res"
  by (simp_all add: set_header_def)

lemma add_response_headers_fields [simp]:
  "res_status (add_response_headers svr c req res) = res_status res"
  "res_body (add_response_headers svr c req res) = res_body res"
  "res_content_provider (add_response_headers svr c req res) = res_content_provider res"
  "res_content_length (add_response_headers svr c req res) = res_content_length res"
  "res_is_chunked_content_provider (add_response_headers svr c req res) = res_is_chunked_content_provider res"
  "res_resource_releaser (add_response_headers svr c req res) = res_resource_releaser res"
  unfolding add_response_headers_def Let_def
  by (simp_all only: if_distrib [where f = res_status] if_distrib [where f = res_body] if_distrib [where f = res_content_provider]
      if_distrib [where f = res_content_length] if_distrib [where f = res_is_chunked_content_provider]
      if_distrib [where f = res_resource_releaser] set_header_fields if_cancel)

lemma apply_ranges_fields:
  assumes "req_ranges req = []"
  shows "\<exists>res'. apply_ranges engine req res = (res', [], []) \<and> res_status res' = res_status res \<and> res_body res' = res_body res \<and>
    res_content_provider res' = res_content_provider res \<and> res_content_length res' = res_content_length res \<and>
    res_is_chunked_content_provider res' = res_is_chunked_content_provider res \<and>
    res_resource_releaser res' = res_resource_releaser res"
  using assms by (simp add: apply_ranges_def apply_range_headers_def apply_body_ranges_def apply_provider_ranges_def
      encoding_type_def Let_def)

lemma write_head:
  "\<exists>n st. write_headers buffer_write \<lparr> buffer = l, buf_position = 0 \<rparr> hs = (n, st) \<and> n \<noteq> 0 \<and>
     buffer st = l @ concat (map header_line hs) @ CRLF"
  using write_lines_buffer [of "\<lparr> buffer = l, buf_position = 0 \<rparr>" "map header_line hs @ [CRLF]" 0]
  by (auto simp: write_headers_def)

text \<open>The headers of a routed response as they are sent.\<close>

definition sent_headers :: "(nat \<Rightarrow> nat) \<Rightarrow> ('w, 'a) server \<Rightarrow> bool \<Rightarrow> Request \<Rightarrow> 'w Response \<Rightarrow> headers" where
  "sent_headers engine svr close req res = res_headers (add_response_headers svr close req (fst (apply_ranges engine req res)))"

text \<open>What is left of \<^verbatim>\<open>write_response_core\<close> for such a response: the head, then the body.\<close>

lemma write_response_plain:
  assumes "plain_server svr" "kept_response svr req res w" "req_ranges req = []" "res_status res \<noteq> - 1" "socket_live strm"
  shows "\<exists>res' hs strm1. res_status res' = res_status res \<and> res_body res' = res_body res \<and>
    res_content_provider res' = res_content_provider res \<and> res_content_length res' = res_content_length res \<and>
    res_is_chunked_content_provider res' = res_is_chunked_content_provider res \<and>
    res_resource_releaser res' = res_resource_releaser res \<and> socket_live strm1 \<and>
    tx (sock strm1) = tx (sock strm) @ status_line (res_status res) @ concat (map header_line hs) @ CRLF \<and>
    write_response_core engine shut svr strm close req res w need =
      obind (or_diverges (write_body shut strm1 req res' w [] []))
        (\<lambda>(ret, res5, strm2). Returns (ret, res5, w, strm2)) \<and>
    (need \<longrightarrow> hs = sent_headers engine svr close req res)"
proof -
  have p: "post_routing_handler svr = None" "logger svr = None" "header_writer svr = write_headers buffer_write"
    using assms(1) by (simp_all add: plain_server_def)
  obtain h where h: "(case error_handler svr of
           Some h \<Rightarrow> if 400 \<le> res_status res then h req res w else Returns (Unhandled, res, w)
         | None \<Rightarrow> Returns (Unhandled, res, w)) = Returns (h, res, w)"
    using assms(2) by (cases "error_handler svr"; cases "400 \<le> res_status res") (auto simp: kept_response_def)
  obtain res2 where r2: "(if need \<or> h = Handled then apply_ranges engine req res else (res, [], [])) = (res2, [], [])"
    "res_status res2 = res_status res" "res_body res2 = res_body res" "res_content_provider res2 = res_content_provider res"
    "res_content_length res2 = res_content_length res" "res_is_chunked_content_provider res2 = res_is_chunked_content_provider res"
    "res_resource_releaser res2 = res_resource_releaser res" "need \<longrightarrow> res2 = fst (apply_ranges engine req res)"
    using apply_ranges_fields [OF assms(3), of engine res] by (cases "need \<or> h = Handled") auto
  let ?res = "add_response_headers svr close req res2"
  obtain n st where st: "write_headers buffer_write \<lparr> buffer = status_line (res_status res), buf_position = 0 \<rparr> (res_headers ?res) = (n, st)"
    "n \<noteq> 0" "buffer st = status_line (res_status res) @ concat (map header_line (res_headers ?res)) @ CRLF"
    using write_head by blast
  obtain strm1 where s1: "write_data socket_write strm (buffer st) = Some (True, strm1)"
    "tx (sock strm1) = tx (sock strm) @ buffer st" "socket_live strm1"
    using socket_out.write_data_live [OF assms(5), of "buffer st"] by blast
  have "write_response_core engine shut svr strm close req res w need =
      obind (or_diverges (write_body shut strm1 req ?res w [] [])) (\<lambda>(ret, res5, strm2). Returns (ret, res5, w, strm2))"
    unfolding write_response_core_def h obind.simps Let_def p option.case prod.case r2(1)
    using assms(4) st(1,2) s1(1) r2(2) by (simp add: or_diverges_def)
  then show ?thesis using r2(2-) s1(2,3) st(3)
    by (intro exI [of _ ?res] exI [of _ "res_headers ?res"] exI [of _ strm1]) (simp add: sent_headers_def)
qed


section \<open>The server of the program\<close>

definition file_target :: "string \<Rightarrow> string \<Rightarrow> string \<Rightarrow> string" where
  "file_target a r f = ''/api/v1/'' @ a @ ''/'' @ r @ ''/'' @ f"

lemma frs_server_simps [simp]:
  "plain_server (frs_server env regex built startAt)"
  "default_headers (frs_server env regex built startAt) = []"
  "regex_match (frs_server env regex built startAt) = regex"
  "base_dirs (frs_server env regex built startAt) = []"
  "pre_routing_handler (frs_server env regex built startAt) = None"
  "exception_handler (frs_server env regex built startAt) = None"
  "payload_max_length (frs_server env regex built startAt) = ULONG_MAX"
  "error_handler (frs_server env regex built startAt) = Some (\<lambda>req res w.
     obind (ErrorHandler env req res w) (\<lambda>(res', w'). Returns (Handled, res', w')))"
  "post_handlers_for_content_reader (frs_server env regex built startAt) =
     [(make_matcher FILE_ROUTE, FileUploadCallback env), (make_matcher TEMP_ROUTE, TempFileUploadCallback env)]"
  "get_handlers (frs_server env regex built startAt) =
     [(make_matcher FILE_ROUTE, FileGetHeadCallback env), (make_matcher TEMP_ROUTE, TempFileDownloadCallback env),
      (make_matcher ''/version'', version_handler env built startAt), (make_matcher ''/test/:apptype/:restype'', test_handler)]"
  "put_handlers (frs_server env regex built startAt) = [(make_matcher FILE_ROUTE, MetadataPatchCallback env)]"
  "patch_handlers (frs_server env regex built startAt) = [(make_matcher FILE_ROUTE, MetadataPatchCallback env)]"
  "delete_handlers (frs_server env regex built startAt) = [(make_matcher FILE_ROUTE, FileDeleteCallback env)]"
  by (simp_all add: frs_server_def plain_server_def Let_def Server_def set_plain_error_handler_def Post_reader_def Get_def Put_def
      Patch_def Delete_def set_keep_alive_max_count_def set_keep_alive_timeout_def)

lemma file_route: "make_matcher FILE_ROUTE =
    PathParamsMatcher [''/api/v1/'', [], []] [''apptype'', ''restype'', ''filename'']"
  unfolding FILE_ROUTE_def by code_simp

lemma file_route_match:
  assumes "req_path req = file_target a r f" "no_slash a" "no_slash r" "no_slash f"
  shows "match_request regex (make_matcher FILE_ROUTE) req =
    (True, req\<lparr> req_path_params := [''apptype'' \<mapsto> a, ''restype'' \<mapsto> r, ''filename'' \<mapsto> f] \<rparr>)"
proof -
  have e: "map_of (zip [''apptype'', ''restype'', ''filename''] [a, r, f]) = [''apptype'' \<mapsto> a, ''restype'' \<mapsto> r, ''filename'' \<mapsto> f]"
    by (rule ext) simp
  have "match_fragments [''/api/v1/'', [], []] [''apptype'', ''restype'', ''filename''] (req_path req) 0 Map.empty =
      (True, map_of (zip [''apptype'', ''restype'', ''filename''] [a, r, f]))"
    by (subst match_spec) (use assms in \<open>auto simp: fits_def file_target_def intro!: exI [of _ "[a, r, f]"]\<close>)
  then show ?thesis unfolding e by (simp add: file_route match_request_def)
qed

lemma safe_target:
  assumes "safe_name a" "safe_name r" "safe_name f"
  shows "plain_target (file_target a r f)" "no_slash a" "no_slash r" "no_slash f"
  using assms by (auto simp: plain_target_def file_target_def safe_name_def list_all_iff c_isalnum_def c_isdigit_def
      c_isupper_def c_islower_def)


text \<open>A connection whose peer waits for the answer.\<close>

definition waiting_peer :: "socket \<Rightarrow> bool" where
  "waiting_peer sk \<longleftrightarrow> tx_quota sk = None \<and> 0 < tx_max sk \<and> rx_end sk = PeerSilent"

lemma waiting_live:
  "waiting_peer sk \<Longrightarrow> (sock st)\<lparr> rx := [] \<rparr> = sk\<lparr> rx := [] \<rparr> \<Longrightarrow> socket_live st \<and> tx (sock st) = tx sk"
proof -
  assume w: "waiting_peer sk" and e: "(sock st)\<lparr> rx := [] \<rparr> = sk\<lparr> rx := [] \<rparr>"
  have "tx_quota ((sock st)\<lparr> rx := [] \<rparr>) = tx_quota sk" "tx_max ((sock st)\<lparr> rx := [] \<rparr>) = tx_max sk"
    "rx_end ((sock st)\<lparr> rx := [] \<rparr>) = rx_end sk" "tx ((sock st)\<lparr> rx := [] \<rparr>) = tx sk" unfolding e by simp_all
  then show ?thesis using w by (auto simp: waiting_peer_def socket_live_def is_socket_alive_def select_read_def)
qed

lemma seen_fields [simp]:
  "req_method (seen_request cn method target hs) = method" "req_path (seen_request cn method target hs) = target"
  "req_ranges (seen_request cn method target hs) = []"
  by (simp_all add: seen_request_def add_addresses_def req_set_header_def parsed_request_def Request_default_def)

lemma update_path_params [simp]:
  "req_get_header_value (req\<lparr> req_path_params := p \<rparr>) = req_get_header_value req"
  "req_has_header (req\<lparr> req_path_params := p \<rparr>) = req_has_header req"
  "is_multipart_form_data (req\<lparr> req_path_params := p \<rparr>) = is_multipart_form_data req"
  "sized_body svr (req\<lparr> req_path_params := p \<rparr>) = sized_body svr req"
  by (auto simp: fun_eq_iff req_get_header_value_def req_has_header_def is_multipart_form_data_def sized_body_def)

text \<open>The piece that the first read of a body returns, up to its size: what is in the buffer, or else the next segment.\<close>

definition first_piece :: "string \<Rightarrow> string list \<Rightarrow> string" where
  "first_piece first segs =
     (if first \<noteq> [] then first else case dropWhile (\<lambda>d. d = []) segs of [] \<Rightarrow> [] | d # ds \<Rightarrow> d)"

lemma first_piece_read:
  assumes "first_piece first segs \<noteq> []"
  shows "fst (socket_read \<lparr> sock = sk\<lparr> rx := [] # segs \<rparr>, read_buff = first \<rparr> n) = ReadBytes (take n (first_piece first segs))"
proof (cases "first = []")
  case True
  then obtain d ds where d: "dropWhile (\<lambda>d. d = []) segs = d # ds" using assms by (auto simp: first_piece_def split: list.splits)
  then have "d \<in> set segs" "d \<noteq> []" using set_dropWhileD [of d "\<lambda>d. d = []" segs] hd_dropWhile [of "\<lambda>d. d = []" segs] by auto
  then have "list_ex (\<lambda>d. d \<noteq> []) segs" by (auto simp: list_ex_iff)
  then show ?thesis using True d
    by (auto simp: first_piece_def socket_read_def socket_is_readable_def select_read_def read_socket_def min_def)
qed (cases "n \<le> length first"; simp add: socket_read_def first_piece_def)

text \<open>
  A body that holds a form with one part, whose opening delimiter is in one piece, and of which the first read
  can take that much.
\<close>

definition form_body :: "('w, 'a) server \<Rightarrow> Request \<Rightarrow> string \<Rightarrow> string list \<Rightarrow> MultipartFormData \<Rightarrow> string \<Rightarrow> bool" where
  "form_body svr req first segs m c \<longleftrightarrow> (\<exists>b ls rest. is_multipart_form_data req \<and>
     parse_multipart_boundary (req_get_header_value req ''Content-Type'' 0) = Some b \<and>
     sized_body svr req (multipart_body b ls c) \<and> first @ concat segs = multipart_body b ls c @ rest \<and>
     prefix (''--'' @ b @ CRLF) (first_piece first segs) \<and> length (''--'' @ b @ CRLF) \<le> RECV_BUFSIZ \<and>
     list_all line_ok ls \<and> mp_header_fields ls MultipartFormData_default = Some m \<and>
     find_sub (c @ CRLF @ ''--'' @ b) (CRLF @ ''--'' @ b) 0 = Some (length c))"

lemma prefix_of_take: "prefix p s \<Longrightarrow> length p \<le> n \<Longrightarrow> prefix p (take n s)"
  by (auto simp: prefix_def)

lemma form_body_at:
  assumes "form_body svr req first segs m c"
  shows "form_at svr (\<lparr> sock = sk\<lparr> rx := [] # segs \<rparr>, read_buff = first \<rparr>, req\<lparr> req_path_params := p \<rparr>, res) m c"
proof -
  from assms obtain b ls rest where f: "is_multipart_form_data req"
     "parse_multipart_boundary (req_get_header_value req ''Content-Type'' 0) = Some b"
     "sized_body svr req (multipart_body b ls c)" "first @ concat segs = multipart_body b ls c @ rest"
     "prefix (''--'' @ b @ CRLF) (first_piece first segs)" "length (''--'' @ b @ CRLF) \<le> RECV_BUFSIZ"
     "list_all line_ok ls" "mp_header_fields ls MultipartFormData_default = Some m"
     "find_sub (c @ CRLF @ ''--'' @ b) (CRLF @ ''--'' @ b) 0 = Some (length c)"
    by (auto simp: form_body_def)
  let ?strm = "\<lparr> sock = sk\<lparr> rx := [] # segs \<rparr>, read_buff = first \<rparr>" and ?n = "min (length (multipart_body b ls c)) RECV_BUFSIZ"
  have l: "length (''--'' @ b @ CRLF) \<le> ?n" using f(6) by (simp add: multipart_body_def)
  have "first_piece first segs \<noteq> []" using f(5) by auto
  note r = first_piece_read [OF this, of sk ?n]
  have "prefix (''--'' @ b @ CRLF) (take ?n (first_piece first segs))" by (rule prefix_of_take [OF f(5) l])
  then show ?thesis unfolding form_at_def using f r
    by (intro exI [of _ ?strm] exI [of _ "req\<lparr> req_path_params := p \<rparr>"] exI [of _ res] exI [of _ b] exI [of _ ls] exI [of _ rest]
        exI [of _ "take ?n (first_piece first segs)"]) (simp add: socket_pending_def)
qed


lemma SetResponseMsg_fields [simp]:
  "res_content_provider (SetResponseMsg env res st code msg) = res_content_provider res"
  "res_content_length (SetResponseMsg env res st code msg) = res_content_length res"
  "res_resource_releaser (SetResponseMsg env res st code msg) = res_resource_releaser res"
  by (simp_all add: SetResponseMsg_def set_content_def Let_def)

lemma upload_response_fields:
  assumes "FileUploadCallback env cr req res w st = Returns (res', w', st')"
  shows "res_content_provider res' = res_content_provider res" "res_content_length res' = res_content_length res"
    "res_resource_releaser res' = res_resource_releaser res"
  using assms by (auto simp: FileUploadCallback_def route_params_def path_param_def commit_upload_def Let_def
      split: option.splits if_splits outcome.splits prod.splits)

text \<open>What the upload handler leaves of the response: one of its replies in JSON.\<close>

definition upload_replies :: "(int \<times> int \<times> string) list" where
  "upload_replies = [(400, - 2, ''file exist''), (400, - 5, ''md5 is NOT consistent''), (200, 0, ''file upload success1'')]"

definition upload_response :: "('s, 'v) frs_env \<Rightarrow> 's response \<Rightarrow> bool" where
  "upload_response env res \<longleftrightarrow> res_content_length res = 0 \<and> res_content_provider res = None \<and>
     res_headers res = [(''Content-Type'', ''application/json'')] \<and>
     (\<exists>(st, code, msg) \<in> set upload_replies. res_body res = res_body (SetResponseMsg env (Response_default :: 's response) st code msg))"

lemma SetResponseMsg_reply:
  fixes env :: "('s, 'v) frs_env" and res :: "'s response"
  assumes "(st, code, msg) \<in> set upload_replies" "res_headers res = []" "res_content_length res = 0" "res_content_provider res = None"
  shows "upload_response env (SetResponseMsg env res st code msg)"
proof -
  have "res_headers (SetResponseMsg env res st code msg) = [(''Content-Type'', ''application/json'')]"
    using assms(2) by (simp add: SetResponseMsg_def set_content_def set_header_def mm_erase_def has_crlf_def c_str_def Let_def)
  moreover have "res_body (SetResponseMsg env res st code msg) = res_body (SetResponseMsg env (Response_default :: 's response) st code msg)"
    by (simp add: SetResponseMsg_def set_content_def Let_def)
  ultimately show ?thesis using assms(1,3,4) by (auto simp: upload_response_def)
qed

lemma upload_replied:
  assumes "FileUploadCallback env cr req res w st = Returns (res', w', st')" "res_headers res = []" "res_content_length res = 0" "res_content_provider res = None"
  shows "upload_response env res'"
proof -
  note r = SetResponseMsg_reply [OF _ assms(2-4), of _ _ _ env]
  show ?thesis using assms(1) by (auto simp: FileUploadCallback_def route_params_def path_param_def commit_upload_def Let_def upload_replies_def
      intro!: r split: option.splits if_splits outcome.splits prod.splits)
qed

lemma upload_routing:
  fixes env :: "('s, 'v) frs_env" and regex built startAt
  defines "svr \<equiv> frs_server env regex built startAt"
  assumes "req_method req = ''POST''" "req_path req = file_target a r f" "no_slash a" "no_slash r" "no_slash f"
    and "req' = req\<lparr> req_path_params := [''apptype'' \<mapsto> a, ''restype'' \<mapsto> r, ''filename'' \<mapsto> f] \<rparr>"
    and "FileUploadCallback env (server_reader svr) req' res w (strm, req', res) = Returns (res', w', strm', req'', res'')"
  shows "routing svr \<lparr> x_strm = strm, x_req = req, x_res = res, x_world = w \<rparr> =
    Done True \<lparr> x_strm = strm', x_req = req'', x_res = res', x_world = w' \<rparr>"
  using assms file_route_match [OF assms(3-6), of regex]
  by (simp add: routing_def expect_content_def route_with_content_def handlers_for_content_reader_def
      dispatch_request_for_content_reader_def)

lemma error_handler_keeps:
  "res_status res \<in> {200, 400, 404} \<Longrightarrow> kept_response (frs_server env regex built startAt) req res w"
  by (auto simp: kept_response_def ErrorHandler_def)

text \<open>A routed response without provider is written completely.\<close>

lemma routed_plain:
  fixes env :: "('s, 'v) frs_env" and regex built startAt
  defines "svr \<equiv> frs_server env regex built startAt"
  assumes "res_status (x_res x) \<in> {200, 400, 404}" "res_content_provider (x_res x) = None" "res_resource_releaser (x_res x) = None"
    and "req_ranges (x_req x) = []" "req_method (x_req x) \<noteq> ''HEAD''" "socket_live (x_strm x)"
  shows "\<exists>res strm hs. routed_response engine shut svr close (Done True x) = Returns (True, res, x_world x, strm) \<and>
    tx (sock strm) = tx (sock (x_strm x)) @ status_line (res_status (x_res x)) @ concat (map header_line hs) @ CRLF @ res_body (x_res x) \<and>
    release res (x_world x) = x_world x \<and> hs = sent_headers engine svr close (x_req x) (x_res x)"
proof -
  have ps: "plain_server svr" by (simp add: svr_def)
  have k: "kept_response svr (x_req x) (x_res x) (x_world x)" unfolding svr_def by (rule error_handler_keeps [OF assms(2)])
  have ne: "res_status (x_res x) \<noteq> - 1" using assms(2) by auto
  from write_response_plain [OF ps k assms(5) ne assms(7), of engine shut close True] obtain res hs strm1 where
    r: "res_body res = res_body (x_res x)" "res_content_provider res = None" "res_resource_releaser res = None" "socket_live strm1"
     "tx (sock strm1) = tx (sock (x_strm x)) @ status_line (res_status (x_res x)) @ concat (map header_line hs) @ CRLF"
     "write_response_core engine shut svr (x_strm x) close (x_req x) (x_res x) (x_world x) True =
       obind (or_diverges (write_body shut strm1 (x_req x) res (x_world x) [] []))
         (\<lambda>(ret, res5, strm2). Returns (ret, res5, x_world x, strm2))" "hs = sent_headers engine svr close (x_req x) (x_res x)"
    using assms(3,4) by auto
  obtain strm2 where s: "write_body shut strm1 (x_req x) res (x_world x) [] [] = Some (True, res, strm2)"
    "tx (sock strm2) = tx (sock strm1) @ res_body res"
    using socket_out.write_data_live [OF r(4), of "res_body res"] assms(6) r(2)
    by (cases "res_body res = []") (auto simp: write_body_def)
  have "routed_response engine shut svr close (Done True x) = Returns (True, res, x_world x, strm2)"
    using r(6) s(1) ne by (simp add: routed_response_def write_response_with_content_def or_diverges_def Let_def)
  then show ?thesis using s(2) r(1,3,5,7) by (intro exI [of _ res] exI [of _ strm2] exI [of _ hs]) (simp add: release_def)
qed


section \<open>Exchanges\<close>

text \<open>The answer to an upload, once the handler has returned.\<close>

lemma upload_answered:
  fixes env :: "('s, 'v) frs_env" and regex built startAt sk first segs
  defines "svr \<equiv> frs_server env regex built startAt"
  defines "res \<equiv> (Response_default :: 's response)\<lparr> res_version := ''HTTP/1.1'', res_headers := default_headers svr \<rparr>"
    and "strm \<equiv> \<lparr> sock = sk\<lparr> rx := [] # segs \<rparr>, read_buff = first \<rparr>"
  assumes "safe_name a" "safe_name r" "safe_name f"
    and "head_arrives sk (request_head ''POST'' (file_target a r f) hs) first segs"
    and "plain_request cn ''POST'' (file_target a r f) hs" "waiting_peer sk"
    and "req = (seen_request cn ''POST'' (file_target a r f) hs)\<lparr> req_path_params := [''apptype'' \<mapsto> a, ''restype'' \<mapsto> r, ''filename'' \<mapsto> f] \<rparr>"
    and "FileUploadCallback env (server_reader svr) req res w (strm, req, res) = Returns (res', w', st')"
    and "reader_after (strm, req, res) st'" "res_status res' \<in> {200, 400}"
  shows "\<exists>closed strm' hs'. process_request engine shut svr cn \<lparr> sock = sk, read_buff = [] \<rparr> close w =
      Returns (True, closed, w', strm') \<and>
    tx (sock strm') = tx sk @ status_line (res_status res') @ concat (map header_line hs') @ CRLF @ res_body res' \<and>
    upload_response env res' \<and> (\<exists>req. req_method req = ''POST'' \<and> req_ranges req = [] \<and>
      req_headers req = req_headers (seen_request cn ''POST'' (file_target a r f) hs) \<and> hs' = sent_headers engine svr close req res')"
proof -
  let ?req = "seen_request cn ''POST'' (file_target a r f) hs"
  obtain strm' where st': "st' = (strm', req, res)" "(sock strm')\<lparr> rx := [] \<rparr> = sk\<lparr> rx := [] \<rparr>"
    using assms(12) by (cases st') (simp add: reader_after_def strm_def)
  let ?x = "\<lparr> x_strm = strm', x_req = req, x_res = res', x_world = w' \<rparr>"
  have route: "routing svr \<lparr> x_strm = strm, x_req = ?req, x_res = res, x_world = w \<rparr> = Done True ?x"
    unfolding svr_def by (rule upload_routing) (use assms(10,11) st'(1) safe_target [OF assms(4-6)] in \<open>simp_all add: svr_def\<close>)
  have live: "socket_live strm'" "tx (sock strm') = tx sk" using waiting_live [OF assms(9) st'(2)] by auto
  note fs = upload_response_fields [OF assms(11)]
  have up: "upload_response env res'" by (rule upload_replied [OF assms(11)]) (simp_all add: svr_def res_def Response_default_def)
  obtain res2 strm'' hs' where w: "routed_response engine shut svr close (Done True ?x) = Returns (True, res2, w', strm'')"
    "tx (sock strm'') = tx sk @ status_line (res_status res') @ concat (map header_line hs') @ CRLF @ res_body res'"
    "release res2 w' = w'" "hs' = sent_headers engine svr close req res'"
    using routed_plain [of ?x engine shut env regex built startAt close] assms(10,13) fs live
    unfolding svr_def res_def by (auto simp: Response_default_def)
  show ?thesis unfolding process_request_plain [OF assms(7,8)] res_def [symmetric] strm_def [symmetric] route w(1) obind.simps prod.case
    using w(2-4) up assms(10)
    by (intro exI [of _ "wants_close ((parsed_request ''POST'' (file_target a r f))\<lparr> req_headers := hs \<rparr>)"]
        exI [of _ strm''] exI [of _ hs'] conjI exI [of _ req]) simp_all
qed

lemma upload_run:
  fixes env :: "('s, 'v) frs_env" and regex built startAt
  defines "svr \<equiv> frs_server env regex built startAt"
  assumes "shell_ok (env_popen env)" "upload_place (w_fs w) (cache_root @ [a, r]) f"
    and "head_arrives sk (request_head ''POST'' (file_target a r f) hs) first segs"
    and "plain_request cn ''POST'' (file_target a r f) hs" "waiting_peer sk"
    and "form_body svr (seen_request cn ''POST'' (file_target a r f) hs) first segs m c"
    and "mfd_content_type m = CONTENT_TYPE_APP_OCTET"
  shows "\<exists>closed w' strm' (res :: 's response) hs'. process_request engine shut svr cn \<lparr> sock = sk, read_buff = [] \<rparr> close w =
      Returns (True, closed, w', strm') \<and>
    tx (sock strm') = tx sk @ status_line (res_status res) @ concat (map header_line hs') @ CRLF @ res_body res \<and>
    w_s3 w' = w_s3 w \<and>
    upload_result (fs_content (w_fs w)) (cache_root @ [a, r]) f
      ((case fs_content (w_fs w) (cache_root @ [a, r, f @ ''.tmp'']) of None \<Rightarrow> [] | Some old \<Rightarrow> old) @ c) res (fs_content (w_fs w')) \<and>
    upload_response env res \<and> (\<exists>req. req_method req = ''POST'' \<and> req_ranges req = [] \<and>
      req_headers req = req_headers (seen_request cn ''POST'' (file_target a r f) hs) \<and> hs' = sent_headers engine svr close req res)"
proof -
  let ?req = "seen_request cn ''POST'' (file_target a r f) hs"
  let ?req' = "?req\<lparr> req_path_params := [''apptype'' \<mapsto> a, ''restype'' \<mapsto> r, ''filename'' \<mapsto> f] \<rparr>"
  let ?res = "Response_default\<lparr> res_version := ''HTTP/1.1'', res_headers := default_headers svr \<rparr>"
  let ?strm = "\<lparr> sock = sk\<lparr> rx := [] # segs \<rparr>, read_buff = first \<rparr>"
  have sn: "safe_name a" "safe_name r" "safe_name f" using assms(3) by (auto simp: upload_place_def)
  have mp: "is_multipart_form_data ?req'" using assms(7) by (auto simp: form_body_def)
  have par: "req_path_params ?req' ''apptype'' = Some a" "req_path_params ?req' ''restype'' = Some r"
    "req_path_params ?req' ''filename'' = Some f" by simp_all
  note fa = form_body_at [OF assms(7), where sk = sk and res = ?res and p = "[''apptype'' \<mapsto> a, ''restype'' \<mapsto> r, ''filename'' \<mapsto> f]"]
  obtain res' w' st' where u: "FileUploadCallback env (server_reader svr) ?req' ?res w (?strm, ?req', ?res) = Returns (res', w', st')"
    "reader_after (?strm, ?req', ?res) st'" "w_s3 w' = w_s3 w"
    "upload_result (fs_content (w_fs w)) (cache_root @ [a, r]) f
      ((case fs_content (w_fs w) (cache_root @ [a, r, f @ ''.tmp'']) of None \<Rightarrow> [] | Some old \<Rightarrow> old) @ c) res' (fs_content (w_fs w'))"
    using server_forms.form_upload [OF assms(2,3) par mp assms(8) fa, of ?res]
    by simp blast
  have st: "res_status res' \<in> {200, 400}" using u(4) by (auto simp: upload_result_def split: if_splits)
  from upload_answered [OF sn assms(4-6) refl u(1) [unfolded svr_def] u(2) [unfolded svr_def] st, of engine shut close] u(3,4)
  show ?thesis unfolding svr_def by blast
qed

text \<open>
  C1. An upload over HTTP, from the bytes on the connection to the bytes of the answer: a POST of a form
  with one octet-stream part to \<^verbatim>\<open>/api/v1/apptype/restype/filename\<close>, with safe names, which arrives in any
  segments that do not cut the opening delimiter of the form, behind headers that name the length of the body.
  If a file of that name is in the cache, the server answers 400 and changes no file.  Otherwise it answers 200
  and the cache then holds the content of the part (after what a temporary file of the name held) under the
  name, without a temporary file, if its MD5 digest is the name; else it answers 400 and the content is left in
  the temporary file.  No other file of the cache and nothing in the store changes.  The interface document
  asks for status 401 where this answers 400.
\<close>

theorem upload_over_http:
  fixes env :: "('s, 'v) frs_env" and regex built startAt
  defines "svr \<equiv> frs_server env regex built startAt"
  assumes "shell_ok (env_popen env)" "upload_dir (w_fs w) (cache_root @ [a, r]) f"
    and "head_arrives sk (request_head ''POST'' (file_target a r f) hs) first segs"
    and "plain_request cn ''POST'' (file_target a r f) hs" "waiting_peer sk"
    and "form_body svr (seen_request cn ''POST'' (file_target a r f) hs) first segs m c"
    and "mfd_content_type m = CONTENT_TYPE_APP_OCTET"
  shows "\<exists>closed w' strm' (res :: 's response) hs'. process_request engine shut svr cn \<lparr> sock = sk, read_buff = [] \<rparr> close w =
      Returns (True, closed, w', strm') \<and>
    tx (sock strm') = tx sk @ status_line (res_status res) @ concat (map header_line hs') @ CRLF @ res_body res \<and>
    w_s3 w' = w_s3 w \<and>
    upload_answer (fs_content (w_fs w)) (cache_root @ [a, r]) f
      ((case fs_content (w_fs w) (cache_root @ [a, r, f @ ''.tmp'']) of None \<Rightarrow> [] | Some old \<Rightarrow> old) @ c) res (fs_content (w_fs w'))"
proof (cases "fs_content (w_fs w) (cache_root @ [a, r, f])")
  case None
  then have "upload_place (w_fs w) (cache_root @ [a, r]) f" using assms(3) by (simp add: upload_place_dir)
  note run = upload_run [OF assms(2) this assms(4-6) assms(7) [unfolded svr_def] assms(8), of engine shut close]
  have "fs_content (w_fs w) ((cache_root @ [a, r]) @ [f]) = None" using None by simp
  then show ?thesis using run unfolding svr_def by (subst upload_answer_free) blast+
next
  case (Some d)
  have sn: "safe_name a" "safe_name r" "safe_name f" using assms(3) by (auto simp: upload_dir_def)
  let ?req = "(seen_request cn ''POST'' (file_target a r f) hs)\<lparr> req_path_params := [''apptype'' \<mapsto> a, ''restype'' \<mapsto> r, ''filename'' \<mapsto> f] \<rparr>"
  let ?res = "Response_default\<lparr> res_version := ''HTTP/1.1'', res_headers := default_headers svr \<rparr>"
  let ?st = "(\<lparr> sock = sk\<lparr> rx := [] # segs \<rparr>, read_buff = first \<rparr>, ?req, ?res)"
    and ?res' = "SetResponseMsg env ?res 400 (- 2) ''file exist''"
  from FileUpload_refused [OF assms(2,3) Some, of ?req "server_reader svr" ?res ?st] obtain w' where
    u: "FileUploadCallback env (server_reader svr) ?req ?res w ?st = Returns (SetResponseMsg env ?res 400 (- 2) ''file exist'', w', ?st)"
    "w_s3 w' = w_s3 w" "fs_content (w_fs w') = fs_content (w_fs w)" by auto
  have "reader_after ?st ?st" by (simp add: reader_after_def)
  from upload_answered [OF sn assms(4-6) refl u(1) [unfolded svr_def] this [unfolded svr_def], of engine shut close]
  have "\<exists>closed strm' hs'. process_request engine shut svr cn \<lparr> sock = sk, read_buff = [] \<rparr> close w = Returns (True, closed, w', strm') \<and>
      tx (sock strm') = tx sk @ status_line (res_status ?res') @ concat (map header_line hs') @ CRLF @ res_body ?res'"
    unfolding svr_def SetResponseMsg_status by blast
  moreover have "upload_answer (fs_content (w_fs w)) (cache_root @ [a, r]) f t ?res' (fs_content (w_fs w'))" for t
    using Some u(3) by (simp add: upload_answer_def)
  ultimately show ?thesis using u(2) by blast
qed


lemma get_routing:
  fixes env :: "('s, 'v) frs_env" and regex built startAt
  defines "svr \<equiv> frs_server env regex built startAt"
  assumes "req_method req \<in> {''GET'', ''HEAD''}" "req_path req = file_target a r f" "no_slash a" "no_slash r" "no_slash f"
    and "req' = req\<lparr> req_path_params := [''apptype'' \<mapsto> a, ''restype'' \<mapsto> r, ''filename'' \<mapsto> f] \<rparr>"
    and "FileGetHeadCallback env req' res w = Returns (res', w')"
  shows "routing svr \<lparr> x_strm = strm, x_req = req, x_res = res, x_world = w \<rparr> =
    Done True \<lparr> x_strm = strm, x_req = req', x_res = res', x_world = w' \<rparr>"
  using assms file_route_match [OF assms(3-6), of regex]
  by (auto simp: routing_def expect_content_def handle_file_request_def dispatch_regular_def regular_handlers_def dispatch_request_def)

text \<open>A routed response with a chunked provider that delivers \<open>c\<close>.\<close>

lemma routed_chunked:
  fixes env :: "('s, 'v) frs_env" and regex built startAt
  defines "svr \<equiv> frs_server env regex built startAt"
  assumes "res_status (x_res x) = - 1" "serves_file (x_res x) p" "res_body (x_res x) = []" "res_resource_releaser (x_res x) = None"
    and "req_ranges (x_req x) = []" "req_method (x_req x) \<noteq> ''HEAD''" "socket_live (x_strm x)"
    and "stat (w_fs (x_world x)) p = Some (Reg c)" "c \<noteq> []"
  shows "\<exists>res strm hs body. routed_response engine (\<lambda>_. False) svr close (Done True x) = Returns (True, res, x_world x, strm) \<and>
    tx (sock strm) = tx (sock (x_strm x)) @ status_line 200 @ concat (map header_line hs) @ CRLF @ body \<and>
    chunked_body c body \<and> release res (x_world x) = x_world x \<and>
    hs = sent_headers engine svr close (x_req x) ((x_res x)\<lparr> res_status := 200 \<rparr>)"
proof -
  let ?res = "(x_res x)\<lparr> res_status := 200 \<rparr>"
  have ps: "plain_server svr" by (simp add: svr_def)
  have k: "kept_response svr (x_req x) ?res (x_world x)" unfolding svr_def by (rule error_handler_keeps) simp
  from write_response_plain [OF ps k assms(6) _ assms(8), of engine "\<lambda>_. False" close True] obtain res hs strm1 where
    r: "res_body res = []" "res_content_provider res = Some (ContentProviderAdapter (download_provider p))"
     "res_is_chunked_content_provider res" "res_content_length res = 0" "res_resource_releaser res = None" "socket_live strm1"
     "tx (sock strm1) = tx (sock (x_strm x)) @ status_line 200 @ concat (map header_line hs) @ CRLF"
     "write_response_core engine (\<lambda>_. False) svr (x_strm x) close (x_req x) ?res (x_world x) True =
       obind (or_diverges (write_body (\<lambda>_. False) strm1 (x_req x) res (x_world x) [] []))
         (\<lambda>(ret, res5, strm2). Returns (ret, res5, x_world x, strm2))"
     "hs = sent_headers engine svr close (x_req x) ?res"
    using assms(3-5) by (auto simp: serves_file_def)
  from serves_file_chunks [OF assms(9,10) r(6)] obtain strm2 body where
    s: "write_content_chunked socket_is_writable socket_write strm1 (ContentProviderAdapter (download_provider p)) (x_world x)
          (\<lambda>_. False) nocompressor = Some (True, Success, strm2)" "tx (sock strm2) = tx (sock strm1) @ body" "chunked_body c body" by blast
  let ?res' = "res\<lparr> res_content_provider_success := True \<rparr>"
  have "write_body (\<lambda>_. False) strm1 (x_req x) res (x_world x) [] [] = Some (True, ?res', strm2)"
    using s(1) r(1-4) assms(7) by (simp add: write_body_def write_content_with_provider_def)
  then have "routed_response engine (\<lambda>_. False) svr close (Done True x) = Returns (True, ?res', x_world x, strm2)"
    using r(8) assms(2,6) by (simp add: routed_response_def write_response_with_content_def or_diverges_def Let_def)
  then show ?thesis using s(2,3) r(5,7,9)
    by (intro exI [of _ ?res'] exI [of _ strm2] exI [of _ hs] exI [of _ body]) (simp add: release_def)
qed

text \<open>The headers that the download handler sets, and what the chunked provider leaves of the response.\<close>

definition download_response :: "string \<Rightarrow> 's response \<Rightarrow> bool" where
  "download_response f res \<longleftrightarrow> res_body res = [] \<and> res_content_length res = 0 \<and> res_content_provider res \<noteq> None \<and>
     res_is_chunked_content_provider res \<and>
     res_headers res = res_headers (set_header (set_header (set_header (Response_default :: 's response) ''Cache-Control'' ''no-cache'')
       ''Content-Disposition'' (''attachment; filename='' @ f)) ''Content-Type'' ''application/octet-stream'')"

lemma download_run:
  fixes env :: "('s, 'v) frs_env" and regex built startAt
  defines "svr \<equiv> frs_server env regex built startAt"
  assumes "safe_name a" "safe_name r" "safe_name f" "find_sub f ''.metadata'' 0 = None"
    and "head_arrives sk (request_head ''GET'' (file_target a r f) hs) [] segs"
    and "plain_request cn ''GET'' (file_target a r f) hs" "waiting_peer sk"
    and "stat (w_fs w) (cache_file a r f) = Some (Reg c)" "c \<noteq> []"
  shows "\<exists>closed strm' hs' body. process_request engine (\<lambda>_. False) svr cn \<lparr> sock = sk, read_buff = [] \<rparr> close w =
      Returns (True, closed, w, strm') \<and>
    tx (sock strm') = tx sk @ status_line 200 @ concat (map header_line hs') @ CRLF @ body \<and>
    chunked_body c body \<and> (\<exists>req res. download_response f res \<and> req_method req = ''GET'' \<and> req_ranges req = [] \<and>
      req_headers req = req_headers (seen_request cn ''GET'' (file_target a r f) hs) \<and> hs' = sent_headers engine svr close req res)"
proof -
  let ?req = "seen_request cn ''GET'' (file_target a r f) hs"
  let ?req' = "?req\<lparr> req_path_params := [''apptype'' \<mapsto> a, ''restype'' \<mapsto> r, ''filename'' \<mapsto> f] \<rparr>"
  let ?res = "Response_default\<lparr> res_version := ''HTTP/1.1'', res_headers := default_headers svr \<rparr>"
  let ?strm = "\<lparr> sock = sk\<lparr> rx := [] # segs \<rparr>, read_buff = [] \<rparr>"
  have "NUL \<notin> set f" using assms(4) by (auto simp: safe_name_def list_all_iff c_isalnum_def c_isdigit_def c_isupper_def c_islower_def)
  then have pg: "plain_get ?req' a r f" using assms(5) by (simp add: plain_get_def route_of_def)
  obtain res' where g: "FileGetHeadCallback env ?req' ?res w = Returns (res', w)" "serves_file res' (cache_file a r f)"
    "res_status res' = - 1" "res_body res' = []" "res_resource_releaser res' = None"
    "download_response f (res'\<lparr> res_status := 200 \<rparr>)"
    using pg assms(9) by (simp add: FileGet_eq [OF pg] FileChunkedDownloadCallback_def handler_defs plain_get_def route_of_def)
      (simp add: set_chunked_content_provider_def Response_default_def download_response_def svr_def set_header_def)
  let ?x = "\<lparr> x_strm = ?strm, x_req = ?req', x_res = res', x_world = w \<rparr>"
  have route: "routing svr \<lparr> x_strm = ?strm, x_req = ?req, x_res = ?res, x_world = w \<rparr> = Done True ?x"
    unfolding svr_def by (rule get_routing) (use g(1) safe_target [OF assms(2-4)] in \<open>simp_all add: svr_def\<close>)
  have live: "socket_live ?strm" using waiting_live [OF assms(8), of ?strm] by simp
  obtain res strm'' hs' body where w: "routed_response engine (\<lambda>_. False) svr close (Done True ?x) = Returns (True, res, w, strm'')"
    "tx (sock strm'') = tx sk @ status_line 200 @ concat (map header_line hs') @ CRLF @ body" "release res w = w" "chunked_body c body"
    "hs' = sent_headers engine svr close ?req' (res'\<lparr> res_status := 200 \<rparr>)"
    using routed_chunked [of ?x "cache_file a r f" c engine env regex built startAt close] g live assms(9,10)
    unfolding svr_def by auto
  show ?thesis unfolding process_request_plain [OF assms(6,7)] route w(1) obind.simps prod.case w(3)
    using w(2,4,5) g(6)
    by (intro exI [of _ "wants_close ((parsed_request ''GET'' (file_target a r f))\<lparr> req_headers := hs \<rparr>)"]
        exI [of _ strm''] exI [of _ hs'] exI [of _ body] conjI exI [of _ ?req'] exI [of _ "res'\<lparr> res_status := 200 \<rparr>"]) simp_all
qed

text \<open>
  C4. A download over HTTP: a GET of a cached, non-empty file whose name does not contain
  \<^verbatim>\<open>.metadata\<close>, arriving in any segments, is answered with status 200 and a chunked body which a client, however the bytes are cut into segments, decodes to
  exactly the content of the file; cache and store are not touched.
\<close>

theorem download_over_http:
  fixes env :: "('s, 'v) frs_env" and regex built startAt
  defines "svr \<equiv> frs_server env regex built startAt"
  assumes "safe_name a" "safe_name r" "safe_name f" "find_sub f ''.metadata'' 0 = None"
    and "head_arrives sk (request_head ''GET'' (file_target a r f) hs) [] segs"
    and "plain_request cn ''GET'' (file_target a r f) hs" "waiting_peer sk"
    and "stat (w_fs w) (cache_file a r f) = Some (Reg c)" "c \<noteq> []"
  shows "\<exists>closed strm' hs' body. process_request engine (\<lambda>_. False) svr cn \<lparr> sock = sk, read_buff = [] \<rparr> close w =
      Returns (True, closed, w, strm') \<and>
    tx (sock strm') = tx sk @ status_line 200 @ concat (map header_line hs') @ CRLF @ body \<and>
    (\<forall>peer rest hs. socket_pending peer = body @ rest \<longrightarrow>
       (\<exists>peer'. read_content_chunked socket_read peer hs append_receiver [] = Some (True, hs, c, peer') \<and> socket_pending peer' = rest))"
proof -
  from download_run [OF assms(2-10), of engine env regex built startAt close] obtain closed strm' hs' body where
    "process_request engine (\<lambda>_. False) svr cn \<lparr> sock = sk, read_buff = [] \<rparr> close w = Returns (True, closed, w, strm')"
    "tx (sock strm') = tx sk @ status_line 200 @ concat (map header_line hs') @ CRLF @ body" "chunked_body c body"
    unfolding svr_def by blast
  then show ?thesis using chunked_body_read [of c body]
    by (intro exI [of _ closed] exI [of _ strm'] exI [of _ hs'] exI [of _ body]) simp
qed


section \<open>Responses without a body\<close>

lemma routed_bare:
  fixes env :: "('s, 'v) frs_env" and regex built startAt
  defines "svr \<equiv> frs_server env regex built startAt"
  assumes "(if res_status (x_res x) = - 1 then if routed then 200 else 404 else res_status (x_res x)) = c" "c \<in> {200, 400, 404}"
    and "res_content_provider (x_res x) = None" "res_resource_releaser (x_res x) = None"
    and "req_ranges (x_req x) = []" "req_method (x_req x) = ''HEAD'' \<or> res_body (x_res x) = []" "socket_live (x_strm x)"
  shows "\<exists>res strm hs. routed_response engine shut svr close (Done routed x) = Returns (True, res, x_world x, strm) \<and>
    tx (sock strm) = tx (sock (x_strm x)) @ status_line c @ concat (map header_line hs) @ CRLF \<and>
    release res (x_world x) = x_world x"
proof -
  let ?res = "(x_res x)\<lparr> res_status := c \<rparr>"
  have ps: "plain_server svr" by (simp add: svr_def)
  have k: "kept_response svr (x_req x) ?res (x_world x)" unfolding svr_def by (rule error_handler_keeps) (use assms(3) in simp)
  have ne: "res_status ?res \<noteq> - 1" using assms(3) by auto
  from write_response_plain [OF ps k assms(6) ne assms(8), of engine shut close routed] obtain res hs strm1 where
    r: "res_body res = res_body (x_res x)" "res_content_provider res = None" "res_resource_releaser res = None"
     "tx (sock strm1) = tx (sock (x_strm x)) @ status_line c @ concat (map header_line hs) @ CRLF"
     "write_response_core engine shut svr (x_strm x) close (x_req x) ?res (x_world x) routed =
       obind (or_diverges (write_body shut strm1 (x_req x) res (x_world x) [] []))
         (\<lambda>(ret, res5, strm2). Returns (ret, res5, x_world x, strm2))"
    using assms(4,5) by auto
  have s: "write_body shut strm1 (x_req x) res (x_world x) [] [] = Some (True, res, strm1)"
    using assms(7) r(1,2) by (auto simp: write_body_def)
  have e: "(if res_status (x_res x) = - 1 then (x_res x)\<lparr> res_status := if \<not> routed then 404 else if req_ranges (x_req x) = [] then 200 else 206 \<rparr>
      else x_res x) = ?res" using assms(2,6) by auto
  have "routed_response engine shut svr close (Done routed x) = Returns (True, res, x_world x, strm1)"
    unfolding routed_response_def Let_def step.case e
    using r(5) s by (cases routed) (simp_all add: write_response_with_content_def write_response_def or_diverges_def)
  then show ?thesis using r(3,4) by (intro exI [of _ res] exI [of _ strm1] exI [of _ hs]) (simp add: release_def)
qed

text \<open>
  C8. A HEAD request over HTTP for a cached file with metadata: the handler builds a response whose
  body holds the metadata, but what arrives is the status line and the headers only, whatever the
  metadata are, so a client cannot read them this way.
\<close>

theorem head_over_http:
  fixes env :: "('s, 'v) frs_env" and regex built startAt
  defines "svr \<equiv> frs_server env regex built startAt"
  assumes "safe_name a" "safe_name r" "safe_name f"
    and "head_arrives sk (request_head ''HEAD'' (file_target a r f) hs) [] segs"
    and "plain_request cn ''HEAD'' (file_target a r f) hs" "waiting_peer sk"
    and "stat (w_fs w) (cache_file a r f @ ''.metadata'') = Some (Reg meta)"
  shows "\<exists>closed strm' hs'. process_request engine shut svr cn \<lparr> sock = sk, read_buff = [] \<rparr> close w =
      Returns (True, closed, w, strm') \<and>
    tx (sock strm') = tx sk @ status_line 200 @ concat (map header_line hs') @ CRLF"
proof -
  let ?req = "seen_request cn ''HEAD'' (file_target a r f) hs"
  let ?req' = "?req\<lparr> req_path_params := [''apptype'' \<mapsto> a, ''restype'' \<mapsto> r, ''filename'' \<mapsto> f] \<rparr>"
  let ?res = "Response_default\<lparr> res_version := ''HTTP/1.1'', res_headers := default_headers svr \<rparr>"
  let ?strm = "\<lparr> sock = sk\<lparr> rx := [] # segs \<rparr>, read_buff = [] \<rparr>"
  let ?res' = "respond_metadata env ?res (w_fs w) (cache_file a r f @ ''.metadata'')"
  have g: "FileGetHeadCallback env ?req' ?res w = Returns (?res', w)"
    using assms(8) by (simp add: FileGetHeadCallback_def FileHeadCallback_def handler_defs)
  have f: "res_status ?res' = 200" "res_content_provider ?res' = None" "res_resource_releaser ?res' = None"
    by (simp_all add: respond_metadata_def SetResponseMsgWithData_def set_content_def Response_default_def Let_def split: prod.splits)
  let ?x = "\<lparr> x_strm = ?strm, x_req = ?req', x_res = ?res', x_world = w \<rparr>"
  have route: "routing svr \<lparr> x_strm = ?strm, x_req = ?req, x_res = ?res, x_world = w \<rparr> = Done True ?x"
    unfolding svr_def by (rule get_routing) (use g safe_target [OF assms(2-4)] in \<open>simp_all add: svr_def\<close>)
  have live: "socket_live ?strm" using waiting_live [OF assms(7), of ?strm] by simp
  obtain res strm'' hs' where w: "routed_response engine shut svr close (Done True ?x) = Returns (True, res, w, strm'')"
    "tx (sock strm'') = tx sk @ status_line 200 @ concat (map header_line hs') @ CRLF" "release res w = w"
    using routed_bare [of ?x True 200 engine shut env regex built startAt close] f live unfolding svr_def by auto
  show ?thesis unfolding process_request_plain [OF assms(5,6)] route w(1) obind.simps prod.case w(3)
    using w(2) by (intro exI [of _ "wants_close ((parsed_request ''HEAD'' (file_target a r f))\<lparr> req_headers := hs \<rparr>)"]
        exI [of _ strm''] exI [of _ hs']) simp
qed

text \<open>
  C25. A GET of a path that no route of the program matches, arriving in any segments, is answered with status 404
  and an empty body, because the error handler of the program leaves a 404 as it is; cache and store are not
  touched.  The interface document lists status 400 for a path that does not exist, and a result in JSON in
  the body of every answer; the code gives neither.
\<close>

theorem unknown_path_over_http:
  fixes env :: "('s, 'v) frs_env" and regex built startAt
  defines "svr \<equiv> frs_server env regex built startAt"
  assumes "head_arrives sk (request_head ''GET'' target hs) [] segs" "plain_request cn ''GET'' target hs" "waiting_peer sk"
    and "\<forall>p \<in> {FILE_ROUTE, TEMP_ROUTE, ''/version'', ''/test/:apptype/:restype''}. \<forall>req.
      req_path req = target \<longrightarrow> \<not> fst (match_request regex (make_matcher p) req)"
  shows "\<exists>closed strm' hs'. process_request engine shut svr cn \<lparr> sock = sk, read_buff = [] \<rparr> close w =
      Returns (True, closed, w, strm') \<and>
    tx (sock strm') = tx sk @ status_line 404 @ concat (map header_line hs') @ CRLF"
proof -
  let ?req = "seen_request cn ''GET'' target hs"
  let ?res = "Response_default\<lparr> res_version := ''HTTP/1.1'', res_headers := default_headers svr \<rparr>"
  let ?strm = "\<lparr> sock = sk\<lparr> rx := [] # segs \<rparr>, read_buff = [] \<rparr>"
  have find: "\<exists>P. find_handler regex ms req = (None, req\<lparr> req_path_params := P \<rparr>)"
    if "\<forall>m \<in> set ms. \<forall>req. req_path req = target \<longrightarrow> \<not> fst (match_request regex (fst m) req)" "req_path req = target" for ms req
    using that
  proof (induction ms arbitrary: req)
    case Nil
    have "req = req\<lparr> req_path_params := req_path_params req \<rparr>" by simp
    then show ?case by (metis find_handler.simps(1))
  next
    case (Cons m ms)
    obtain P where P: "match_request regex (fst m) req = (False, req\<lparr> req_path_params := P \<rparr>)"
      using Cons.prems by (cases "fst m") (fastforce simp: match_request_def split: prod.splits)+
    have "req_path (req\<lparr> req_path_params := P \<rparr>) = target" using Cons.prems(2) by simp
    from Cons.IH [OF _ this] Cons.prems(1) obtain Q where
      "find_handler regex ms (req\<lparr> req_path_params := P \<rparr>) = (None, req\<lparr> req_path_params := Q \<rparr>)" by auto
    then show ?case using P by (cases m) auto
  qed
  obtain P where P: "find_handler regex (get_handlers svr) ?req = (None, ?req\<lparr> req_path_params := P \<rparr>)"
    using find [of "get_handlers svr" ?req] assms(5) by (auto simp: svr_def)
  let ?x = "\<lparr> x_strm = ?strm, x_req = ?req\<lparr> req_path_params := P \<rparr>, x_res = ?res, x_world = w \<rparr>"
  have route: "routing svr \<lparr> x_strm = ?strm, x_req = ?req, x_res = ?res, x_world = w \<rparr> = Done False ?x"
    using P unfolding svr_def
    by (simp add: routing_def expect_content_def handle_file_request_def dispatch_regular_def regular_handlers_def dispatch_request_def)
  have live: "socket_live ?strm" using waiting_live [OF assms(4), of ?strm] by simp
  obtain res strm'' hs' where w: "routed_response engine shut svr close (Done False ?x) = Returns (True, res, w, strm'')"
    "tx (sock strm'') = tx sk @ status_line 404 @ concat (map header_line hs') @ CRLF" "release res w = w"
    using routed_bare [of ?x False 404 engine shut env regex built startAt close] live
    unfolding svr_def by (auto simp: Response_default_def)
  show ?thesis unfolding process_request_plain [OF assms(2,3)] route w(1) obind.simps prod.case w(3)
    using w(2) by (intro exI [of _ "wants_close ((parsed_request ''GET'' target)\<lparr> req_headers := hs \<rparr>)"]
        exI [of _ strm''] exI [of _ hs']) simp
qed


section \<open>Exchanges of a peer\<close>

text \<open>The connection of a peer, and requests on it.\<close>

definition demo_connection :: connection where
  "demo_connection = \<lparr> cn_fd = 5, cn_remote = (''10.0.0.2'', 40000), cn_local = (''10.0.0.1'', 8000) \<rparr>"

definition peer_socket :: "string list \<Rightarrow> socket" where
  "peer_socket segs = \<lparr> rx = segs, rx_end = PeerSilent, tx = [], tx_quota = None, tx_max = 100 \<rparr>"


lemma demo_addresses: "dec_int 40000 = ''40000''" "dec_int 8000 = ''8000''"
  by (simp_all add: dec_int_def radix.simps [of 10] hex_digit_def char_of_def bit_0)

lemmas header_eval = mm_equal_range_def mm_equiv_def mm_sorted_def ci_def c_tolower_def c_isupper_def has_crlf_def

lemma demo_headers:
  "req_headers (seen_request demo_connection me t [(''Host'', ''frs'')]) =
     [(''Host'', ''frs''), (''LOCAL_ADDR'', ''10.0.0.1''), (''LOCAL_PORT'', ''8000''), (''REMOTE_ADDR'', ''10.0.0.2''),
      (''REMOTE_PORT'', ''40000'')]"
  by (simp add: seen_request_def add_addresses_def req_set_header_def demo_connection_def demo_addresses header_eval)

lemma demo_requests_plain:
  "plain_request demo_connection ''GET'' (file_target ''im'' ''pic'' ''a'') [(''Host'', ''frs'')]"
  "plain_request demo_connection ''HEAD'' (file_target ''im'' ''pic'' ''a'') [(''Host'', ''frs'')]"
  "plain_request demo_connection ''GET'' ''/none'' [(''Host'', ''frs'')]"
  unfolding plain_request_def req_has_header_def req_get_header_value_def demo_headers
  by (simp_all add: demo_connection_def FD_SETSIZE_def request_methods_def plain_target_def file_target_def
      wire_header_def is_space_or_tab_def REQUEST_URI_MAX_LENGTH_def request_line_def has_header_def get_header_value_def header_eval)

lemma demo_head_arrives:
  "t \<in> {''/none'', file_target ''im'' ''pic'' ''a''} \<Longrightarrow> me \<in> {''GET'', ''HEAD''} \<Longrightarrow>
   head_arrives (peer_socket [request_head me t [(''Host'', ''frs'')]]) (request_head me t [(''Host'', ''frs'')]) [] []"
  by (rule head_arrives_at_once) (auto simp: peer_socket_def request_head_def request_line_def file_target_def read_buff_size_def header_line_def)

lemma demo_waiting: "waiting_peer (peer_socket segs)" by (simp add: waiting_peer_def peer_socket_def)

theorem download_over_http_witness:
  "\<exists>closed strm' hs' body. process_request (\<lambda>_. 0) (\<lambda>_. False) (frs_server demo_env (\<lambda>_ _. False) [] []) demo_connection
      \<lparr> sock = peer_socket [request_head ''GET'' (file_target ''im'' ''pic'' ''a'') [(''Host'', ''frs'')]], read_buff = [] \<rparr> False
      (demo_cache [(''a'', Reg ''data'')]) = Returns (True, closed, demo_cache [(''a'', Reg ''data'')], strm') \<and>
    tx (sock strm') = status_line 200 @ concat (map header_line hs') @ CRLF @ body \<and>
    (\<exists>peer. read_content_chunked socket_read \<lparr> sock = peer_socket [body], read_buff = [] \<rparr> [] append_receiver [] =
       Some (True, [], ''data'', peer))"
proof -
  have st: "stat (w_fs (demo_cache [(''a'', Reg ''data'')])) (cache_file ''im'' ''pic'' ''a'') = Some (Reg ''data'')"
    using stat_file_key [OF demo_cache_key, of "[(''a'', Reg ''data'')]" "''a''"] plain_a demo_cache_simps(2) by simp
  have sn: "safe_name ''im''" "safe_name ''pic''" "safe_name ''a''" "find_sub ''a'' ''.metadata'' 0 = None"
    by (simp_all add: safe_name_def c_isalnum_def c_isdigit_def c_isupper_def c_islower_def find_sub_def)
  have h: "head_arrives (peer_socket [request_head ''GET'' (file_target ''im'' ''pic'' ''a'') [(''Host'', ''frs'')]])
      (request_head ''GET'' (file_target ''im'' ''pic'' ''a'') [(''Host'', ''frs'')]) [] []"
    by (rule demo_head_arrives) simp_all
  have tx: "tx (peer_socket segs) = []" and pend: "socket_pending \<lparr> sock = peer_socket [x], read_buff = [] \<rparr> = x @ []" for segs x
    by (simp_all add: peer_socket_def socket_pending_def)
  note d = download_over_http [OF sn h demo_requests_plain(1) demo_waiting st, of "\<lambda>_. 0" demo_env "\<lambda>_ _. False" "[]" "[]" False]
  obtain closed strm' hs' body where e: "process_request (\<lambda>_. 0) (\<lambda>_. False) (frs_server demo_env (\<lambda>_ _. False) [] []) demo_connection
      \<lparr> sock = peer_socket [request_head ''GET'' (file_target ''im'' ''pic'' ''a'') [(''Host'', ''frs'')]], read_buff = [] \<rparr> False
      (demo_cache [(''a'', Reg ''data'')]) = Returns (True, closed, demo_cache [(''a'', Reg ''data'')], strm')"
    "tx (sock strm') = [] @ status_line 200 @ concat (map header_line hs') @ CRLF @ body"
    "\<And>peer rest hs. socket_pending peer = body @ rest \<Longrightarrow>
       (\<exists>peer'. read_content_chunked socket_read peer hs append_receiver [] = Some (True, hs, ''data'', peer') \<and> socket_pending peer' = rest)"
    using d unfolding tx by blast
  from e(3) [OF pend, of "[]"] obtain peer where
    "read_content_chunked socket_read \<lparr> sock = peer_socket [body], read_buff = [] \<rparr> [] append_receiver [] = Some (True, [], ''data'', peer)"
    by blast
  with e(1,2) show ?thesis by (metis append_Nil)
qed


abbreviation form_headers :: headers where
  "form_headers \<equiv> [(''Content-Length'', ''58''), (''Content-Type'', ''multipart/form-data; boundary=b'')]"

abbreviation form_text :: string where
  "form_text \<equiv> multipart_body ''b'' [''Content-Type: application/octet-stream''] ''xy''"

lemma form_request_headers:
  "req_headers (seen_request demo_connection me t form_headers) =
     form_headers @ [(''LOCAL_ADDR'', ''10.0.0.1''), (''LOCAL_PORT'', ''8000''), (''REMOTE_ADDR'', ''10.0.0.2''),
      (''REMOTE_PORT'', ''40000'')]"
  by (simp add: seen_request_def add_addresses_def req_set_header_def demo_connection_def demo_addresses header_eval)

lemma form_request_fields:
  "is_multipart_form_data (seen_request demo_connection me t form_headers)"
  "req_get_header_value (seen_request demo_connection me t form_headers) ''Content-Type'' 0 = ''multipart/form-data; boundary=b''"
  unfolding is_multipart_form_data_def req_get_header_value_def form_request_headers
  by (simp_all add: get_header_value_def header_eval)

lemma form_text_length: "length form_text = 58"
  by (simp add: multipart_body_def header_lines_def)

lemma form_numbers: "strtoull_10 ''58'' = 58" "find_sub [] ''br'' 0 = None" "58 \<le> ULONG_MAX"
  subgoal by code_simp
  subgoal by code_simp
  subgoal by (simp add: ULONG_MAX_def)
  done

lemma form_request_sized:
  "sized_body (frs_server env regex built startAt) (seen_request demo_connection me t form_headers) form_text"
  unfolding sized_body_def form_text_length req_has_header_def form_request_headers
  by (simp add: has_header_def get_header_value_def header_eval prepare_content_receiver_def is_chunked_transfer_encoding_def
      get_header_value_u64_def form_numbers)

lemma form_arrives:
  "form_body (frs_server env regex built startAt) (seen_request demo_connection me t form_headers)
     (take 20 form_text) [drop 20 form_text] demo_part ''xy''"
  unfolding form_body_def
proof (intro exI conjI)
  show "is_multipart_form_data (seen_request demo_connection me t form_headers)" by (rule form_request_fields)
  show "parse_multipart_boundary (req_get_header_value (seen_request demo_connection me t form_headers) ''Content-Type'' 0) = Some ''b''"
    unfolding form_request_fields by code_simp
  show "sized_body (frs_server env regex built startAt) (seen_request demo_connection me t form_headers) form_text"
    by (rule form_request_sized)
  show "take 20 form_text @ concat [drop 20 form_text] = form_text @ []" by simp
  show "prefix (''--'' @ ''b'' @ CRLF) (first_piece (take 20 form_text) [drop 20 form_text])"
    by (simp add: multipart_body_def first_piece_def)
  show "length (''--'' @ ''b'' @ CRLF) \<le> RECV_BUFSIZ" by simp
  show "list_all line_ok [''Content-Type: application/octet-stream'']" by (simp add: line_ok_def)
  show "mp_header_fields [''Content-Type: application/octet-stream''] MultipartFormData_default = Some demo_part" by code_simp
  show "find_sub (''xy'' @ CRLF @ ''--'' @ ''b'') (CRLF @ ''--'' @ ''b'') 0 = Some (length ''xy'')" by code_simp
qed

lemma form_request_plain:
  "plain_request demo_connection ''POST'' (file_target ''im'' ''pic'' demo_digest) form_headers"
  unfolding plain_request_def req_has_header_def req_get_header_value_def form_request_headers
  using safe_target(1) [of "''im''" "''pic''" demo_digest] demo_digest_safe
  by (simp add: demo_connection_def FD_SETSIZE_def request_methods_def file_target_def safe_name_def c_isalnum_def c_isdigit_def c_islower_def
      wire_header_def is_space_or_tab_def REQUEST_URI_MAX_LENGTH_def request_line_def has_header_def get_header_value_def header_eval)


theorem upload_over_http_witness:
  "\<exists>closed w' strm' hs' body. process_request (\<lambda>_. 0) (\<lambda>_. False) (frs_server demo_env (\<lambda>_ _. False) [] []) demo_connection
      \<lparr> sock = peer_socket [request_head ''POST'' (file_target ''im'' ''pic'' demo_digest) form_headers @ take 20 form_text, drop 20 form_text],
        read_buff = [] \<rparr> False demo_world = Returns (True, closed, w', strm') \<and>
    tx (sock strm') = status_line 200 @ concat (map header_line hs') @ CRLF @ body \<and>
    fs_content (w_fs w') (cache_root @ [''im'', ''pic'', demo_digest]) = Some ''xy''"
proof -
  let ?sk = "peer_socket [request_head ''POST'' (file_target ''im'' ''pic'' demo_digest) form_headers @ take 20 form_text, drop 20 form_text]"
  have sh: "shell_ok (env_popen demo_env)" by (simp add: demo_env_def demo_shell_ok)
  have h: "head_arrives ?sk (request_head ''POST'' (file_target ''im'' ''pic'' demo_digest) form_headers) (take 20 form_text) [drop 20 form_text]"
    using demo_digest_safe(2) by (intro head_arrives_at_once) (simp_all add: peer_socket_def request_head_def request_line_def
        file_target_def read_buff_size_def header_line_def)
  have e: "fs_content (w_fs demo_world) q = None" for q
    by (cases q) (simp_all add: demo_world_def fs_content_def file_in_def)
  have tx: "tx (peer_socket segs) = []" for segs by (simp add: peer_socket_def)
  have ct: "mfd_content_type demo_part = CONTENT_TYPE_APP_OCTET" by simp
  have pl: "upload_dir (w_fs demo_world) (cache_root @ [''im'', ''pic'']) demo_digest" using demo_place(1) by (simp add: upload_place_dir)
  note u = upload_over_http [OF sh pl h form_request_plain demo_waiting form_arrives ct,
      of "\<lambda>_. 0" "\<lambda>_. False" "\<lambda>_ _. False" "[]" "[]" False]
  from u [unfolded e tx] obtain closed w' strm' and res :: "buckets response" and hs' where r:
    "process_request (\<lambda>_. 0) (\<lambda>_. False) (frs_server demo_env (\<lambda>_ _. False) [] []) demo_connection
       \<lparr> sock = ?sk, read_buff = [] \<rparr> False demo_world = Returns (True, closed, w', strm')"
    "tx (sock strm') = [] @ status_line (res_status res) @ concat (map header_line hs') @ CRLF @ res_body res"
    "upload_result (\<lambda>_. None) (cache_root @ [''im'', ''pic'']) demo_digest ''xy'' res (fs_content (w_fs w'))"
    by (auto simp: upload_answer_def)
  have "fs_content (w_fs demo_world) = (\<lambda>_. None)" using e by (rule ext)
  with r(3) demo_stored [of "cache_root @ [''im'', ''pic'']" res] have
    "res_status res = 200 \<and> fs_content (w_fs w') (cache_root @ [''im'', ''pic'', demo_digest]) = Some ''xy''" by simp
  with r(1,2) show ?thesis by (metis append_Nil)
qed

lemma demo_routes:
  "make_matcher TEMP_ROUTE = PathParamsMatcher [''/api/v1/temp/''] [''filename'']"
  "make_matcher ''/version'' = RegexMatcher ''/version''"
  "make_matcher ''/test/:apptype/:restype'' = PathParamsMatcher [''/test/'', []] [''apptype'', ''restype'']"
  unfolding TEMP_ROUTE_def by code_simp+

theorem head_over_http_witness:
  "\<exists>closed strm' hs'. process_request (\<lambda>_. 0) (\<lambda>_. False) (frs_server demo_env (\<lambda>_ _. False) [] []) demo_connection
      \<lparr> sock = peer_socket [request_head ''HEAD'' (file_target ''im'' ''pic'' ''a'') [(''Host'', ''frs'')]], read_buff = [] \<rparr> False
      (demo_cache [(''a.metadata'', Reg ''m'')]) = Returns (True, closed, demo_cache [(''a.metadata'', Reg ''m'')], strm') \<and>
    tx (sock strm') = status_line 200 @ concat (map header_line hs') @ CRLF"
proof -
  have sn: "safe_name ''im''" "safe_name ''pic''" "safe_name ''a''"
    by (simp_all add: safe_name_def c_isalnum_def c_isdigit_def c_isupper_def c_islower_def)
  have st: "stat (w_fs (demo_cache [(''a.metadata'', Reg ''m'')])) (cache_file ''im'' ''pic'' ''a'' @ ''.metadata'') = Some (Reg ''m'')"
    using stat_file_key [OF demo_cache_key, of "[(''a.metadata'', Reg ''m'')]" "''a.metadata''"] plain_a demo_cache_simps(2)
    by (simp add: cache_file_def)
  have tx: "tx (peer_socket segs) = []" for segs by (simp add: peer_socket_def)
  have h: "head_arrives (peer_socket [request_head ''HEAD'' (file_target ''im'' ''pic'' ''a'') [(''Host'', ''frs'')]])
      (request_head ''HEAD'' (file_target ''im'' ''pic'' ''a'') [(''Host'', ''frs'')]) [] []" by (rule demo_head_arrives) simp_all
  from head_over_http [OF sn h demo_requests_plain(2) demo_waiting st, of "\<lambda>_. 0" "\<lambda>_. False" demo_env "\<lambda>_ _. False" "[]" "[]" False]
  show ?thesis unfolding tx append_Nil by blast
qed

theorem unknown_path_over_http_witness:
  "\<exists>closed strm' hs'. process_request (\<lambda>_. 0) (\<lambda>_. False) (frs_server demo_env (\<lambda>_ _. False) [] []) demo_connection
      \<lparr> sock = peer_socket [request_head ''GET'' ''/none'' [(''Host'', ''frs'')]], read_buff = [] \<rparr> False demo_world =
      Returns (True, closed, demo_world, strm') \<and>
    tx (sock strm') = status_line 404 @ concat (map header_line hs') @ CRLF"
proof -
  have tx: "tx (peer_socket segs) = []" for segs by (simp add: peer_socket_def)
  have n: "\<forall>p \<in> {FILE_ROUTE, TEMP_ROUTE, ''/version'', ''/test/:apptype/:restype''}. \<forall>req.
      req_path req = ''/none'' \<longrightarrow> \<not> fst (match_request (\<lambda>_ _. False) (make_matcher p) req)"
    by (auto simp: file_route demo_routes match_request_def split: prod.splits)
  have h: "head_arrives (peer_socket [request_head ''GET'' ''/none'' [(''Host'', ''frs'')]])
      (request_head ''GET'' ''/none'' [(''Host'', ''frs'')]) [] []" by (rule demo_head_arrives) simp_all
  from unknown_path_over_http [OF h demo_requests_plain(3) demo_waiting n, of "\<lambda>_. 0" "\<lambda>_. False" demo_env "[]" "[]" False demo_world]
  show ?thesis unfolding tx append_Nil by blast
qed


end
