(* ===== verification/Http_Client.thy ===== *)
theory Http_Client
  imports Http_Server
begin

text \<open>
  The client of the HTTP library (\<^verbatim>\<open>ClientImpl\<close>, \<^verbatim>\<open>src/src/httplib.h\<close> lines 4150-4174, 5108-5116 and
  6625-8055) without TLS and compression, which are not compiled in.  Connecting and closing are the kernel's, so the
  network is a parameter: \<open>nw_dial\<close> is \<^verbatim>\<open>detail::create_client_socket\<close> with its host, address and port, and \<open>nw_close\<close>
  gets the socket back.  Callbacks of the caller share a state of type \<open>'c\<close>.  The logger sees an exchange
  and changes nothing of it; time-outs and socket options only reach the kernel.
\<close>

section \<open>Settings and state\<close>

definition CPPHTTPLIB_VERSION :: string where "CPPHTTPLIB_VERSION = ''0.14.2''"

definition REDIRECT_MAX_COUNT :: nat where "REDIRECT_MAX_COUNT = 20"

record client =
  cl_host :: string
  cl_port :: int
  cl_host_and_port :: string
  cl_addr_map :: "string \<Rightarrow> string option"
  cl_default_headers :: headers
  cl_header_writer :: "BufferStream \<Rightarrow> headers \<Rightarrow> int \<times> BufferStream"
  cl_basic_auth_username :: string
  cl_basic_auth_password :: string
  cl_bearer_token_auth_token :: string
  cl_keep_alive :: bool
  cl_follow_location :: bool
  cl_url_encode :: bool
  cl_compress :: bool
  cl_decompress :: bool
  cl_proxy_host :: string
  cl_proxy_port :: int
  cl_proxy_basic_auth_username :: string
  cl_proxy_basic_auth_password :: string
  cl_proxy_bearer_token_auth_token :: string

definition adjust_host_string :: "string \<Rightarrow> string" where
  "adjust_host_string host = (if CHR '':'' \<in> set host then ''['' @ host @ '']'' else host)"

definition ClientImpl :: "string \<Rightarrow> int \<Rightarrow> client" where
  "ClientImpl host port = \<lparr> cl_host = host, cl_port = port,
     cl_host_and_port = adjust_host_string host @ '':'' @ dec_int port,
     cl_addr_map = Map.empty, cl_default_headers = [], cl_header_writer = write_headers buffer_write,
     cl_basic_auth_username = [], cl_basic_auth_password = [], cl_bearer_token_auth_token = [],
     cl_keep_alive = False, cl_follow_location = False, cl_url_encode = True, cl_compress = False, cl_decompress = True,
     cl_proxy_host = [], cl_proxy_port = - 1, cl_proxy_basic_auth_username = [], cl_proxy_basic_auth_password = [],
     cl_proxy_bearer_token_auth_token = [] \<rparr>"

text \<open>The endpoint, the address map, the default headers and the header writer are not copied.\<close>

definition copy_settings :: "client \<Rightarrow> client \<Rightarrow> client" where
  "copy_settings rhs cl = cl\<lparr>
     cl_basic_auth_username := cl_basic_auth_username rhs, cl_basic_auth_password := cl_basic_auth_password rhs,
     cl_bearer_token_auth_token := cl_bearer_token_auth_token rhs, cl_keep_alive := cl_keep_alive rhs,
     cl_follow_location := cl_follow_location rhs, cl_url_encode := cl_url_encode rhs,
     cl_compress := cl_compress rhs, cl_decompress := cl_decompress rhs,
     cl_proxy_host := cl_proxy_host rhs, cl_proxy_port := cl_proxy_port rhs,
     cl_proxy_basic_auth_username := cl_proxy_basic_auth_username rhs,
     cl_proxy_basic_auth_password := cl_proxy_basic_auth_password rhs,
     cl_proxy_bearer_token_auth_token := cl_proxy_bearer_token_auth_token rhs \<rparr>"

definition set_basic_auth :: "string \<Rightarrow> string \<Rightarrow> client \<Rightarrow> client" where
  "set_basic_auth username password cl = cl\<lparr> cl_basic_auth_username := username, cl_basic_auth_password := password \<rparr>"

definition set_bearer_token_auth :: "string \<Rightarrow> client \<Rightarrow> client" where
  "set_bearer_token_auth token cl = cl\<lparr> cl_bearer_token_auth_token := token \<rparr>"

definition set_keep_alive :: "bool \<Rightarrow> client \<Rightarrow> client" where
  "set_keep_alive on cl = cl\<lparr> cl_keep_alive := on \<rparr>"

definition set_follow_location :: "bool \<Rightarrow> client \<Rightarrow> client" where
  "set_follow_location on cl = cl\<lparr> cl_follow_location := on \<rparr>"

definition set_url_encode :: "bool \<Rightarrow> client \<Rightarrow> client" where
  "set_url_encode on cl = cl\<lparr> cl_url_encode := on \<rparr>"

definition set_hostname_addr_map :: "(string \<Rightarrow> string option) \<Rightarrow> client \<Rightarrow> client" where
  "set_hostname_addr_map addr_map cl = cl\<lparr> cl_addr_map := addr_map \<rparr>"

definition client_set_default_headers :: "headers \<Rightarrow> client \<Rightarrow> client" where
  "client_set_default_headers hs cl = cl\<lparr> cl_default_headers := hs \<rparr>"

definition client_set_header_writer :: "(BufferStream \<Rightarrow> headers \<Rightarrow> int \<times> BufferStream) \<Rightarrow> client \<Rightarrow> client" where
  "client_set_header_writer writer cl = cl\<lparr> cl_header_writer := writer \<rparr>"

definition set_compress :: "bool \<Rightarrow> client \<Rightarrow> client" where
  "set_compress on cl = cl\<lparr> cl_compress := on \<rparr>"

definition set_decompress :: "bool \<Rightarrow> client \<Rightarrow> client" where
  "set_decompress on cl = cl\<lparr> cl_decompress := on \<rparr>"

definition set_proxy :: "string \<Rightarrow> int \<Rightarrow> client \<Rightarrow> client" where
  "set_proxy host port cl = cl\<lparr> cl_proxy_host := host, cl_proxy_port := port \<rparr>"

definition set_proxy_basic_auth :: "string \<Rightarrow> string \<Rightarrow> client \<Rightarrow> client" where
  "set_proxy_basic_auth username password cl =
     cl\<lparr> cl_proxy_basic_auth_username := username, cl_proxy_basic_auth_password := password \<rparr>"

definition set_proxy_bearer_token_auth :: "string \<Rightarrow> client \<Rightarrow> client" where
  "set_proxy_bearer_token_auth token cl = cl\<lparr> cl_proxy_bearer_token_auth_token := token \<rparr>"

text \<open>The parts of a request that only a client uses, and one call with what its reference arguments hold.  The count
  of redirects still allowed is an argument of \<open>client_send\<close>.\<close>

record ('w, 'c) outgoing =
  og_req :: Request
  og_content_length :: nat
  og_provider :: "'w content_provider option"
  og_chunked :: bool
  og_response_handler :: "('c \<Rightarrow> 'w Response \<Rightarrow> bool \<times> 'c) option"
  og_receiver :: "'c receiver option"
  og_progress :: "'c progress"

definition new_request :: "string \<Rightarrow> string \<Rightarrow> headers \<Rightarrow> ('w, 'c) outgoing" where
  "new_request method path hs =
     \<lparr> og_req = Request_default\<lparr> req_method := method, req_path := path, req_headers := hs \<rparr>,
       og_content_length = 0, og_provider = None, og_chunked = False, og_response_handler = None,
       og_receiver = None, og_progress = None \<rparr>"

record 'n network =
  nw_dial :: "'n \<Rightarrow> string \<Rightarrow> string \<Rightarrow> int \<Rightarrow> (Error + socket) \<times> 'n"
  nw_close :: "'n \<Rightarrow> socket \<Rightarrow> 'n"

text \<open>The members under \<^verbatim>\<open>socket_mutex_\<close>, and the network.\<close>

record 'n conn =
  cs_net :: 'n
  cs_socket :: "socket option"
  cs_in_flight :: nat
  cs_should_close :: bool

definition new_conn :: "'n \<Rightarrow> 'n conn" where
  "new_conn n = \<lparr> cs_net = n, cs_socket = None, cs_in_flight = 0, cs_should_close = False \<rparr>"

record ('w, 'n, 'c) call =
  ca_error :: Error
  ca_out :: "('w, 'c) outgoing"
  ca_res :: "'w Response"
  ca_state :: 'c
  ca_conn :: "'n conn"

type_synonym ('w, 'n, 'c) client_step = "('w, 'n, 'c) call \<Rightarrow> (bool \<times> ('w, 'n, 'c) call) outcome"

section \<open>Connecting and closing\<close>

text \<open>\<^verbatim>\<open>shutdown_socket\<close> followed by \<^verbatim>\<open>close_socket\<close>.\<close>

definition close_client_socket :: "'n network \<Rightarrow> 'n conn \<Rightarrow> 'n conn" where
  "close_client_socket nw cs =
     (case cs_socket cs of
        None \<Rightarrow> cs
      | Some sk \<Rightarrow> cs\<lparr> cs_socket := None, cs_net := nw_close nw (cs_net cs) sk \<rparr>)"

definition proxied :: "client \<Rightarrow> bool" where
  "proxied cl \<longleftrightarrow> cl_proxy_host cl \<noteq> [] \<and> cl_proxy_port cl \<noteq> - 1"

definition create_client_socket :: "'n network \<Rightarrow> client \<Rightarrow> 'n \<Rightarrow> (Error + socket) \<times> 'n" where
  "create_client_socket nw cl n =
     (if proxied cl then nw_dial nw n (cl_proxy_host cl) [] (cl_proxy_port cl)
      else nw_dial nw n (cl_host cl) (case cl_addr_map cl (cl_host cl) of None \<Rightarrow> [] | Some ip \<Rightarrow> ip) (cl_port cl))"

definition create_and_connect_socket :: "'n network \<Rightarrow> client \<Rightarrow> 'n conn \<Rightarrow> Error option \<times> 'n conn" where
  "create_and_connect_socket nw cl cs =
     (case create_client_socket nw cl (cs_net cs) of
        (Inl e, n) \<Rightarrow> (Some e, cs\<lparr> cs_net := n \<rparr>)
      | (Inr sk, n) \<Rightarrow> (None, cs\<lparr> cs_net := n, cs_socket := Some sk \<rparr>))"

text \<open>\<^verbatim>\<open>stop\<close>, called by the owner or, with a request in flight, by another thread.\<close>

definition client_stop :: "'n network \<Rightarrow> 'n conn \<Rightarrow> 'n conn" where
  "client_stop nw cs =
     (if cs_in_flight cs > 0
      then cs\<lparr> cs_socket := map_option (\<lambda>sk. sk\<lparr> rx := [], rx_end := PeerClosed, tx_quota := Some 0 \<rparr>) (cs_socket cs),
               cs_should_close := True \<rparr>
      else close_client_socket nw cs)"

section \<open>The response line\<close>

text \<open>The regular expression \<^verbatim>\<open>(HTTP/1\.[01]) (\d{3})(?: (.*?))?\r\n\<close>, whose dot matches neither end of line
  character: version, status and reason.\<close>

definition match_response_line :: "string \<Rightarrow> (string \<times> int \<times> string) option" where
  "match_response_line line =
     (let s = c_str line; v = take 8 s; d = take 3 (drop 9 s); rest = take (length s - 14) (drop 12 s)
      in if 14 \<le> length s \<and> v \<in> {''HTTP/1.0'', ''HTTP/1.1''} \<and> s ! 8 = SP \<and> list_all c_isdigit d \<and>
            drop (length s - 2) s = CRLF \<and>
            (rest = [] \<or> hd rest = SP \<and> list_all (\<lambda>c. c \<noteq> CR \<and> c \<noteq> LF) (tl rest))
         then Some (v, int (radix_val 10 d), tl rest) else None)"

definition set_response_line :: "string \<times> int \<times> string \<Rightarrow> 'w Response \<Rightarrow> 'w Response" where
  "set_response_line m res = res\<lparr> res_version := fst m, res_status := fst (snd m), res_reason := snd (snd m) \<rparr>"

partial_function (option) ignore_continue ::
  "SocketStream \<Rightarrow> 'w Response \<Rightarrow> (bool \<times> 'w Response \<times> SocketStream) option" where
  "ignore_continue strm res =
     (if res_status res = 100
      then (case getline socket_read strm of
              None \<Rightarrow> None
            | Some (None, strm1) \<Rightarrow> Some (False, res, strm1)
            | Some (Some _, strm1) \<Rightarrow>
                (case getline socket_read strm1 of
                   None \<Rightarrow> None
                 | Some (None, strm2) \<Rightarrow> Some (False, res, strm2)
                 | Some (Some line, strm2) \<Rightarrow>
                     (case match_response_line line of
                        None \<Rightarrow> Some (False, res, strm2)
                      | Some m \<Rightarrow> ignore_continue strm2 (set_response_line m res))))
      else Some (True, res, strm))"

definition read_response_line ::
  "SocketStream \<Rightarrow> Request \<Rightarrow> 'w Response \<Rightarrow> (bool \<times> 'w Response \<times> SocketStream) option" where
  "read_response_line strm req res =
     (case getline socket_read strm of
        None \<Rightarrow> None
      | Some (None, strm1) \<Rightarrow> Some (False, res, strm1)
      | Some (Some line, strm1) \<Rightarrow>
          (case match_response_line line of
             None \<Rightarrow> Some (req_method req = ''CONNECT'', res, strm1)
           | Some m \<Rightarrow> ignore_continue strm1 (set_response_line m res)))"

section \<open>Writing a request\<close>

definition unless_header :: "string \<Rightarrow> (Request \<Rightarrow> Request) \<Rightarrow> Request \<Rightarrow> Request" where
  "unless_header key f req = (if req_has_header req key then req else f req)"

definition insert_header :: "string \<times> string \<Rightarrow> Request \<Rightarrow> Request" where
  "insert_header kv req = req\<lparr> req_headers := mm_emplace ci (fst kv) (snd kv) (req_headers req) \<rparr>"

text \<open>The headers that depend on the body: its type and length.\<close>

definition body_headers :: "('w, 'c) outgoing \<Rightarrow> Request \<Rightarrow> Request" where
  "body_headers og req =
     (if req_body req = []
      then if og_provider og \<noteq> None
           then if og_chunked og then req
                else unless_header ''Content-Length'' (\<lambda>r. req_set_header r ''Content-Length'' (dec (og_content_length og))) req
           else if req_method req \<in> {''POST'', ''PUT'', ''PATCH''} then req_set_header req ''Content-Length'' ''0'' else req
      else unless_header ''Content-Length'' (\<lambda>r. req_set_header r ''Content-Length'' (dec (length (req_body req))))
             (unless_header ''Content-Type'' (\<lambda>r. req_set_header r ''Content-Type'' ''text/plain'') req))"

definition authorization_headers :: "client \<Rightarrow> Request \<Rightarrow> Request" where
  "authorization_headers cl req =
     (let r1 = (if cl_basic_auth_password cl \<noteq> [] \<or> cl_basic_auth_username cl \<noteq> []
                then unless_header ''Authorization'' (insert_header (make_basic_authentication_header
                       (cl_basic_auth_username cl) (cl_basic_auth_password cl) False)) req else req);
          r2 = (if cl_proxy_basic_auth_username cl \<noteq> [] \<and> cl_proxy_basic_auth_password cl \<noteq> []
                then unless_header ''Proxy-Authorization'' (insert_header (make_basic_authentication_header
                       (cl_proxy_basic_auth_username cl) (cl_proxy_basic_auth_password cl) True)) r1 else r1);
          r3 = (if cl_bearer_token_auth_token cl \<noteq> []
                then unless_header ''Authorization'' (insert_header (make_bearer_token_authentication_header
                       (cl_bearer_token_auth_token cl) False)) r2 else r2)
      in if cl_proxy_bearer_token_auth_token cl \<noteq> []
         then unless_header ''Proxy-Authorization'' (insert_header (make_bearer_token_authentication_header
                (cl_proxy_bearer_token_auth_token cl) True)) r3 else r3)"

definition prepare_headers :: "client \<Rightarrow> bool \<Rightarrow> ('w, 'c) outgoing \<Rightarrow> Request" where
  "prepare_headers cl close_connection og =
     (let r0 = og_req og;
          r1 = (if close_connection then unless_header ''Connection'' (\<lambda>r. req_set_header r ''Connection'' ''close'') r0 else r0);
          r2 = unless_header ''Host'' (\<lambda>r. req_set_header r ''Host'' (if cl_port cl = 80 then cl_host cl else cl_host_and_port cl)) r1;
          r3 = unless_header ''Accept'' (\<lambda>r. req_set_header r ''Accept'' ''*/*'') r2;
          r4 = unless_header ''User-Agent'' (\<lambda>r. req_set_header r ''User-Agent'' (''cpp-httplib/'' @ CPPHTTPLIB_VERSION)) r3
      in authorization_headers cl (body_headers og r4))"

definition client_write_content_with_provider ::
  "SocketStream \<Rightarrow> ('w, 'c) outgoing \<Rightarrow> 'w \<Rightarrow> (bool \<times> Error \<times> SocketStream) option" where
  "client_write_content_with_provider strm og w =
     (let provider = (case og_provider og of None \<Rightarrow> (\<lambda>_ _ _. None) | Some p \<Rightarrow> p)
      in if og_chunked og
         then write_content_chunked socket_is_writable socket_write strm provider w (\<lambda>_. False) nocompressor
         else write_content socket_is_writable socket_write strm provider w 0 (og_content_length og) (\<lambda>_. False))"

text \<open>The request as it was changed, whether it was sent, the error and the stream.\<close>

definition write_request ::
  "client \<Rightarrow> 'w \<Rightarrow> SocketStream \<Rightarrow> ('w, 'c) outgoing \<Rightarrow> bool \<Rightarrow> Error \<Rightarrow> (bool \<times> Error \<times> ('w, 'c) outgoing \<times> SocketStream) option" where
  "write_request cl w strm og close_connection err =
     (let req = prepare_headers cl close_connection og;
          og1 = og\<lparr> og_req := req \<rparr>;
          path = (if cl_url_encode cl then encode_url (req_path req) else req_path req);
          line = c_str (req_method req) @ '' '' @ c_str path @ '' HTTP/1.1'' @ CRLF;
          bstrm = snd (cl_header_writer cl \<lparr> buffer = line, buf_position = 0 \<rparr> (req_headers req))
      in case write_data socket_write strm (buffer bstrm) of
           None \<Rightarrow> None
         | Some (False, strm1) \<Rightarrow> Some (False, Write, og1, strm1)
         | Some (True, strm1) \<Rightarrow>
             if req_body req = []
             then map_option (\<lambda>(ok, e, strm2). (ok, e, og1, strm2)) (client_write_content_with_provider strm1 og1 w)
             else (case write_data socket_write strm1 (req_body req) of
                     None \<Rightarrow> None
                   | Some (ok, strm2) \<Rightarrow> Some (ok, if ok then err else Write, og1, strm2)))"

section \<open>One exchange\<close>

definition redirected :: "client \<Rightarrow> 'w Response \<Rightarrow> bool" where
  "redirected cl res \<longleftrightarrow> 300 < res_status res \<and> res_status res < 400 \<and> cl_follow_location cl"

text \<open>What is kept while the body is read: the body, the state of the callbacks, and whether one of them cancelled.\<close>

definition body_receiver :: "bool \<Rightarrow> ('w, 'c) outgoing \<Rightarrow> (string \<times> 'c \<times> bool) receiver" where
  "body_receiver redirect og a buf off len =
     (case a of
        (body, c, canceled) \<Rightarrow>
          (case og_receiver og of
             Some f \<Rightarrow> if redirect then (True, a)
                       else (case f c buf off len of (ret, c') \<Rightarrow> (ret, body, c', canceled \<or> \<not> ret))
           | None \<Rightarrow> if length body + length buf > string_max_size then (False, a) else (True, body @ buf, c, canceled)))"

definition body_progress :: "bool \<Rightarrow> ('w, 'c) outgoing \<Rightarrow> (string \<times> 'c \<times> bool) progress" where
  "body_progress redirect og =
     Some (\<lambda>(body, c, canceled) current total.
       case og_progress og of
         Some p \<Rightarrow> if redirect then (True, body, c, canceled)
                   else (case p c current total of (ret, c') \<Rightarrow> (ret, body, c', canceled \<or> \<not> ret))
       | None \<Rightarrow> (True, body, c, canceled))"

text \<open>Receiving the body: the flag, the error, the response, the state of the callbacks and the stream.\<close>

definition receive_body ::
  "client \<Rightarrow> ('w, 'c) outgoing \<Rightarrow> SocketStream \<Rightarrow> 'w Response \<Rightarrow> Error \<Rightarrow> 'c \<Rightarrow>
   (bool \<times> Error \<times> 'w Response \<times> 'c \<times> SocketStream) option" where
  "receive_body cl og strm res err c =
     (if res_status res \<noteq> 204 \<and> req_method (og_req og) \<noteq> ''HEAD'' \<and> req_method (og_req og) \<noteq> ''CONNECT''
      then let redirect = redirected cl res;
               (go, c1) = (case og_response_handler og of
                             Some h \<Rightarrow> if redirect then (True, c) else h c res
                           | None \<Rightarrow> (True, c))
        in if \<not> go then Some (False, Canceled, res, c1, strm)
           else (case read_content socket_read strm (res_headers res) ULONG_MAX 0 (body_progress redirect og)
                        (body_receiver redirect og) (cl_decompress cl) (res_body res, c1, err = Canceled) of
                   None \<Rightarrow> None
                 | Some (ok, _, hs, (body, c2, canceled), strm1) \<Rightarrow>
                     Some (ok, if ok then err else if canceled then Canceled else Read,
                       res\<lparr> res_headers := hs, res_body := body \<rparr>, c2, strm1))
      else Some (True, err, res, c, strm))"

definition receive_response ::
  "client \<Rightarrow> ('w, 'c) outgoing \<Rightarrow> SocketStream \<Rightarrow> 'w Response \<Rightarrow> Error \<Rightarrow> 'c \<Rightarrow>
   (bool \<times> Error \<times> 'w Response \<times> 'c \<times> SocketStream) option" where
  "receive_response cl og strm res err c =
     (case read_response_line strm (og_req og) res of
        None \<Rightarrow> None
      | Some (False, res1, strm1) \<Rightarrow> Some (False, Read, res1, c, strm1)
      | Some (True, res1, strm1) \<Rightarrow>
          (case read_headers socket_read strm1 (res_headers res1) of
             None \<Rightarrow> None
           | Some (False, hs, strm2) \<Rightarrow> Some (False, Read, res1\<lparr> res_headers := hs \<rparr>, c, strm2)
           | Some (True, hs, strm2) \<Rightarrow> receive_body cl og strm2 (res1\<lparr> res_headers := hs \<rparr>) err c))"

definition client_process_request ::
  "client \<Rightarrow> 'w \<Rightarrow> SocketStream \<Rightarrow> ('w, 'c) outgoing \<Rightarrow> 'w Response \<Rightarrow> bool \<Rightarrow> Error \<Rightarrow> 'c \<Rightarrow>
   (bool \<times> Error \<times> ('w, 'c) outgoing \<times> 'w Response \<times> 'c \<times> SocketStream) option" where
  "client_process_request cl w strm og res close_connection err c =
     (case write_request cl w strm og close_connection err of
        None \<Rightarrow> None
      | Some (False, e, og1, strm1) \<Rightarrow> Some (False, e, og1, res, c, strm1)
      | Some (True, e, og1, strm1) \<Rightarrow>
          map_option (\<lambda>(ok, e', res', c', strm2). (ok, e', og1, res', c', strm2)) (receive_response cl og1 strm1 res e c))"

text \<open>\<^verbatim>\<open>process_socket\<close> gives the exchange a stream of its own over the open socket; bytes that it read ahead are
  lost with it.\<close>

definition process_socket :: "'n conn \<Rightarrow> (SocketStream \<Rightarrow> 'n conn \<Rightarrow> 'x) \<Rightarrow> 'x \<Rightarrow> 'x" where
  "process_socket cs callback closed =
     (case cs_socket cs of None \<Rightarrow> closed | Some sk \<Rightarrow> callback \<lparr> sock = sk, read_buff = [] \<rparr> cs)"

definition wants_closing :: "'w Response \<Rightarrow> bool" where
  "wants_closing res \<longleftrightarrow> res_get_header_value res ''Connection'' 0 = ''close'' \<or>
     res_version res = ''HTTP/1.0'' \<and> res_reason res \<noteq> ''Connection established''"

definition with_path :: "string \<Rightarrow> ('w, 'c) outgoing \<Rightarrow> ('w, 'c) outgoing" where
  "with_path path og = og\<lparr> og_req := (og_req og)\<lparr> req_path := path \<rparr> \<rparr>"

text \<open>The request with its path as it goes to a proxy.\<close>

definition proxy_request :: "client \<Rightarrow> ('w, 'c) outgoing \<Rightarrow> ('w, 'c) outgoing" where
  "proxy_request cl og =
     (if proxied cl then with_path (''http://'' @ cl_host_and_port cl @ req_path (og_req og)) og else og)"

definition handle_request ::
  "'n network \<Rightarrow> client \<Rightarrow> 'w \<Rightarrow> ('w, 'n, 'c) client_step \<Rightarrow> bool \<Rightarrow> SocketStream \<Rightarrow> ('w, 'n, 'c) client_step" where
  "handle_request nw cl w redirect close_connection strm ca =
     (if req_path (og_req (ca_out ca)) = [] then Returns (False, ca\<lparr> ca_error := Connection \<rparr>)
      else let og = ca_out ca in
        obind (or_diverges (client_process_request cl w strm (proxy_request cl og) (ca_res ca) close_connection (ca_error ca) (ca_state ca)))
        (\<lambda>(ret, e, og1, res, c, strm1).
          let cs = (ca_conn ca)\<lparr> cs_socket := Some (sock strm1) \<rparr>;
              og2 = with_path (req_path (og_req og)) og1;
              ca1 = \<lparr> ca_error = e, ca_out = og2, ca_res = res, ca_state = c, ca_conn = cs \<rparr>
          in if \<not> ret then Returns (False, ca1)
             else let ca2 = (if wants_closing res then ca1\<lparr> ca_conn := close_client_socket nw cs \<rparr> else ca1)
               in if redirected cl res then redirect (ca2\<lparr> ca_out := og \<rparr>) else Returns (True, ca2)))"

section \<open>Sending, and following redirects\<close>

definition add_default_headers :: "client \<Rightarrow> Request \<Rightarrow> Request" where
  "add_default_headers cl req =
     foldl (\<lambda>r kv. if req_has_header r (fst kv) then r else insert_header kv r) req (cl_default_headers cl)"

text \<open>The socket that is used: the open one while it is alive, else a new one.\<close>

definition open_socket :: "'n network \<Rightarrow> client \<Rightarrow> 'n conn \<Rightarrow> Error option \<times> 'n conn" where
  "open_socket nw cl cs =
     (case cs_socket cs of
        Some sk \<Rightarrow> if is_socket_alive sk then (None, cs) else create_and_connect_socket nw cl (close_client_socket nw cs)
      | None \<Rightarrow> create_and_connect_socket nw cl cs)"

text \<open>What \<^verbatim>\<open>send_\<close> does at its end: the request is no longer in flight, and the socket is closed unless it is kept.\<close>

definition finish_request :: "'n network \<Rightarrow> bool \<Rightarrow> bool \<Rightarrow> 'n conn \<Rightarrow> 'n conn" where
  "finish_request nw close_connection ret cs =
     (let cs1 = cs\<lparr> cs_in_flight := cs_in_flight cs - 1 \<rparr>
      in if cs_should_close cs1 \<or> close_connection \<or> \<not> ret then close_client_socket nw cs1 else cs1)"

definition send_once ::
  "'n network \<Rightarrow> client \<Rightarrow> 'w \<Rightarrow> ('w, 'n, 'c) client_step \<Rightarrow> ('w, 'n, 'c) client_step" where
  "send_once nw cl w redirect ca =
     (case open_socket nw cl ((ca_conn ca)\<lparr> cs_should_close := False \<rparr>) of
        (Some e, cs) \<Rightarrow> Returns (False, ca\<lparr> ca_error := e, ca_conn := cs \<rparr>)
      | (None, cs) \<Rightarrow>
          (let og = (ca_out ca)\<lparr> og_req := add_default_headers cl (og_req (ca_out ca)) \<rparr>;
               cs1 = cs\<lparr> cs_in_flight := cs_in_flight cs + 1 \<rparr>;
               close_connection = (\<not> cl_keep_alive cl)
           in process_socket cs1
                (\<lambda>strm cs2. obind (handle_request nw cl w redirect close_connection strm (ca\<lparr> ca_out := og, ca_conn := cs2 \<rparr>))
                  (\<lambda>(ret, ca1). Returns (ret, ca1\<lparr> ca_conn := finish_request nw close_connection ret (ca_conn ca1),
                     ca_error := (if \<not> ret \<and> ca_error ca1 = Success then Unknown else ca_error ca1) \<rparr>)))
                Undefined))"

text \<open>\<^verbatim>\<open>send\<close> tries a second time after an error that only the TLS code reports.\<close>

definition send_request ::
  "'n network \<Rightarrow> client \<Rightarrow> 'w \<Rightarrow> ('w, 'n, 'c) client_step \<Rightarrow> ('w, 'n, 'c) client_step" where
  "send_request nw cl w redirect ca =
     obind (send_once nw cl w redirect ca)
       (\<lambda>(ret, ca1). if ca_error ca1 = SSLPeerCouldBeClosed
          then if ret then Undefined else send_once nw cl w redirect ca1
          else Returns (ret, ca1))"

text \<open>\<^verbatim>\<open>std::stoi\<close> on digits.\<close>

definition stoi :: "string \<Rightarrow> int outcome" where
  "stoi s = (if radix_val 10 s < 2 ^ 31 then Returns (int (radix_val 10 s)) else Throws ''out_of_range'')"

text \<open>
  The regular expression of a location: an optional scheme, an optional authority with a bracketed address or a host
  and an optional port, a path, a query and a fragment.  What follows the authority matches any
  text whose fragment has no end of line, so the greedy choice of each part is the one that is taken.
\<close>

record location =
  lo_scheme :: string
  lo_host :: string
  lo_port :: string
  lo_path :: string
  lo_query :: string

definition match_scheme :: "string \<Rightarrow> string \<times> string" where
  "match_scheme s = (if prefix ''https:'' s then (''https'', drop 6 s)
     else if prefix ''http:'' s then (''http'', drop 5 s) else ([], s))"

definition match_port :: "string \<Rightarrow> string \<times> string" where
  "match_port s =
     (let ds = takeWhile c_isdigit (tl s)
      in if s \<noteq> [] \<and> hd s = CHR '':'' \<and> ds \<noteq> [] then (ds, drop (1 + length ds) s) else ([], s))"

text \<open>The host and the rest after it; \<^const>\<open>None\<close> when there is no authority.\<close>

definition match_host :: "string \<Rightarrow> (string \<times> string) option" where
  "match_host s =
     (if \<not> prefix ''//'' s then None
      else let t = drop 2 s;
               addr = takeWhile (\<lambda>c. c_isdigit c \<or> c = CHR '':'') (tl t);
               host = takeWhile (\<lambda>c. c \<notin> {CHR '':'', CHR ''/'', CHR ''?'', CHR ''#''}) t
        in if t \<noteq> [] \<and> hd t = CHR ''['' \<and> addr \<noteq> [] \<and> prefix '']'' (drop (1 + length addr) t)
           then Some (addr, drop (2 + length addr) t)
           else if host \<noteq> [] then Some (host, drop (length host) t) else None)"

definition match_location :: "string \<Rightarrow> location option" where
  "match_location s =
     (let (scheme, s1) = match_scheme s;
          (host, port, s2) = (case match_host s1 of
                                Some (h, t) \<Rightarrow> (case match_port t of (p, t') \<Rightarrow> (h, p, t'))
                              | None \<Rightarrow> ([], [], s1));
          path = takeWhile (\<lambda>c. c \<noteq> CHR ''?'' \<and> c \<noteq> CHR ''#'') s2;
          s3 = drop (length path) s2;
          query = (if s3 \<noteq> [] \<and> hd s3 = CHR ''?'' then takeWhile (\<lambda>c. c \<noteq> CHR ''#'') s3 else []);
          fragment = drop (length query) s3
      in if CR \<in> set fragment \<or> LF \<in> set fragment then None
         else Some \<lparr> lo_scheme = scheme, lo_host = host, lo_port = port, lo_path = path, lo_query = query \<rparr>)"

text \<open>\<^verbatim>\<open>detail::redirect\<close>, with the sending function of the client it is given.\<close>

definition redirected_request :: "int \<Rightarrow> string \<Rightarrow> ('w, 'c) outgoing \<Rightarrow> ('w, 'c) outgoing" where
  "redirected_request status path og =
     (let og1 = with_path path og
      in if status = 303 \<and> req_method (og_req og) \<noteq> ''GET'' \<and> req_method (og_req og) \<noteq> ''HEAD''
         then og1\<lparr> og_req := (og_req og1)\<lparr> req_method := ''GET'', req_body := [], req_headers := [] \<rparr> \<rparr> else og1)"

definition redirect_with ::
  "('w, 'n, 'c) client_step \<Rightarrow> string \<Rightarrow> string \<Rightarrow> ('w, 'n, 'c) client_step" where
  "redirect_with sender path location ca =
     obind (sender (ca\<lparr> ca_out := redirected_request (res_status (ca_res ca)) path (ca_out ca), ca_res := Response_default \<rparr>))
       (\<lambda>(ret, ca1).
          if ret then Returns (True, ca1\<lparr> ca_res := (if res_location (ca_res ca1) = []
                                 then (ca_res ca1)\<lparr> res_location := location \<rparr> else ca_res ca1) \<rparr>)
          else Returns (False, ca1\<lparr> ca_out := ca_out ca, ca_res := ca_res ca \<rparr>))"

definition next_port :: "client \<Rightarrow> location \<Rightarrow> int outcome" where
  "next_port cl lo =
     (if lo_port lo \<noteq> [] then stoi (lo_port lo)
      else Returns (if lo_scheme lo \<noteq> [] then if lo_scheme lo = ''https'' then 443 else 80 else cl_port cl))"

text \<open>A client for another host: it has its own socket, which its destructor closes.\<close>

definition redirect_elsewhere ::
  "'n network \<Rightarrow> ('w, 'n, 'c) client_step \<Rightarrow> string \<Rightarrow> string \<Rightarrow> ('w, 'n, 'c) client_step" where
  "redirect_elsewhere nw sender path location ca =
     obind (redirect_with sender path location (ca\<lparr> ca_conn := new_conn (cs_net (ca_conn ca)) \<rparr>))
       (\<lambda>(ret, ca1). Returns (ret, ca1\<lparr> ca_conn := (ca_conn ca)\<lparr> cs_net := cs_net (close_client_socket nw (ca_conn ca1)) \<rparr> \<rparr>))"

definition client_redirect ::
  "'n network \<Rightarrow> client \<Rightarrow> (client \<Rightarrow> ('w, 'n, 'c) client_step) \<Rightarrow> ('w, 'n, 'c) client_step" where
  "client_redirect nw cl sender ca =
     (let location = res_get_header_value (ca_res ca) ''location'' 0
      in if location = [] then Returns (False, ca)
         else case match_location location of
                None \<Rightarrow> Returns (False, ca)
              | Some lo \<Rightarrow>
                  obind (next_port cl lo) (\<lambda>port.
                    let scheme = (if lo_scheme lo = [] then ''http'' else lo_scheme lo);
                        host = (if lo_host lo = [] then cl_host cl else lo_host lo);
                        path = decode_url (if lo_path lo = [] then ''/'' else lo_path lo) True @ lo_query lo
                    in if scheme = ''http'' \<and> host = cl_host cl \<and> port = cl_port cl then redirect_with (sender cl) path location ca
                       else if scheme = ''https'' then Returns (False, ca)
                       else redirect_elsewhere nw (sender (copy_settings cl (ClientImpl host port))) path location ca))"

fun client_send :: "'n network \<Rightarrow> 'w \<Rightarrow> nat \<Rightarrow> client \<Rightarrow> ('w, 'n, 'c) client_step" where
  "client_send nw w 0 cl = send_request nw cl w (\<lambda>ca. Returns (False, ca\<lparr> ca_error := ExceedRedirectCount \<rparr>))"
| "client_send nw w (Suc count) cl = send_request nw cl w (client_redirect nw cl (client_send nw w count))"

section \<open>The methods\<close>

record 'w client_result =
  rs_response :: "'w Response option"
  rs_error :: Error
  rs_request_headers :: headers

type_synonym ('w, 'n, 'c) client_method = "'c \<Rightarrow> 'n conn \<Rightarrow> ('w client_result \<times> 'c \<times> 'n conn) outcome"

definition client_send_result :: "'n network \<Rightarrow> 'w \<Rightarrow> client \<Rightarrow> ('w, 'c) outgoing \<Rightarrow> ('w, 'n, 'c) client_method" where
  "client_send_result nw w cl og c cs =
     obind (client_send nw w REDIRECT_MAX_COUNT cl
              \<lparr> ca_error = Success, ca_out = og, ca_res = Response_default, ca_state = c, ca_conn = cs \<rparr>)
       (\<lambda>(ret, ca). Returns (\<lparr> rs_response = (if ret then Some (ca_res ca) else None), rs_error = ca_error ca,
          rs_request_headers = req_headers (og_req (ca_out ca)) \<rparr>, ca_state ca, ca_conn ca))"

datatype 'w content = Body string | Provided nat "'w content_provider" | Streamed "'w content_provider_without_length"

definition send_with_content_provider ::
  "'n network \<Rightarrow> 'w \<Rightarrow> client \<Rightarrow> string \<Rightarrow> string \<Rightarrow> headers \<Rightarrow> 'w content \<Rightarrow> string \<Rightarrow> ('w, 'n, 'c) client_method" where
  "send_with_content_provider nw w cl method path hs content content_type =
     (let og = new_request method path hs;
          og1 = (if content_type \<noteq> [] then og\<lparr> og_req := req_set_header (og_req og) ''Content-Type'' content_type \<rparr> else og)
      in client_send_result nw w cl
           (case content of
              Provided len provider \<Rightarrow> og1\<lparr> og_content_length := len, og_provider := Some provider, og_chunked := False \<rparr>
            | Streamed provider \<Rightarrow> og1\<lparr> og_content_length := 0, og_provider := Some (ContentProviderAdapter provider),
                og_chunked := True, og_req := req_set_header (og_req og1) ''Transfer-Encoding'' ''chunked'' \<rparr>
            | Body body \<Rightarrow> og1\<lparr> og_req := (og_req og1)\<lparr> req_body := body \<rparr> \<rparr>))"

text \<open>The regular expression \<^verbatim>\<open>[^?]+\?.*\<close>.\<close>

definition has_query :: "string \<Rightarrow> bool" where
  "has_query path \<longleftrightarrow> (let p = takeWhile (\<lambda>c. c \<noteq> CHR ''?'') path; r = drop (length p) path
     in p \<noteq> [] \<and> r \<noteq> [] \<and> CR \<notin> set r \<and> LF \<notin> set r)"

definition append_query_params :: "string \<Rightarrow> params \<Rightarrow> string" where
  "append_query_params path params = path @ (if has_query path then ''&'' else ''?'') @ params_to_query_str params"

definition client_Get :: "'n network \<Rightarrow> 'w \<Rightarrow> client \<Rightarrow> string \<Rightarrow> headers \<Rightarrow> 'c progress \<Rightarrow> ('w, 'n, 'c) client_method" where
  "client_Get nw w cl path hs progress = client_send_result nw w cl ((new_request ''GET'' path hs)\<lparr> og_progress := progress \<rparr>)"

definition client_Get_receiver ::
  "'n network \<Rightarrow> 'w \<Rightarrow> client \<Rightarrow> string \<Rightarrow> headers \<Rightarrow> ('c \<Rightarrow> 'w Response \<Rightarrow> bool \<times> 'c) option \<Rightarrow>
   'c content_callback \<Rightarrow> 'c progress \<Rightarrow> ('w, 'n, 'c) client_method" where
  "client_Get_receiver nw w cl path hs response_handler content_receiver progress =
     client_send_result nw w cl ((new_request ''GET'' path hs)\<lparr> og_response_handler := response_handler,
       og_receiver := Some (\<lambda>c data off len. content_receiver c data), og_progress := progress \<rparr>)"

definition client_Get_params ::
  "'n network \<Rightarrow> 'w \<Rightarrow> client \<Rightarrow> string \<Rightarrow> params \<Rightarrow> headers \<Rightarrow> 'c progress \<Rightarrow> ('w, 'n, 'c) client_method" where
  "client_Get_params nw w cl path params hs progress =
     (if params = [] then client_Get nw w cl path hs None
      else client_Get nw w cl (append_query_params path params) hs progress)"

definition client_Head :: "'n network \<Rightarrow> 'w \<Rightarrow> client \<Rightarrow> string \<Rightarrow> headers \<Rightarrow> ('w, 'n, 'c) client_method" where
  "client_Head nw w cl path hs = client_send_result nw w cl (new_request ''HEAD'' path hs)"

definition client_Options :: "'n network \<Rightarrow> 'w \<Rightarrow> client \<Rightarrow> string \<Rightarrow> headers \<Rightarrow> ('w, 'n, 'c) client_method" where
  "client_Options nw w cl path hs = client_send_result nw w cl (new_request ''OPTIONS'' path hs)"

definition client_Delete :: "'n network \<Rightarrow> 'w \<Rightarrow> client \<Rightarrow> string \<Rightarrow> headers \<Rightarrow> string \<Rightarrow> string \<Rightarrow> ('w, 'n, 'c) client_method" where
  "client_Delete nw w cl path hs body content_type =
     (let og = new_request ''DELETE'' path hs;
          req = (if content_type \<noteq> [] then req_set_header (og_req og) ''Content-Type'' content_type else og_req og)
      in client_send_result nw w cl (og\<lparr> og_req := req\<lparr> req_body := body \<rparr> \<rparr>))"

definition client_Post :: "'n network \<Rightarrow> 'w \<Rightarrow> client \<Rightarrow> string \<Rightarrow> headers \<Rightarrow> 'w content \<Rightarrow> string \<Rightarrow> ('w, 'n, 'c) client_method" where
  "client_Post nw w cl = send_with_content_provider nw w cl ''POST''"

definition client_Put :: "'n network \<Rightarrow> 'w \<Rightarrow> client \<Rightarrow> string \<Rightarrow> headers \<Rightarrow> 'w content \<Rightarrow> string \<Rightarrow> ('w, 'n, 'c) client_method" where
  "client_Put nw w cl = send_with_content_provider nw w cl ''PUT''"

definition client_Patch :: "'n network \<Rightarrow> 'w \<Rightarrow> client \<Rightarrow> string \<Rightarrow> headers \<Rightarrow> 'w content \<Rightarrow> string \<Rightarrow> ('w, 'n, 'c) client_method" where
  "client_Patch nw w cl = send_with_content_provider nw w cl ''PATCH''"

definition client_Post_params :: "'n network \<Rightarrow> 'w \<Rightarrow> client \<Rightarrow> string \<Rightarrow> headers \<Rightarrow> params \<Rightarrow> ('w, 'n, 'c) client_method" where
  "client_Post_params nw w cl path hs params =
     client_Post nw w cl path hs (Body (params_to_query_str params)) ''application/x-www-form-urlencoded''"

definition client_Post_form ::
  "'n network \<Rightarrow> 'w \<Rightarrow> (nat \<Rightarrow> nat) \<Rightarrow> client \<Rightarrow> string \<Rightarrow> headers \<Rightarrow> MultipartFormData list \<Rightarrow> ('w, 'n, 'c) client_method" where
  "client_Post_form nw w engine cl path hs items =
     (let boundary = make_multipart_data_boundary engine
      in client_Post nw w cl path hs (Body (serialize_multipart_formdata items boundary True))
           (serialize_multipart_formdata_get_content_type boundary))"

definition client_Post_form_boundary ::
  "'n network \<Rightarrow> 'w \<Rightarrow> client \<Rightarrow> string \<Rightarrow> headers \<Rightarrow> MultipartFormData list \<Rightarrow> string \<Rightarrow> ('w, 'n, 'c) client_method" where
  "client_Post_form_boundary nw w cl path hs items boundary c cs =
     (if \<not> is_multipart_boundary_chars_valid boundary
      then Returns (\<lparr> rs_response = None, rs_error = UnsupportedMultipartBoundaryChars, rs_request_headers = [] \<rparr>, c, cs)
      else client_Post nw w cl path hs (Body (serialize_multipart_formdata items boundary True))
             (serialize_multipart_formdata_get_content_type boundary) c cs)"

definition client_Put_params :: "'n network \<Rightarrow> 'w \<Rightarrow> client \<Rightarrow> string \<Rightarrow> headers \<Rightarrow> params \<Rightarrow> ('w, 'n, 'c) client_method" where
  "client_Put_params nw w cl path hs params =
     client_Put nw w cl path hs (Body (params_to_query_str params)) ''application/x-www-form-urlencoded''"

definition client_Put_form ::
  "'n network \<Rightarrow> 'w \<Rightarrow> (nat \<Rightarrow> nat) \<Rightarrow> client \<Rightarrow> string \<Rightarrow> headers \<Rightarrow> MultipartFormData list \<Rightarrow> ('w, 'n, 'c) client_method" where
  "client_Put_form nw w engine cl path hs items =
     (let boundary = make_multipart_data_boundary engine
      in client_Put nw w cl path hs (Body (serialize_multipart_formdata items boundary True))
           (serialize_multipart_formdata_get_content_type boundary))"

definition client_Put_form_boundary ::
  "'n network \<Rightarrow> 'w \<Rightarrow> client \<Rightarrow> string \<Rightarrow> headers \<Rightarrow> MultipartFormData list \<Rightarrow> string \<Rightarrow> ('w, 'n, 'c) client_method" where
  "client_Put_form_boundary nw w cl path hs items boundary c cs =
     (if \<not> is_multipart_boundary_chars_valid boundary
      then Returns (\<lparr> rs_response = None, rs_error = UnsupportedMultipartBoundaryChars, rs_request_headers = [] \<rparr>, c, cs)
      else client_Put nw w cl path hs (Body (serialize_multipart_formdata items boundary True))
             (serialize_multipart_formdata_get_content_type boundary) c cs)"

section \<open>The client returns\<close>

text \<open>Sockets on which each \<^verbatim>\<open>send\<close> accepts something or fails.\<close>

definition ready :: "SocketStream \<Rightarrow> bool" where "ready s \<longleftrightarrow> 0 < tx_max (sock s)"

lemma ready_kept: "ready s \<Longrightarrow> (sock s')\<lparr> rx := [] \<rparr> = (sock s)\<lparr> rx := [] \<rparr> \<Longrightarrow> ready s'"
proof -
  assume "ready s" "(sock s')\<lparr> rx := [] \<rparr> = (sock s)\<lparr> rx := [] \<rparr>"
  moreover have "tx_max ((sock s)\<lparr> rx := [] \<rparr>) = tx_max (sock s)" for s by simp
  ultimately show ?thesis unfolding ready_def by metis
qed

lemma socket_write_ready:
  assumes "ready s" "d \<noteq> []" "socket_write s d = (r, s')"
  shows "ready s' \<and> (\<forall>n. r = Some n \<longrightarrow> 0 < n)"
  using assms by (auto simp: ready_def socket_write_def send_socket_def socket_is_writable_def select_write_def Let_def
      split: if_splits option.splits)

lemma write_data_total: "ready s \<Longrightarrow> \<exists>ok s'. write_data socket_write s d = Some (ok, s') \<and> ready s'"
proof (induction "length d" arbitrary: s d rule: less_induct)
  case less
  show ?case
  proof (cases "d = []")
    case True
    then show ?thesis using less.prems by (subst write_data.simps) auto
  next
    case False
    obtain r s' where w: "socket_write s d = (r, s')" by fastforce
    note ok = socket_write_ready [OF less.prems False w]
    show ?thesis
    proof (cases r)
      case None
      then show ?thesis using False w ok by (subst write_data.simps) auto
    next
      case (Some n)
      then have "length (drop n d) < length d" using ok False by simp
      from less.hyps [OF this] ok Some w False show ?thesis by (subst write_data.simps) simp
    qed
  qed
qed

lemma ignore_continue_total:
  fixes res :: "'a Response"
  shows "\<exists>ok res' s'. ignore_continue s res = Some (ok, res', s') \<and> (sock s')\<lparr> rx := [] \<rparr> = (sock s)\<lparr> rx := [] \<rparr>"
proof (induction "length (socket_pending s)" arbitrary: s res rule: less_induct)
  case less
  obtain r1 s1 where g: "getline socket_read s = Some (r1, s1)" "(sock s1)\<lparr> rx := [] \<rparr> = (sock s)\<lparr> rx := [] \<rparr>"
    "length (socket_pending s1) \<le> length (socket_pending s)" using socket_in.getline_total [of s] by blast
  obtain r2 s2 where h: "getline socket_read s1 = Some (r2, s2)" "(sock s2)\<lparr> rx := [] \<rparr> = (sock s1)\<lparr> rx := [] \<rparr>"
    "r2 \<noteq> None \<Longrightarrow> length (socket_pending s2) < length (socket_pending s1)" using socket_in.getline_total [of s1] by blast
  have IH: "\<exists>ok res' s'. ignore_continue s2 res2 = Some (ok, res', s') \<and> (sock s')\<lparr> rx := [] \<rparr> = (sock s)\<lparr> rx := [] \<rparr>"
    if "r2 \<noteq> None" for res2 :: "'a Response"
    using less [of s2 res2] h(2,3) g(2,3) that by fastforce
  show ?case
  proof (cases "res_status res = 100 \<and> r1 \<noteq> None \<and> r2 \<noteq> None")
    case True
    then obtain l1 l2 where "r1 = Some l1" "r2 = Some l2" by auto
    then show ?thesis using True IH g(1,2) h(1,2)
      by (subst ignore_continue.simps) (cases "match_response_line l2"; auto)
  next
    case False
    then show ?thesis using g(1,2) h(1,2) by (subst ignore_continue.simps) (cases r1; cases r2; auto)
  qed
qed

lemma read_response_line_total:
  "\<exists>ok res' s'. read_response_line s req res = Some (ok, res', s') \<and> (sock s')\<lparr> rx := [] \<rparr> = (sock s)\<lparr> rx := [] \<rparr>"
proof -
  obtain r s1 where g: "getline socket_read s = Some (r, s1)" "(sock s1)\<lparr> rx := [] \<rparr> = (sock s)\<lparr> rx := [] \<rparr>"
    using socket_in.getline_total [of s] by blast
  show ?thesis
  proof (cases r)
    case None
    then show ?thesis using g by (auto simp: read_response_line_def)
  next
    case (Some l)
    then show ?thesis using g ignore_continue_total [of s1]
      by (cases "match_response_line l") (auto simp: read_response_line_def)
  qed
qed

lemma receive_body_total:
  "\<exists>ok e res' c' s'. receive_body cl og s res err c = Some (ok, e, res', c', s') \<and> (sock s')\<lparr> rx := [] \<rparr> = (sock s)\<lparr> rx := [] \<rparr> \<and>
    (ok \<longrightarrow> e = err) \<and> (\<not> ok \<longrightarrow> e \<in> {Canceled, Read})"
proof -
  obtain go c1 where h: "(case og_response_handler og of Some h \<Rightarrow> if redirected cl res then (True, c) else h c res | None \<Rightarrow> (True, c)) = (go, c1)"
    by fastforce
  obtain ok st hs a s' where r: "read_content socket_read s (res_headers res) ULONG_MAX 0 (body_progress (redirected cl res) og)
      (body_receiver (redirected cl res) og) (cl_decompress cl) (res_body res, c1, err = Canceled) = Some (ok, st, hs, a, s')"
    "(sock s')\<lparr> rx := [] \<rparr> = (sock s)\<lparr> rx := [] \<rparr>"
    using socket_in.read_content_total [of s "res_headers res" ULONG_MAX 0 "body_progress (redirected cl res) og"
        "body_receiver (redirected cl res) og" "cl_decompress cl" "(res_body res, c1, err = Canceled)"] by auto
  show ?thesis unfolding receive_body_def Let_def h prod.case r(1) option.case
    using r(2) by (cases a) auto
qed

lemma receive_response_total:
  "\<exists>ok e res' c' s'. receive_response cl og s res err c = Some (ok, e, res', c', s') \<and> (sock s')\<lparr> rx := [] \<rparr> = (sock s)\<lparr> rx := [] \<rparr> \<and>
    (ok \<longrightarrow> e = err) \<and> (\<not> ok \<longrightarrow> e \<in> {Canceled, Read})"
proof -
  obtain ok1 res1 s1 where l: "read_response_line s (og_req og) res = Some (ok1, res1, s1)" "(sock s1)\<lparr> rx := [] \<rparr> = (sock s)\<lparr> rx := [] \<rparr>"
    using read_response_line_total [of s "og_req og" res] by auto
  obtain ok2 hs s2 where h: "read_headers socket_read s1 (res_headers res1) = Some (ok2, hs, s2)" "(sock s2)\<lparr> rx := [] \<rparr> = (sock s1)\<lparr> rx := [] \<rparr>"
    using socket_in.read_headers_total [of s1 "res_headers res1"] by auto
  show ?thesis using receive_body_total [of cl og s2 "res1\<lparr> res_headers := hs \<rparr>" err c] l h
    by (cases ok1; cases ok2) (auto simp: receive_response_def)
qed

text \<open>A request whose content is its body.\<close>

definition body_only :: "('w, 'c) outgoing \<Rightarrow> bool" where
  "body_only og \<longleftrightarrow> og_provider og = None \<and> \<not> og_chunked og \<and> og_content_length og = 0"

lemma body_only_update [simp]:
  "body_only (og\<lparr> og_req := req \<rparr>) = body_only og" "body_only (with_path p og) = body_only og"
  "body_only (proxy_request cl og) = body_only og" "body_only (redirected_request st p og) = body_only og"
  "body_only (new_request me p hs)"
  by (simp_all add: body_only_def with_path_def proxy_request_def redirected_request_def new_request_def Let_def)

lemma write_request_total:
  assumes "ready s" "body_only og"
  shows "\<exists>ok e s'. write_request cl w s og close err = Some (ok, e, og\<lparr> og_req := prepare_headers cl close og \<rparr>, s') \<and> ready s' \<and>
    (ok \<longrightarrow> e \<in> {err, Success}) \<and> (\<not> ok \<longrightarrow> e = Write)"
proof -
  let ?req = "prepare_headers cl close og"
  let ?head = "buffer (snd (cl_header_writer cl \<lparr> buffer = c_str (req_method ?req) @ '' '' @
    c_str (if cl_url_encode cl then encode_url (req_path ?req) else req_path ?req) @ '' HTTP/1.1'' @ CRLF, buf_position = 0 \<rparr> (req_headers ?req)))"
  obtain ok1 s1 where h: "write_data socket_write s ?head = Some (ok1, s1)" "ready s1" using write_data_total [OF assms(1)] by blast
  obtain ok2 s2 where b: "write_data socket_write s1 (req_body ?req) = Some (ok2, s2)" "ready s2" using write_data_total [OF h(2)] by blast
  have p: "client_write_content_with_provider s1 (og\<lparr> og_req := ?req \<rparr>) w = Some (True, Success, s1)"
    using assms(2) by (simp add: client_write_content_with_provider_def body_only_def write_content_def write_content_loop.simps)
  show ?thesis unfolding write_request_def Let_def using h b p by (cases ok1; cases ok2) auto
qed

lemma process_request_total:
  assumes "ready s" "body_only og"
  shows "\<exists>ok e og' res' c' s'. client_process_request cl w s og res close err c = Some (ok, e, og', res', c', s') \<and> ready s' \<and>
    og' = og\<lparr> og_req := prepare_headers cl close og \<rparr> \<and> (ok \<longrightarrow> e \<in> {err, Success}) \<and> (\<not> ok \<longrightarrow> e \<in> {Canceled, Read, Write})"
proof -
  obtain ok1 e1 s1 where w: "write_request cl w s og close err = Some (ok1, e1, og\<lparr> og_req := prepare_headers cl close og \<rparr>, s1)" "ready s1"
    "ok1 \<longrightarrow> e1 \<in> {err, Success}" "\<not> ok1 \<longrightarrow> e1 = Write" using write_request_total [OF assms, of cl w close err] by blast
  obtain ok2 e2 res' c' s2 where r: "receive_response cl (og\<lparr> og_req := prepare_headers cl close og \<rparr>) s1 res e1 c = Some (ok2, e2, res', c', s2)"
    "(sock s2)\<lparr> rx := [] \<rparr> = (sock s1)\<lparr> rx := [] \<rparr>" "ok2 \<longrightarrow> e2 = e1" "\<not> ok2 \<longrightarrow> e2 \<in> {Canceled, Read}"
    using receive_response_total [of cl "og\<lparr> og_req := prepare_headers cl close og \<rparr>" s1 res e1 c] by auto
  have "ready s2" by (rule ready_kept [OF w(2) r(2)])
  then show ?thesis using w r by (cases ok1) (auto simp: client_process_request_def)
qed

text \<open>What the client relies on of the network: a socket accepts something at each \<^verbatim>\<open>send\<close>, and a failed connection
  reports an error, which is not one of the TLS code.\<close>

definition network_ok :: "'n network \<Rightarrow> bool" where
  "network_ok nw \<longleftrightarrow> (\<forall>n h ip p r n'. nw_dial nw n h ip p = (r, n') \<longrightarrow>
     (\<forall>sk. r = Inr sk \<longrightarrow> 0 < tx_max sk) \<and> r \<noteq> Inl SSLPeerCouldBeClosed \<and> r \<noteq> Inl Success)"

definition conn_ok :: "'n conn \<Rightarrow> bool" where
  "conn_ok cs \<longleftrightarrow> (\<forall>sk. cs_socket cs = Some sk \<longrightarrow> 0 < tx_max sk)"

text \<open>A call that ends: with a result, where only a failure sets an error, or by the exception of \<^verbatim>\<open>std::stoi\<close>.\<close>

definition settles :: "(bool \<times> ('w, 'n, 'c) call) outcome \<Rightarrow> bool" where
  "settles r \<longleftrightarrow> r = Throws ''out_of_range'' \<or> (\<exists>ret ca. r = Returns (ret, ca) \<and> conn_ok (ca_conn ca) \<and>
     ca_error ca \<noteq> SSLPeerCouldBeClosed \<and> (ret \<longrightarrow> ca_error ca = Success))"

text \<open>The result of \<^verbatim>\<open>send\<close>: a failure always has an error.\<close>

definition settled :: "(bool \<times> ('w, 'n, 'c) call) outcome \<Rightarrow> bool" where
  "settled r \<longleftrightarrow> settles r \<and> (\<forall>ca. r = Returns (False, ca) \<longrightarrow> ca_error ca \<noteq> Success)"

definition startable :: "('w, 'n, 'c) call \<Rightarrow> bool" where
  "startable ca \<longleftrightarrow> ca_error ca = Success \<and> body_only (ca_out ca) \<and> conn_ok (ca_conn ca)"

lemma conn_ok_update [simp]:
  "conn_ok (cs\<lparr> cs_in_flight := n \<rparr>) = conn_ok cs" "conn_ok (cs\<lparr> cs_should_close := b \<rparr>) = conn_ok cs"
  "conn_ok (cs\<lparr> cs_net := net \<rparr>) = conn_ok cs" "conn_ok (cs\<lparr> cs_socket := Some sk \<rparr>) \<longleftrightarrow> 0 < tx_max sk"
  "conn_ok (new_conn net)" "conn_ok (close_client_socket nw cs)"
  by (simp_all add: conn_ok_def new_conn_def close_client_socket_def split: option.splits)

lemma finish_request_ok: "conn_ok cs \<Longrightarrow> conn_ok (finish_request nw close ret cs)"
  by (simp add: finish_request_def Let_def)

lemma settles_bind:
  assumes "settles r" "\<And>ret ca. conn_ok (ca_conn ca) \<Longrightarrow> ca_error ca \<noteq> SSLPeerCouldBeClosed \<Longrightarrow> (ret \<Longrightarrow> ca_error ca = Success) \<Longrightarrow> settles (k (ret, ca))"
  shows "settles (obind r k)"
  using assms by (auto simp: settles_def [of r]) (simp add: settles_def)

lemma settlesI:
  "conn_ok (ca_conn ca) \<Longrightarrow> ca_error ca \<noteq> SSLPeerCouldBeClosed \<Longrightarrow> (ret \<Longrightarrow> ca_error ca = Success) \<Longrightarrow> settles (Returns (ret, ca))"
  by (simp add: settles_def)

lemma handle_request_settles:
  assumes "\<And>ca. startable ca \<Longrightarrow> settles (redirect ca)" "ready s" "startable ca"
  shows "settles (handle_request nw cl w redirect close s ca)"
proof (cases "req_path (og_req (ca_out ca)) = []")
  case True
  then show ?thesis using assms(3) by (auto simp: handle_request_def startable_def intro!: settlesI)
next
  case False
  have b: "body_only (proxy_request cl (ca_out ca))" "ca_error ca = Success" using assms(3) by (simp_all add: startable_def)
  obtain ok e og' res' c' s' where r: "client_process_request cl w s (proxy_request cl (ca_out ca)) (ca_res ca) close (ca_error ca) (ca_state ca) =
      Some (ok, e, og', res', c', s')" "0 < tx_max (sock s')" "ok \<longrightarrow> e = Success" "\<not> ok \<longrightarrow> e \<in> {Canceled, Read, Write}"
    using process_request_total [OF assms(2) b(1), of cl w "ca_res ca" close "ca_error ca" "ca_state ca"] b(2)
    by (auto simp: ready_def)
  show ?thesis unfolding handle_request_def Let_def r(1) or_diverges_def option.case obind.simps prod.case
    using False r(2-4) assms(3) by (auto simp: startable_def intro!: settlesI assms(1))
qed

lemma open_socket_ok:
  assumes "network_ok nw" "conn_ok cs" "open_socket nw cl cs = (r, cs')"
  shows "conn_ok cs' \<and> r \<notin> {Some SSLPeerCouldBeClosed, Some Success} \<and> (r = None \<longrightarrow> cs_socket cs' \<noteq> None)"
proof -
  have "conn_ok cs' \<and> r \<notin> {Some SSLPeerCouldBeClosed, Some Success} \<and> (r = None \<longrightarrow> cs_socket cs' \<noteq> None)"
    if c: "create_and_connect_socket nw cl cs0 = (r, cs')" "conn_ok cs0" for cs0
  proof -
    obtain q n h ip p where d: "create_client_socket nw cl (cs_net cs0) = (q, n)" "nw_dial nw (cs_net cs0) h ip p = (q, n)"
      unfolding create_client_socket_def by (metis prod.exhaust)
    then have "(\<forall>sk. q = Inr sk \<longrightarrow> 0 < tx_max sk) \<and> q \<noteq> Inl SSLPeerCouldBeClosed \<and> q \<noteq> Inl Success" using assms(1) by (simp add: network_ok_def) blast
    then show ?thesis using c d(1) by (cases q) (auto simp: create_and_connect_socket_def)
  qed
  note c = this
  show ?thesis using assms(2,3) c [of cs] c [of "close_client_socket nw cs"]
    by (auto simp: open_socket_def split: option.splits if_splits)
qed

lemma settled_bind:
  assumes "settles r" "\<And>ret ca. conn_ok (ca_conn ca) \<Longrightarrow> ca_error ca \<noteq> SSLPeerCouldBeClosed \<Longrightarrow> (ret \<Longrightarrow> ca_error ca = Success) \<Longrightarrow> settled (k (ret, ca))"
  shows "settled (obind r k)"
  using assms by (auto simp: settles_def [of r]) (simp add: settled_def settles_def)

lemma send_once_settled:
  assumes "\<And>ca. startable ca \<Longrightarrow> settles (redirect ca)" "network_ok nw" "startable ca"
  shows "settled (send_once nw cl w redirect ca)"
proof -
  obtain r cs where o: "open_socket nw cl ((ca_conn ca)\<lparr> cs_should_close := False \<rparr>) = (r, cs)" by fastforce
  have ok: "conn_ok cs \<and> r \<notin> {Some SSLPeerCouldBeClosed, Some Success} \<and> (r = None \<longrightarrow> cs_socket cs \<noteq> None)"
    using open_socket_ok [OF assms(2) _ o] assms(3) by (simp add: startable_def)
  show ?thesis
  proof (cases r)
    case None
    then obtain sk where sk: "cs_socket cs = Some sk" "0 < tx_max sk" using ok by (auto simp: conn_ok_def)
    let ?s = "\<lparr> sock = sk, read_buff = [] \<rparr>"
    have "settles (handle_request nw cl w redirect (\<not> cl_keep_alive cl) ?s
        (ca\<lparr> ca_out := (ca_out ca)\<lparr> og_req := add_default_headers cl (og_req (ca_out ca)) \<rparr>, ca_conn := cs\<lparr> cs_in_flight := cs_in_flight cs + 1 \<rparr> \<rparr>))"
      using assms(3) ok sk by (intro handle_request_settles assms(1)) (auto simp: ready_def startable_def)
    then show ?thesis unfolding send_once_def o prod.case None option.case Let_def process_socket_def using sk(1)
      by simp (rule settled_bind, assumption, auto simp: settled_def intro!: settlesI finish_request_ok)
  next
    case (Some e)
    then show ?thesis using o ok by (auto simp: send_once_def settled_def intro!: settlesI)
  qed
qed

lemma send_request_settled:
  assumes "\<And>ca. startable ca \<Longrightarrow> settles (redirect ca)" "network_ok nw" "startable ca"
  shows "settled (send_request nw cl w redirect ca)"
proof -
  have "settled (send_once nw cl w redirect ca)" by (rule send_once_settled) (use assms in auto)
  then show ?thesis unfolding send_request_def
    by (cases "send_once nw cl w redirect ca") (auto simp: settled_def settles_def)
qed

lemma redirect_with_settles:
  assumes "\<And>ca. startable ca \<Longrightarrow> settles (sender ca)" "startable ca"
  shows "settles (redirect_with sender path location ca)"
  unfolding redirect_with_def
  by (rule settles_bind) (use assms in \<open>auto simp: startable_def intro!: settlesI\<close>)

lemma client_redirect_settles:
  assumes "\<And>cl ca. startable ca \<Longrightarrow> settles (sender cl ca)" "startable ca"
  shows "settles (client_redirect nw cl sender ca)"
proof -
  have f: "settles (Returns (False, ca))" using assms(2) by (auto simp: startable_def intro!: settlesI)
  have here: "settles (redirect_with (sender cl') path location ca)" for cl' path location
    by (rule redirect_with_settles [OF assms])
  have "startable (ca\<lparr> ca_conn := new_conn (cs_net (ca_conn ca)) \<rparr>)" using assms(2) by (simp add: startable_def)
  from redirect_with_settles [OF assms(1) this] have there: "settles (redirect_elsewhere nw (sender cl') path location ca)" for cl' path location
    unfolding redirect_elsewhere_def by (rule settles_bind) (use assms(2) in \<open>auto simp: startable_def intro!: settlesI\<close>)
  have t: "settles (Throws ''out_of_range'')" by (simp add: settles_def)
  show ?thesis
  proof (cases "res_get_header_value (ca_res ca) ''location'' 0 = [] \<or> match_location (res_get_header_value (ca_res ca) ''location'' 0) = None")
    case True
    then show ?thesis using f by (auto simp: client_redirect_def Let_def)
  next
    case False
    then obtain lo where lo: "match_location (res_get_header_value (ca_res ca) ''location'' 0) = Some lo"
      "res_get_header_value (ca_res ca) ''location'' 0 \<noteq> []" by auto
    have "next_port cl lo = Throws ''out_of_range'' \<or> (\<exists>p. next_port cl lo = Returns p)" by (simp add: next_port_def stoi_def)
    then show ?thesis
    proof
      assume "next_port cl lo = Throws ''out_of_range''"
      then show ?thesis using t lo by (simp add: client_redirect_def)
    next
      assume "\<exists>p. next_port cl lo = Returns p"
      then obtain p where "next_port cl lo = Returns p" ..
      then show ?thesis using f here there lo by (simp add: client_redirect_def Let_def)
    qed
  qed
qed

lemma client_send_settled:
  fixes ca :: "('w, 'n, 'c) call"
  shows "network_ok nw \<Longrightarrow> startable ca \<Longrightarrow> settled (client_send nw w count cl ca)"
proof (induction count arbitrary: cl ca)
  case 0
  then show ?case by (auto simp: startable_def intro!: send_request_settled settlesI)
next
  case (Suc count)
  have "settles (client_send nw w count cl ca)" if "startable ca" for cl and ca :: "('w, 'n, 'c) call"
    using Suc.IH [OF Suc.prems(1) that] by (simp add: settled_def)
  from client_redirect_settles [of "client_send nw w count", OF this] show ?case unfolding client_send.simps
    by (intro send_request_settled) (use Suc.prems in auto)
qed

lemma client_returns_run:
  assumes "network_ok nw" "conn_ok cs" "body_only og"
  shows "client_send_result nw w cl og c cs = Throws ''out_of_range'' \<or>
    (\<exists>rs c' cs'. client_send_result nw w cl og c cs = Returns (rs, c', cs') \<and> conn_ok cs' \<and>
      (rs_response rs = None \<longleftrightarrow> rs_error rs \<noteq> Success))"
proof -
  have "startable \<lparr> ca_error = Success, ca_out = og, ca_res = Response_default, ca_state = c, ca_conn = cs \<rparr>"
    using assms(2,3) by (simp add: startable_def)
  from client_send_settled [OF assms(1) this, of w REDIRECT_MAX_COUNT cl] show ?thesis
    unfolding settled_def settles_def client_send_result_def by auto
qed

section \<open>Connections\<close>

text \<open>A count of the connections that were tried.\<close>

definition counts_dials :: "'n network \<Rightarrow> ('n \<Rightarrow> nat) \<Rightarrow> bool" where
  "counts_dials nw dials \<longleftrightarrow> (\<forall>n h ip p. dials (snd (nw_dial nw n h ip p)) = dials n + 1) \<and>
     (\<forall>n sk. dials (nw_close nw n sk) = dials n)"

definition dials_within :: "('n \<Rightarrow> nat) \<Rightarrow> nat \<Rightarrow> 'n conn \<Rightarrow> (bool \<times> ('w, 'n, 'c) call) outcome \<Rightarrow> bool" where
  "dials_within dials k cs r \<longleftrightarrow> (\<forall>ret ca. r = Returns (ret, ca) \<longrightarrow> dials (cs_net (ca_conn ca)) \<le> dials (cs_net cs) + k)"

lemma dials_withinI: "dials (cs_net (ca_conn ca)) \<le> dials (cs_net cs) + k \<Longrightarrow> dials_within dials k cs (Returns (ret, ca))"
  by (simp add: dials_within_def)

lemma dials_within_bind:
  assumes "dials_within dials k cs r" "\<And>ret ca. dials_within dials 0 (ca_conn ca) (f (ret, ca))"
  shows "dials_within dials k cs (obind r f)"
  using assms by (cases r) (fastforce simp: dials_within_def)+

lemma close_dials: "counts_dials nw dials \<Longrightarrow> dials (cs_net (close_client_socket nw cs)) = dials (cs_net cs)"
  by (simp add: close_client_socket_def counts_dials_def split: option.splits)

lemma finish_dials: "counts_dials nw dials \<Longrightarrow> dials (cs_net (finish_request nw close ret cs)) = dials (cs_net cs)"
  by (simp add: finish_request_def close_dials Let_def)

lemma open_dials:
  assumes "counts_dials nw dials" "open_socket nw cl cs = (r, cs')"
  shows "dials (cs_net cs') \<le> dials (cs_net cs) + 1"
proof -
  have c: "dials (cs_net cs') \<le> dials (cs_net cs0) + 1" if "create_and_connect_socket nw cl cs0 = (r, cs')" for cs0 r cs'
  proof -
    obtain q n h ip p where d: "create_client_socket nw cl (cs_net cs0) = (q, n)" "nw_dial nw (cs_net cs0) h ip p = (q, n)"
      unfolding create_client_socket_def by (metis prod.exhaust)
    then have "dials n = dials (cs_net cs0) + 1" using assms(1) unfolding counts_dials_def by (metis snd_conv)
    then show ?thesis using that d(1) by (auto simp: create_and_connect_socket_def split: sum.splits)
  qed
  show ?thesis using assms(2) c [of cs r cs'] c [of "close_client_socket nw cs" r cs'] close_dials [OF assms(1), of cs]
    by (auto simp: open_socket_def split: option.splits if_splits)
qed

lemma handle_request_dials:
  assumes "counts_dials nw dials" "\<And>ca. startable ca \<Longrightarrow> dials_within dials k (ca_conn ca) (redirect ca)" "ready s" "startable ca"
  shows "dials_within dials k (ca_conn ca) (handle_request nw cl w redirect close s ca)"
proof (cases "req_path (og_req (ca_out ca)) = []")
  case True
  then show ?thesis by (auto simp: handle_request_def dials_within_def)
next
  case False
  have b: "body_only (proxy_request cl (ca_out ca))" "ca_error ca = Success" using assms(4) by (simp_all add: startable_def)
  obtain ok e og' res' c' s' where r: "client_process_request cl w s (proxy_request cl (ca_out ca)) (ca_res ca) close (ca_error ca) (ca_state ca) =
      Some (ok, e, og', res', c', s')" "0 < tx_max (sock s')" "ok \<longrightarrow> e = Success"
    using process_request_total [OF assms(3) b(1), of cl w "ca_res ca" close "ca_error ca" "ca_state ca"] b(2)
    by (auto simp: ready_def)
  have "dials_within dials k (ca_conn ca) (redirect ca')" if "dials (cs_net (ca_conn ca')) = dials (cs_net (ca_conn ca))" "startable ca'" for ca'
    using assms(2) [OF that(2)] that(1) by (simp add: dials_within_def)
  then show ?thesis unfolding handle_request_def Let_def r(1) or_diverges_def option.case obind.simps prod.case
    using False r(2,3) assms(4) close_dials [OF assms(1)] by (auto simp: startable_def intro!: dials_withinI)
qed

lemma send_once_dials:
  assumes "counts_dials nw dials" "\<And>ca. startable ca \<Longrightarrow> dials_within dials k (ca_conn ca) (redirect ca)" "network_ok nw" "startable ca"
  shows "dials_within dials (k + 1) (ca_conn ca) (send_once nw cl w redirect ca)"
proof -
  obtain r cs where o: "open_socket nw cl ((ca_conn ca)\<lparr> cs_should_close := False \<rparr>) = (r, cs)" by fastforce
  have ok: "conn_ok cs" using open_socket_ok [OF assms(3) _ o] assms(4) by (simp add: startable_def)
  have n: "dials (cs_net cs) \<le> dials (cs_net (ca_conn ca)) + 1" using open_dials [OF assms(1) o] by simp
  show ?thesis
  proof (cases "r = None \<and> cs_socket cs \<noteq> None")
    case True
    then obtain sk where sk: "cs_socket cs = Some sk" "0 < tx_max sk" using ok by (auto simp: conn_ok_def)
    let ?ca = "ca\<lparr> ca_out := (ca_out ca)\<lparr> og_req := add_default_headers cl (og_req (ca_out ca)) \<rparr>, ca_conn := cs\<lparr> cs_in_flight := cs_in_flight cs + 1 \<rparr> \<rparr>"
    have "startable ?ca" "ready \<lparr> sock = sk, read_buff = [] \<rparr>" using assms(4) ok sk(2) by (simp_all add: startable_def ready_def)
    from handle_request_dials [OF assms(1,2) this(2,1), of cl w "\<not> cl_keep_alive cl"] n
    have "dials_within dials (k + 1) (ca_conn ca) (handle_request nw cl w redirect (\<not> cl_keep_alive cl) \<lparr> sock = sk, read_buff = [] \<rparr> ?ca)"
      by (force simp: dials_within_def)
    then show ?thesis unfolding send_once_def o prod.case option.case Let_def process_socket_def using sk True
      by simp (erule dials_within_bind, auto intro!: dials_withinI simp: finish_dials [OF assms(1)])
  next
    case False
    then show ?thesis using o n by (cases r) (auto simp: send_once_def process_socket_def dials_within_def Let_def split: option.splits)
  qed
qed

lemma redirect_dials:
  assumes "counts_dials nw dials" "\<And>cl ca. startable ca \<Longrightarrow> dials_within dials k (ca_conn ca) (sender cl ca)" "startable ca"
  shows "dials_within dials k (ca_conn ca) (client_redirect nw cl sender ca)"
proof -
  have here: "dials_within dials k (ca_conn ca) (redirect_with (sender cl') path location ca)" if "startable ca" for cl' path location ca
  proof -
    let ?ca = "ca\<lparr> ca_out := redirected_request (res_status (ca_res ca)) path (ca_out ca), ca_res := Response_default \<rparr>"
    have "dials_within dials k (ca_conn ca) (sender cl' ?ca)" using assms(2) [of ?ca cl'] that by (simp add: startable_def)
    then show ?thesis unfolding redirect_with_def by (rule dials_within_bind) (auto intro!: dials_withinI)
  qed
  have "startable (ca\<lparr> ca_conn := new_conn (cs_net (ca_conn ca)) \<rparr>)" using assms(3) by (simp add: startable_def)
  from here [OF this] have there: "dials_within dials k (ca_conn ca) (redirect_elsewhere nw (sender cl') path location ca)" for cl' path location
    unfolding redirect_elsewhere_def
    by (intro dials_within_bind) (auto simp: dials_within_def new_conn_def close_dials [OF assms(1)])
  have no: "dials_within dials k (ca_conn ca) (Returns (False, ca))" by (rule dials_withinI) simp
  show ?thesis
  proof (cases "match_location (res_get_header_value (ca_res ca) ''location'' 0)")
    case None
    then show ?thesis using no by (simp add: client_redirect_def Let_def)
  next
    case (Some lo)
    then show ?thesis using no here [OF assms(3)] there
      by (cases "next_port cl lo") (auto simp: client_redirect_def Let_def, auto simp: dials_within_def)
  qed
qed

lemma send_request_dials:
  assumes "counts_dials nw dials" "\<And>ca. startable ca \<Longrightarrow> dials_within dials k (ca_conn ca) (redirect ca) \<and> settles (redirect ca)"
    "network_ok nw" "startable ca"
  shows "dials_within dials (k + 1) (ca_conn ca) (send_request nw cl w redirect ca)"
proof -
  have "settled (send_once nw cl w redirect ca)" by (rule send_once_settled) (use assms in auto)
  moreover have "dials_within dials (k + 1) (ca_conn ca) (send_once nw cl w redirect ca)"
    by (rule send_once_dials) (use assms in auto)
  ultimately show ?thesis unfolding send_request_def
    by (cases "send_once nw cl w redirect ca") (auto simp: settled_def settles_def dials_within_def)
qed

lemma client_send_dials:
  fixes ca :: "('w, 'n, 'c) call"
  assumes "counts_dials nw dials" "network_ok nw"
  shows "startable ca \<Longrightarrow> dials_within dials (count + 1) (ca_conn ca) (client_send nw w count cl ca)"
proof (induction count arbitrary: cl ca)
  case 0
  then show ?case unfolding client_send.simps
    by (intro send_request_dials assms) (auto simp: startable_def intro!: settlesI dials_withinI)
next
  case (Suc count)
  have "settles (client_send nw w count cl ca)" if "startable ca" for cl and ca :: "('w, 'n, 'c) call"
    using client_send_settled [OF assms(2) that] by (simp add: settled_def)
  with Suc have "dials_within dials (count + 1) (ca_conn ca) (client_redirect nw cl (client_send nw w count) ca) \<and>
      settles (client_redirect nw cl (client_send nw w count) ca)" if "startable ca" for ca :: "('w, 'n, 'c) call"
    using that by (intro conjI redirect_dials client_redirect_settles assms) auto
  from send_request_dials [OF assms(1) this assms(2) Suc.prems, of cl w] show ?case by simp
qed

text \<open>A network that hands out given sockets one after the other, and then fails to connect.\<close>

fun scripted_dial :: "socket list \<Rightarrow> string \<Rightarrow> string \<Rightarrow> int \<Rightarrow> (Error + socket) \<times> socket list" where
  "scripted_dial [] host ip port = (Inl Connection, [])"
| "scripted_dial (sk # sks) host ip port = (if tx_max sk = 0 then Inl Connection else Inr sk, sks)"

definition scripted_network :: "socket list network" where
  "scripted_network = \<lparr> nw_dial = scripted_dial, nw_close = (\<lambda>sks sk. sks) \<rparr>"

lemma scripted_network_ok: "network_ok scripted_network"
proof -
  have "(\<forall>sk. r = Inr sk \<longrightarrow> 0 < tx_max sk) \<and> r \<noteq> Inl SSLPeerCouldBeClosed \<and> r \<noteq> Inl Success"
    if "scripted_dial n h ip p = (r, n')" for n h ip p r n'
    using that by (cases n) (auto split: if_splits)
  then show ?thesis by (auto simp: network_ok_def scripted_network_def)
qed

text \<open>A peer that redirects every request to itself.\<close>

definition redirect_headers :: headers where
  "redirect_headers = [(''Connection'', ''close''), (''Content-Length'', ''0''), (''Location'', ''/again'')]"

definition redirecting_peer :: socket where
  "redirecting_peer = \<lparr> rx = [''HTTP/1.1 302 Found'' @ CRLF @ concat (map header_line redirect_headers) @ CRLF],
     rx_end = PeerClosed, tx = [], tx_quota = None, tx_max = 100 \<rparr>"

text \<open>
  C37. The client returns: for a request with a body of its own, over a network whose sockets accept at least one byte at
  each \<^verbatim>\<open>send\<close>, a call of the client ends whatever the servers answer and however often they redirect it; it has a response
  exactly when it has no error, and its socket can be used again.  The one exception comes from a port in a
  \<^verbatim>\<open>Location\<close> header that is no \<^verbatim>\<open>int\<close>.
\<close>

theorem client_returns:
  assumes "network_ok nw" "conn_ok cs" "body_only og"
  shows "client_send_result nw w cl og c cs = Throws ''out_of_range'' \<or>
    (\<exists>rs c' cs'. client_send_result nw w cl og c cs = Returns (rs, c', cs') \<and> conn_ok cs' \<and>
      (rs_response rs = None \<longleftrightarrow> rs_error rs \<noteq> Success))"
  using assms by (rule client_returns_run)

theorem client_returns_witness:
  fixes cl
  defines "cl \<equiv> set_follow_location True (ClientImpl ''frs'' 8000)" and "og \<equiv> new_request ''GET'' ''/'' [] :: (unit, unit) outgoing"
    and "cs \<equiv> new_conn (replicate 30 redirecting_peer)"
  shows "network_ok scripted_network \<and> conn_ok cs \<and> body_only og \<and>
   (client_send_result scripted_network () cl og () cs = Throws ''out_of_range'' \<or>
    (\<exists>rs c' cs'. client_send_result scripted_network () cl og () cs = Returns (rs, c', cs') \<and> conn_ok cs' \<and>
      (rs_response rs = None \<longleftrightarrow> rs_error rs \<noteq> Success)))"
proof -
  have "conn_ok cs" "body_only og" by (simp_all add: cs_def og_def)
  then show ?thesis using client_returns [OF scripted_network_ok, of cs og "()" cl "()"] scripted_network_ok by blast
qed

end
