(* ===== verification/FrsClient.thy ===== *)
theory FrsClient
  imports FrsExchange Http_Client
begin

text \<open>
  The library's client against the program: what one exchange of the client sends and gives back, and the exchanges of
  both ends, the client of \<^verbatim>\<open>src/src/httplib.h\<close> and the server of \<^verbatim>\<open>src/src/main.cpp\<close>, over the bytes between them.
\<close>

section \<open>Sending a request\<close>

text \<open>Writing leaves what is to be read alone.\<close>

lemma socket_write_reads:
  "socket_write s d = (r, s') \<Longrightarrow> rx (sock s') = rx (sock s) \<and> read_buff s' = read_buff s"
  by (auto simp: socket_write_def send_socket_def Let_def split: if_splits)

lemma write_data_reads:
  "ready s \<Longrightarrow> write_data socket_write s d = Some (ok, s') \<Longrightarrow> rx (sock s') = rx (sock s) \<and> read_buff s' = read_buff s"
proof (induction "length d" arbitrary: s d rule: less_induct)
  case less
  show ?case
  proof (cases "d = []")
    case True
    then show ?thesis using less.prems by (simp add: write_data.simps [of socket_write s])
  next
    case False
    obtain r s1 where w: "socket_write s d = (r, s1)" by fastforce
    note ok = socket_write_ready [OF less.prems(1) False w] and keep = socket_write_reads [OF w]
    show ?thesis
    proof (cases r)
      case None
      then show ?thesis using False w keep less.prems(2) by (simp add: write_data.simps [of socket_write s])
    next
      case (Some n)
      then have "length (drop n d) < length d" "ready s1" "write_data socket_write s1 (drop n d) = Some (ok, s')"
        using ok False w less.prems(2) by (simp_all add: write_data.simps [of socket_write s])
      from less.hyps [OF this] keep show ?thesis by simp
    qed
  qed
qed

lemma write_data_sent:
  assumes "socket_live s"
  shows "\<exists>s'. write_data socket_write s d = Some (True, s') \<and> tx (sock s') = tx (sock s) @ d \<and> socket_live s' \<and>
    socket_pending s' = socket_pending s"
proof -
  have "ready s" using assms by (simp add: ready_def socket_live_def)
  then show ?thesis using socket_out.write_data_live [OF assms, of d] write_data_reads [of s d True]
    by (auto simp: socket_pending_def)
qed

text \<open>A client that sends its headers in the usual way and uses no proxy.\<close>

definition plain_client :: "client \<Rightarrow> bool" where
  "plain_client cl \<longleftrightarrow> cl_header_writer cl = write_headers buffer_write \<and> \<not> proxied cl \<and> cl_default_headers cl = [] \<and>
     cl_addr_map cl = Map.empty \<and> \<not> cl_keep_alive cl \<and> cl_url_encode cl"

lemma plain_client_new [simp]: "plain_client (ClientImpl host port)"
  by (simp add: plain_client_def ClientImpl_def proxied_def)

lemma write_request_sent:
  assumes "socket_live s" "body_only og" "plain_client cl" "NUL \<notin> set (req_method (og_req og))" "encode_url (req_path (og_req og)) = path" "NUL \<notin> set path"
    and "req = prepare_headers cl close og" "req_method req = req_method (og_req og)" "req_path req = req_path (og_req og)"
  shows "\<exists>s'. write_request cl w s og close Success = Some (True, Success, og\<lparr> og_req := req \<rparr>, s') \<and>
    tx (sock s') = tx (sock s) @ request_head (req_method req) path (req_headers req) @ req_body req \<and> socket_pending s' = socket_pending s"
proof -
  let ?line = "c_str (req_method req) @ '' '' @ c_str path @ '' HTTP/1.1'' @ CRLF"
  have c: "cl_header_writer cl = write_headers buffer_write" "cl_url_encode cl" using assms(3) by (simp_all add: plain_client_def)
  obtain n st where h: "write_headers buffer_write \<lparr> buffer = ?line, buf_position = 0 \<rparr> (req_headers req) = (n, st)"
    "buffer st = ?line @ concat (map header_line (req_headers req)) @ CRLF" using write_head by blast
  have b: "buffer st = request_head (req_method req) path (req_headers req)"
    using assms(4,6,8) h(2) by (simp add: request_head_def request_line_def)
  obtain s1 where s1: "write_data socket_write s (buffer st) = Some (True, s1)" "tx (sock s1) = tx (sock s) @ buffer st" "socket_live s1"
    "socket_pending s1 = socket_pending s" using write_data_sent [OF assms(1)] by blast
  obtain s2 where s2: "write_data socket_write s1 (req_body req) = Some (True, s2)" "tx (sock s2) = tx (sock s1) @ req_body req"
    "socket_pending s2 = socket_pending s1" using write_data_sent [OF s1(3)] by blast
  have p: "client_write_content_with_provider s1 (og\<lparr> og_req := req \<rparr>) w = Some (True, Success, s1)"
    using assms(2) by (simp add: client_write_content_with_provider_def body_only_def write_content_def write_content_loop.simps)
  have w: "write_request cl w s og close Success = (if req_body req = [] then Some (True, Success, og\<lparr> og_req := req \<rparr>, s1)
      else Some (True, Success, og\<lparr> og_req := req \<rparr>, s2))"
    unfolding write_request_def Let_def assms(7) [symmetric] using c h(1) s1(1) s2(1) p assms(5,9) by simp
  show ?thesis unfolding w using s1 s2 b by (cases "req_body req = []") simp_all
qed

section \<open>Receiving a response\<close>

lemma read_response_line_sent:
  assumes "socket_pending s = l @ CRLF @ rest" "LF \<notin> set l" "match_response_line (l @ CRLF) = Some m" "fst (snd m) \<noteq> 100"
  shows "\<exists>s'. read_response_line s req res = Some (True, set_response_line m res, s') \<and> socket_pending s' = rest \<and>
    (sock s')\<lparr> rx := [] \<rparr> = (sock s)\<lparr> rx := [] \<rparr>"
proof -
  from assms(1,2) obtain s' where "getline socket_read s = Some (Some (l @ CRLF), s')" "socket_pending s' = rest"
    "(sock s')\<lparr> rx := [] \<rparr> = (sock s)\<lparr> rx := [] \<rparr>" by (rule socket_in.lines.getline_crlf) blast
  then show ?thesis using assms(3,4) ignore_continue.simps [of s' "set_response_line m res"]
    by (auto simp: read_response_line_def set_response_line_def)
qed

lemma receive_response_sent:
  fixes res :: "'w Response"
  assumes "socket_pending s = l @ CRLF @ concat (map header_line hs) @ CRLF @ rest" "LF \<notin> set l"
    and "match_response_line (l @ CRLF) = Some m" "fst (snd m) \<noteq> 100" "mm_sorted ci hs" "\<forall>kv \<in> set hs. wire_header kv" "res_headers res = []"
  shows "\<exists>s'. receive_response cl og s res err c = receive_body cl og s' ((set_response_line m res)\<lparr> res_headers := hs \<rparr>) err c \<and>
    socket_pending s' = rest \<and> (sock s')\<lparr> rx := [] \<rparr> = (sock s)\<lparr> rx := [] \<rparr>"
proof -
  obtain s1 where s1: "read_response_line s (og_req og) res = Some (True, set_response_line m res, s1)"
    "socket_pending s1 = concat (map header_line hs) @ CRLF @ rest" "(sock s1)\<lparr> rx := [] \<rparr> = (sock s)\<lparr> rx := [] \<rparr>"
    using read_response_line_sent [OF assms(1-4)] by blast
  obtain s2 where s2: "read_headers socket_read s1 [] = Some (True, hs, s2)" "socket_pending s2 = rest" "(sock s2)\<lparr> rx := [] \<rparr> = (sock s1)\<lparr> rx := [] \<rparr>"
    using socket_in.lines.read_headers_wire [of "[]" hs s1 rest] assms(5,6) s1(2) by auto
  have "res_headers (set_response_line m res) = []" using assms(7) by (simp add: set_response_line_def)
  then show ?thesis using s1 s2 by (auto simp: receive_response_def)
qed

text \<open>A request whose body goes into the response.\<close>

definition collects :: "client \<Rightarrow> ('w, 'c) outgoing \<Rightarrow> 'w Response \<Rightarrow> bool" where
  "collects cl og res \<longleftrightarrow> og_receiver og = None \<and> og_response_handler og = None \<and> og_progress og = None \<and>
     req_method (og_req og) \<noteq> ''HEAD'' \<and> req_method (og_req og) \<noteq> ''CONNECT'' \<and> res_status res \<noteq> 204 \<and> \<not> redirected cl res \<and>
     prepare_content_receiver (res_headers res) (cl_decompress cl) = None"

lemma body_receiver_accepts:
  "og_receiver og = None \<Longrightarrow> accepts (body_receiver redirect og) (\<lambda>a d. (fst a @ d, snd a)) (\<lambda>a t. length (fst a) + length t \<le> string_max_size)"
  by (auto simp: accepts_def body_receiver_def)

lemma body_pieces: "foldl (\<lambda>a d. (fst a @ d, snd a)) (b, x) ds = (b @ concat ds, x)"
  by (induction ds arbitrary: b) auto

lemma tx_kept: "(sock s')\<lparr> rx := [] \<rparr> = (sock s)\<lparr> rx := [] \<rparr> \<Longrightarrow> tx (sock s') = tx (sock s)"
  by (drule arg_cong [where f = tx]) simp

lemma receive_chunked_body:
  assumes "collects cl og res" "is_chunked_transfer_encoding (res_headers res)" "chunked_body t body" "length t \<le> string_max_size"
    and "socket_pending s = body @ rest" "res_body res = []"
  shows "\<exists>s'. receive_body cl og s res Success c = Some (True, Success, res\<lparr> res_body := t \<rparr>, c, s') \<and> socket_pending s' = rest \<and>
    tx (sock s') = tx (sock s)"
proof -
  have f: "og_receiver og = None" "og_response_handler og = None" "\<not> redirected cl res" using assms(1) by (simp_all add: collects_def)
  from assms(3) obtain cs where cs: "concat cs = t" "\<forall>x \<in> set cs. x \<noteq> [] \<and> length x < ULONG_MAX"
    "body = concat (map chunk_text cs) @ ''0'' @ CRLF @ CRLF" by (auto simp: chunked_body_def)
  have p: "socket_pending s = concat (map chunk_text cs) @ ''0'' @ CRLF @ CRLF @ rest" using assms(5) cs(3) by simp
  have "length (fst ([], c, False)) + length (concat cs) \<le> string_max_size" using cs(1) assms(4) by simp
  from socket_in.read_chunks_accepting [OF body_receiver_accepts [OF f(1), of False] p cs(2) this, of "res_headers res"] obtain ds s' where
    r: "read_content_chunked socket_read s (res_headers res) (body_receiver False og) ([], c, False) =
      Some (True, res_headers res, (concat ds, c, False), s')" "concat ds = t" "socket_pending s' = rest" "(sock s')\<lparr> rx := [] \<rparr> = (sock s)\<lparr> rx := [] \<rparr>"
    using cs(1) by (auto simp: body_pieces)
  then show ?thesis using assms(1,2,6) f tx_kept [OF r(4)]
    by (auto simp: receive_body_def collects_def read_content_def)
qed

lemma receive_sized_body:
  assumes "collects cl og res" "\<not> is_chunked_transfer_encoding (res_headers res)" "has_header (res_headers res) ''Content-Length''"
    and "unat (get_header_value_u64 (res_headers res) ''Content-Length'' 0 0) = length t" "length t \<le> string_max_size" "length t \<le> ULONG_MAX"
    and "socket_pending s = t @ rest" "res_body res = []"
  shows "\<exists>s'. receive_body cl og s res Success c = Some (True, Success, res\<lparr> res_body := t \<rparr>, c, s') \<and> socket_pending s' = rest \<and>
    tx (sock s') = tx (sock s)"
proof -
  have f: "og_receiver og = None" "og_response_handler og = None" "\<not> redirected cl res" "og_progress og = None" using assms(1) by (simp_all add: collects_def)
  have q: "quiet (body_progress False og)" using f(4) by (simp add: quiet_def body_progress_def)
  have "length (fst ([], c, False)) + length (t @ []) \<le> string_max_size" using assms(5) by simp
  from socket_in.read_length_accepting [OF body_receiver_accepts [OF f(1), of False] q assms(7) _ this, of 0 "length t"] obtain ds s' where
    r: "read_content_with_length socket_read s (length t) (body_progress False og) (body_receiver False og) ([], c, False) =
      Some (True, (concat ds, c, False), s')" "concat ds = t" "socket_pending s' = rest" "(sock s')\<lparr> rx := [] \<rparr> = (sock s)\<lparr> rx := [] \<rparr>"
    by (auto simp: body_pieces read_content_with_length_def)
  then show ?thesis using assms(1-4,6-8) f tx_kept [OF r(4)]
    by (cases "t = []") (auto simp: receive_body_def collects_def read_content_def Let_def)
qed

section \<open>One exchange\<close>

lemma plain_client_request:
  "plain_client cl \<Longrightarrow> add_default_headers cl req = req" "plain_client cl \<Longrightarrow> proxy_request cl og = og"
  by (simp_all add: plain_client_def add_default_headers_def proxy_request_def)

lemma same_path: "with_path (req_path (og_req og)) (og\<lparr> og_req := req \<rparr>) = og\<lparr> og_req := req\<lparr> req_path := req_path (og_req og) \<rparr> \<rparr>"
  by (simp add: with_path_def)

text \<open>A call on a new connection that is not redirected: the socket is dialled, used and closed.\<close>

lemma send_once_exchange:
  assumes "plain_client cl" "nw_dial nw n (cl_host cl) [] (cl_port cl) = (Inr sk, n')" "req_path (og_req og) \<noteq> []"
    and "client_process_request cl w \<lparr> sock = sk, read_buff = [] \<rparr> og Response_default True Success c =
      Some (True, Success, og\<lparr> og_req := req \<rparr>, res, c', s')"
    and "req_path req = req_path (og_req og)" "\<not> redirected cl res"
  shows "send_once nw cl w redirect \<lparr> ca_error = Success, ca_out = og, ca_res = Response_default, ca_state = c, ca_conn = new_conn n \<rparr> =
    Returns (True, \<lparr> ca_error = Success, ca_out = og\<lparr> og_req := req \<rparr>, ca_res = res, ca_state = c', ca_conn = new_conn (nw_close nw n' (sock s')) \<rparr>)"
proof -
  have c: "\<not> proxied cl" "cl_addr_map cl = Map.empty" "\<not> cl_keep_alive cl" using assms(1) by (simp_all add: plain_client_def)
  have o: "open_socket nw cl ((new_conn n)\<lparr> cs_should_close := False \<rparr>) = (None, (new_conn n)\<lparr> cs_net := n', cs_socket := Some sk \<rparr>)"
    using c assms(2) by (simp add: open_socket_def create_and_connect_socket_def create_client_socket_def new_conn_def)
  have q: "req\<lparr> req_path := req_path (og_req og) \<rparr> = req" using assms(5) [symmetric] by simp
  show ?thesis unfolding send_once_def using o c(3) assms(3,4,6) q
    by (simp add: plain_client_request [OF assms(1)] Let_def process_socket_def new_conn_def handle_request_def or_diverges_def same_path
        finish_request_def close_client_socket_def)
qed

lemma client_exchange:
  assumes "plain_client cl" "nw_dial nw n (cl_host cl) [] (cl_port cl) = (Inr sk, n')" "req_path (og_req og) \<noteq> []"
    and "client_process_request cl w \<lparr> sock = sk, read_buff = [] \<rparr> og Response_default True Success c =
      Some (True, Success, og\<lparr> og_req := req \<rparr>, res, c', s')"
    and "req_path req = req_path (og_req og)" "\<not> redirected cl res"
  shows "client_send_result nw w cl og c (new_conn n) =
    Returns (\<lparr> rs_response = Some res, rs_error = Success, rs_request_headers = req_headers req \<rparr>, c', new_conn (nw_close nw n' (sock s')))"
proof -
  have "client_send nw w count cl \<lparr> ca_error = Success, ca_out = og, ca_res = Response_default, ca_state = c, ca_conn = new_conn n \<rparr> =
    Returns (True, \<lparr> ca_error = Success, ca_out = og\<lparr> og_req := req \<rparr>, ca_res = res, ca_state = c', ca_conn = new_conn (nw_close nw n' (sock s')) \<rparr>)" for count
    using send_once_exchange [OF assms] by (cases count) (simp_all add: send_request_def)
  then show ?thesis by (simp add: client_send_result_def)
qed

text \<open>An exchange of a new connection: the request with its body goes out, and the response comes in.\<close>

lemma exchange_run:
  fixes nw :: "'n network" and w :: 'w and og :: "('w, 'c) outgoing" and cst :: 'c and hs :: headers
  defines "req \<equiv> (og_req og)\<lparr> req_headers := hs \<rparr>"
  assumes cl: "plain_client cl" "nw_dial nw n (cl_host cl) [] (cl_port cl) = (Inr sk, n')" "tx_quota sk = None" "0 < tx_max sk"
    and og: "body_only og" "prepare_headers cl True og = req" "NUL \<notin> set (req_method (og_req og))"
    and path: "encode_url (req_path (og_req og)) = req_path (og_req og)" "NUL \<notin> set (req_path (og_req og))" "req_path (og_req og) \<noteq> []"
    and rx: "concat (rx sk) = l @ CRLF @ concat (map header_line hs') @ CRLF @ body" "LF \<notin> set l" "match_response_line (l @ CRLF) = Some m"
      "fst (snd m) \<noteq> 100" "mm_sorted ci hs'" "\<forall>kv \<in> set hs'. wire_header kv"
    and recv: "\<And>s. socket_pending s = body \<Longrightarrow> \<exists>s'. receive_body cl (og\<lparr> og_req := req \<rparr>) s
        ((set_response_line m Response_default)\<lparr> res_headers := hs' \<rparr>) Success cst = Some (True, Success, res, cst, s') \<and> tx (sock s') = tx (sock s)"
    and kept: "\<not> redirected cl res"
  shows "\<exists>sk'. client_send_result nw w cl og cst (new_conn n) =
      Returns (\<lparr> rs_response = Some res, rs_error = Success, rs_request_headers = hs \<rparr>, cst, new_conn (nw_close nw n' sk')) \<and>
    tx sk' = tx sk @ request_head (req_method (og_req og)) (req_path (og_req og)) hs @ req_body (og_req og)"
proof -
  let ?s = "\<lparr> sock = sk, read_buff = [] \<rparr>"
  have r: "req_method req = req_method (og_req og)" "req_path req = req_path (og_req og)" "req_headers req = hs" "req_body req = req_body (og_req og)"
    by (simp_all add: req_def)
  have "concat (rx sk) \<noteq> []" using rx(1) by simp
  then have "list_ex (\<lambda>d. d \<noteq> []) (rx sk)" by (auto simp: list_ex_iff)
  then have live: "socket_live ?s" using cl(3,4) by (simp add: socket_live_def is_socket_alive_def)
  obtain s1 where s1: "write_request cl w ?s og True Success = Some (True, Success, og\<lparr> og_req := req \<rparr>, s1)"
    "tx (sock s1) = tx sk @ request_head (req_method (og_req og)) (req_path (og_req og)) hs @ req_body (og_req og)"
    "socket_pending s1 = concat (rx sk)"
    using write_request_sent [OF live og(1) cl(1) og(3) path(1,2) og(2) [symmetric] r(1,2), of w] r by (auto simp: socket_pending_def)
  obtain s2 where s2: "receive_response cl (og\<lparr> og_req := req \<rparr>) s1 Response_default Success cst =
      receive_body cl (og\<lparr> og_req := req \<rparr>) s2 ((set_response_line m Response_default)\<lparr> res_headers := hs' \<rparr>) Success cst"
    "socket_pending s2 = body" "(sock s2)\<lparr> rx := [] \<rparr> = (sock s1)\<lparr> rx := [] \<rparr>"
    using receive_response_sent [OF _ rx(2-6), of s1 body Response_default cl "og\<lparr> og_req := req \<rparr>" Success cst] s1(3) rx(1)
    by (auto simp: Response_default_def)
  obtain s3 where s3: "receive_body cl (og\<lparr> og_req := req \<rparr>) s2 ((set_response_line m Response_default)\<lparr> res_headers := hs' \<rparr>) Success cst =
      Some (True, Success, res, cst, s3)" "tx (sock s3) = tx (sock s2)" using recv [OF s2(2)] by blast
  have "tx ((sock s2)\<lparr> rx := [] \<rparr>) = tx ((sock s1)\<lparr> rx := [] \<rparr>)" using s2(3) by simp
  then have tx: "tx (sock s3) = tx (sock s1)" using s3(2) by simp
  have "client_process_request cl w ?s og Response_default True Success cst = Some (True, Success, og\<lparr> og_req := req \<rparr>, res, cst, s3)"
    using s1(1) s2(1) s3(1) by (simp add: client_process_request_def)
  from client_exchange [OF cl(1,2) path(3) this r(2) kept] show ?thesis using tx s1(2) r(3) by auto
qed

text \<open>What a new client asks for.\<close>

definition client_host :: "client \<Rightarrow> string" where
  "client_host cl = (if cl_port cl = 80 then cl_host cl else cl_host_and_port cl)"

definition client_headers :: "client \<Rightarrow> headers" where
  "client_headers cl = [(''Accept'', ''*/*''), (''Connection'', ''close''), (''Host'', client_host cl), (''User-Agent'', ''cpp-httplib/0.14.2'')]"

definition no_credentials :: "client \<Rightarrow> bool" where
  "no_credentials cl \<longleftrightarrow> cl_basic_auth_username cl = [] \<and> cl_basic_auth_password cl = [] \<and> cl_bearer_token_auth_token cl = [] \<and>
     cl_proxy_basic_auth_username cl = [] \<and> cl_proxy_bearer_token_auth_token cl = []"

lemma no_credentials_new [simp]: "no_credentials (ClientImpl host port)"
  by (simp add: no_credentials_def ClientImpl_def)

lemma prepare_get:
  fixes path
  defines "og \<equiv> new_request ''GET'' path [] :: ('w, 'c) outgoing"
  assumes "no_credentials cl" "\<not> has_crlf (client_host cl)"
  shows "prepare_headers cl True og = (og_req og)\<lparr> req_headers := client_headers cl \<rparr>"
proof -
  have h: "(if cl_port cl = 80 then cl_host cl else cl_host_and_port cl) = client_host cl" by (simp add: client_host_def)
  show ?thesis unfolding prepare_headers_def Let_def h
    using assms(2,3) by (simp add: og_def new_request_def authorization_headers_def no_credentials_def body_headers_def unless_header_def req_has_header_def
        has_header_def req_set_header_def Request_default_def header_eval client_headers_def CPPHTTPLIB_VERSION_def Let_def)
qed

section \<open>Downloading a file\<close>

text \<open>The headers of a download that ends the connection.\<close>

definition download_headers :: "string \<Rightarrow> headers" where
  "download_headers f = [(''Cache-Control'', ''no-cache''), (''Connection'', ''close''), (''Content-Disposition'', ''attachment; filename='' @ f),
     (''Content-Type'', ''application/octet-stream''), (''Transfer-Encoding'', ''chunked'')]"

lemma safe_chars:
  assumes "safe_name f"
  shows "f \<noteq> []" "\<forall>x \<in> set f. x \<notin> {CR, LF, NUL, CHR ''%'', SP, CHR 0x09, CHR ''+'', CHR 0x27, CHR '','', CHR '';''} \<and> ord x < 0x80"
  using assms by (auto simp: safe_name_def list_all_iff c_isalnum_def c_isdigit_def c_isupper_def c_islower_def)

lemma has_crlf_set: "NUL \<notin> set s \<Longrightarrow> has_crlf s \<longleftrightarrow> CR \<in> set s \<or> LF \<in> set s"
  by (auto simp: has_crlf_def c_str_id list_ex_iff)

lemma safe_attachment: "safe_name f \<Longrightarrow> \<not> has_crlf (''attachment; filename='' @ f)"
  using safe_chars(2) [of f] by (subst has_crlf_set) auto

lemma download_headers_sent:
  assumes "download_response f res" "req_method req = ''GET''" "req_ranges req = []" "req_get_header_value req ''Connection'' 0 = ''close''" "safe_name f"
  shows "sent_headers engine svr close req res = download_headers f"
proof -
  note f = safe_attachment [OF assms(5)]
  have r: "res_body res = []" "res_content_length res = 0" "res_content_provider res \<noteq> None" "res_is_chunked_content_provider res"
    using assms(1) by (simp_all add: download_response_def)
  have h: "res_headers res = [(''Cache-Control'', ''no-cache''), (''Content-Disposition'', ''attachment; filename='' @ f),
     (''Content-Type'', ''application/octet-stream'')]"
    using assms(1) f by (simp add: download_response_def set_header_def Response_default_def header_eval)
  let ?res = "set_header res ''Transfer-Encoding'' ''chunked''"
  have a: "fst (apply_ranges engine req res) = ?res"
    using r assms(3) by (simp add: apply_ranges_def apply_range_headers_def apply_provider_ranges_def encoding_type_def Let_def)
  have h2: "res_headers ?res = [(''Cache-Control'', ''no-cache''), (''Content-Disposition'', ''attachment; filename='' @ f),
     (''Content-Type'', ''application/octet-stream''), (''Transfer-Encoding'', ''chunked'')]"
    using h by (simp add: set_header_def header_eval)
  have h3: "res_headers (set_header ?res ''Connection'' ''close'') = download_headers f"
    using h2 by (simp add: set_header_def [of ?res] header_eval download_headers_def)
  then have t: "res_has_header (set_header ?res ''Connection'' ''close'') ''Content-Type''"
    by (simp add: res_has_header_def has_header_def download_headers_def header_eval)
  obtain pr where "res_content_provider res = Some pr" using r(3) by auto
  then show ?thesis using h3 t assms(2,4) by (simp add: sent_headers_def a add_response_headers_def Let_def)
qed

lemma download_headers_wire:
  assumes "safe_name f" "length f \<le> read_buff_size"
  shows "mm_sorted ci (download_headers f)" "\<forall>kv \<in> set (download_headers f). wire_header kv"
    "is_chunked_transfer_encoding (download_headers f)" "prepare_content_receiver (download_headers f) d = None"
proof -
  note f = safe_chars [OF assms(1)]
  then have "last f \<notin> {SP, CHR 0x09}" using last_in_set by blast
  then show "\<forall>kv \<in> set (download_headers f). wire_header kv" using f assms(2)
    by (auto simp: download_headers_def wire_header_def is_space_or_tab_def read_buff_size_def)
  show "mm_sorted ci (download_headers f)" by (simp add: download_headers_def header_eval)
  show "is_chunked_transfer_encoding (download_headers f)"
    by (simp add: is_chunked_transfer_encoding_def get_header_value_def download_headers_def header_eval)
  have "find_sub [] ''br'' 0 = None" by code_simp
  then show "prepare_content_receiver (download_headers f) d = None"
    by (simp add: prepare_content_receiver_def get_header_value_def download_headers_def header_eval)
qed

lemma encode_plain: "safe_name a \<Longrightarrow> safe_name r \<Longrightarrow> safe_name f \<Longrightarrow> encode_url (file_target a r f) = file_target a r f"
proof -
  have e: "concat (map encode_url_char s) = s" if "safe_name s" for s
  proof -
    have "encode_url_char x = [x]" if "x \<in> set s" for x
      using bspec [OF safe_chars(2) [OF \<open>safe_name s\<close>] that] by (simp add: encode_url_char_def not_le)
    then have "map encode_url_char s = map (\<lambda>x. [x]) s" by simp
    then show ?thesis by (simp only: concat_map_singleton map_ident)
  qed
  assume "safe_name a" "safe_name r" "safe_name f"
  moreover from this have "c_str (file_target a r f) = file_target a r f"
    using safe_target(1) plain_target_chars(4) by (intro c_str_id) auto
  moreover have "concat (map encode_url_char ''/api/v1/'') = ''/api/v1/''" "encode_url_char (CHR ''/'') = ''/''" by (simp_all add: encode_url_char_def)
  ultimately show ?thesis using e by (simp add: encode_url_def file_target_def)
qed

lemma response_200: "match_response_line (status_line 200) = Some (''HTTP/1.1'', 200, ''OK'')" by code_simp

text \<open>The client's exchange over a socket whose peer sends a download.\<close>

lemma client_get_download:
  fixes host port a r f and w :: 'w and cst :: 'c
  defines "cl \<equiv> ClientImpl host port" and "target \<equiv> file_target a r f"
  assumes "safe_name a" "safe_name r" "safe_name f" "length f \<le> read_buff_size" "\<not> has_crlf (client_host cl)"
    and "nw_dial nw n host [] port = (Inr sk, n')" "tx_quota sk = None" "0 < tx_max sk"
    and "concat (rx sk) = status_line 200 @ concat (map header_line (download_headers f)) @ CRLF @ body"
    and "chunked_body c body" "length c \<le> string_max_size"
  shows "\<exists>res sk'. client_Get nw w cl target [] None cst (new_conn n) =
      Returns (\<lparr> rs_response = Some res, rs_error = Success, rs_request_headers = client_headers cl \<rparr>, cst, new_conn (nw_close nw n' sk')) \<and>
    tx sk' = tx sk @ request_head ''GET'' target (client_headers cl) \<and> res_status res = 200 \<and> res_body res = c \<and> res_headers res = download_headers f"
proof -
  let ?og = "new_request ''GET'' target [] :: ('w, 'c) outgoing"
  let ?res = "(set_response_line (''HTTP/1.1'', 200, ''OK'') Response_default)\<lparr> res_headers := download_headers f \<rparr> :: 'w Response"
  have og: "req_method (og_req ?og) = ''GET''" "req_path (og_req ?og) = target" "body_only ?og" "req_body (og_req ?og) = []"
    by (simp_all add: new_request_def Request_default_def body_only_def)
  have pr: "prepare_headers cl True ?og = (og_req ?og)\<lparr> req_headers := client_headers cl \<rparr>"
    by (rule prepare_get) (use assms(7) in \<open>simp_all add: cl_def\<close>)
  have cl: "plain_client cl" "cl_host cl = host" "cl_port cl = port" by (simp_all add: cl_def) (simp_all add: ClientImpl_def)
  have dial: "nw_dial nw n (cl_host cl) [] (cl_port cl) = (Inr sk, n')" unfolding cl using assms(8) .
  note tc = plain_target_chars [OF safe_target(1) [OF assms(3-5)], folded target_def]
  have path: "encode_url (req_path (og_req ?og)) = req_path (og_req ?og)" "NUL \<notin> set (req_path (og_req ?og))" "req_path (og_req ?og) \<noteq> []"
    unfolding og using tc(1,4) encode_plain [OF assms(3-5)] by (simp_all add: target_def)
  note wire = download_headers_wire [OF assms(5,6)]
  have l: "status_line 200 = ''HTTP/1.1 200 OK'' @ CRLF" by code_simp
  have nr: "\<not> redirected cl ?res" by (simp add: redirected_def set_response_line_def)
  then have col: "collects cl (?og\<lparr> og_req := (og_req ?og)\<lparr> req_headers := client_headers cl \<rparr> \<rparr>) ?res" using wire(4) og
    by (simp add: collects_def new_request_def set_response_line_def)
  have recv: "\<exists>s'. receive_body cl (?og\<lparr> og_req := (og_req ?og)\<lparr> req_headers := client_headers cl \<rparr> \<rparr>) s ?res Success cst =
      Some (True, Success, ?res\<lparr> res_body := c \<rparr>, cst, s') \<and> tx (sock s') = tx (sock s)" if "socket_pending s = body" for s
    using receive_chunked_body [OF col _ assms(12,13), of s "[]" cst] wire(3) that by (simp add: set_response_line_def Response_default_def) blast
  have "\<exists>sk'. client_send_result nw w cl ?og cst (new_conn n) = Returns (\<lparr> rs_response = Some (?res\<lparr> res_body := c \<rparr>), rs_error = Success,
      rs_request_headers = client_headers cl \<rparr>, cst, new_conn (nw_close nw n' sk')) \<and>
    tx sk' = tx sk @ request_head (req_method (og_req ?og)) (req_path (og_req ?og)) (client_headers cl) @ req_body (og_req ?og)"
    by (rule exchange_run [OF cl(1) dial assms(9,10) og(3) pr _ path assms(11) [unfolded l append_assoc] _ response_200 [unfolded l] _ wire(1,2) recv])
      (use og nr in \<open>simp_all add: redirected_def\<close>)
  moreover have "?og\<lparr> og_progress := None \<rparr> = ?og" by (simp add: new_request_def)
  ultimately show ?thesis using og
    by (intro exI [of _ "?res\<lparr> res_body := c \<rparr>"]) (auto simp: client_Get_def set_response_line_def)
qed

text \<open>The server's view of the client's request.\<close>

lemma seen_range:
  assumes "\<forall>k \<in> {''REMOTE_ADDR'', ''REMOTE_PORT'', ''LOCAL_ADDR'', ''LOCAL_PORT''}. \<not> mm_equiv ci key k"
  shows "mm_equal_range ci key (req_headers (seen_request cn method target hs)) = mm_equal_range ci key hs"
proof -
  have s: "mm_equal_range ci key (req_headers (req_set_header req k v)) = mm_equal_range ci key (req_headers req)"
    if "k \<in> {''REMOTE_ADDR'', ''REMOTE_PORT'', ''LOCAL_ADDR'', ''LOCAL_PORT''}" for req k v
    using that assms by (auto simp: req_set_header_def header_keys.emplace_other)
  show ?thesis by (simp add: seen_request_def add_addresses_def s)
qed

lemma client_request_seen:
  "\<not> req_has_header (seen_request cn method target (client_headers cl)) ''Range''"
  "req_get_header_value (seen_request cn method target (client_headers cl)) ''Expect'' 0 = []"
  "req_get_header_value (seen_request cn method target (client_headers cl)) ''Connection'' 0 = ''close''"
  unfolding req_has_header_def has_header_def req_get_header_value_def get_header_value_def
  by (subst seen_range; simp add: client_headers_def header_eval)+

lemma client_request_plain:
  assumes "cn_fd cn < FD_SETSIZE" "plain_target target" "wire_header (''Host'', client_host cl)"
    "length (request_head ''GET'' target (client_headers cl)) \<le> read_buff_size"
  shows "plain_request cn ''GET'' target (client_headers cl)"
proof -
  have "length (request_line ''GET'' target) \<le> REQUEST_URI_MAX_LENGTH"
    using assms(4) by (simp add: request_head_def read_buff_size_def REQUEST_URI_MAX_LENGTH_def)
  moreover have "mm_sorted ci (client_headers cl)" by (simp add: client_headers_def header_eval)
  moreover have "\<forall>kv \<in> set (client_headers cl). wire_header kv"
    using assms(3) by (auto simp: client_headers_def) (simp_all add: wire_header_def is_space_or_tab_def)
  ultimately show ?thesis using assms(1,2) client_request_seen [of cn "''GET''" target cl]
    by (simp add: plain_request_def request_methods_def)
qed

text \<open>A new connection of the client over which the answer comes, in any segments, whatever the client sends.\<close>

definition answered_by :: "'n network \<Rightarrow> client \<Rightarrow> string \<Rightarrow> 'n \<Rightarrow> 'n \<Rightarrow> socket \<Rightarrow> bool" where
  "answered_by nw cl answer n n' sk \<longleftrightarrow> nw_dial nw n (cl_host cl) [] (cl_port cl) = (Inr sk, n') \<and>
     tx_quota sk = None \<and> 0 < tx_max sk \<and> concat (rx sk) = answer"

lemma answered_new: "answered_by nw (ClientImpl host port) answer n n' sk \<longleftrightarrow> nw_dial nw n host [] port = (Inr sk, n') \<and>
    tx_quota sk = None \<and> 0 < tx_max sk \<and> concat (rx sk) = answer"
  by (simp add: answered_by_def ClientImpl_def)

lemma client_download_run:
  fixes env :: "('s, 'v) frs_env" and regex built startAt host port a r f and nw :: "'n network" and w :: 'w and cst :: 'c
  defines "svr \<equiv> frs_server env regex built startAt" and "cl \<equiv> ClientImpl host port" and "target \<equiv> file_target a r f"
  defines "request \<equiv> request_head ''GET'' target (client_headers cl)"
  assumes "safe_name a" "safe_name r" "safe_name f" "find_sub f ''.metadata'' 0 = None" "wire_header (''Host'', client_host cl)"
    and "head_arrives ssk request [] segs" "waiting_peer ssk" "cn_fd cn < FD_SETSIZE"
    and "stat (w_fs wo) (cache_file a r f) = Some (Reg c)" "c \<noteq> []" "length c \<le> string_max_size" "length request \<le> read_buff_size"
  shows "\<exists>closed strm' answer. process_request engine (\<lambda>_. False) svr cn \<lparr> sock = ssk, read_buff = [] \<rparr> close wo =
      Returns (True, closed, wo, strm') \<and> tx (sock strm') = tx ssk @ answer \<and>
    (\<forall>n n' sk. answered_by nw cl answer n n' sk \<longrightarrow>
      (\<exists>res sk'. client_Get nw w cl target [] None cst (new_conn n) =
          Returns (\<lparr> rs_response = Some res, rs_error = Success, rs_request_headers = client_headers cl \<rparr>, cst, new_conn (nw_close nw n' sk')) \<and>
        tx sk' = tx sk @ request \<and> res_status res = 200 \<and> res_body res = c))"
proof -
  note len = assms(16)
  then have f: "length f \<le> read_buff_size" by (simp add: request_def request_head_def request_line_def target_def file_target_def)
  have plain: "plain_request cn ''GET'' target (client_headers cl)"
    using client_request_plain [OF assms(12) _ assms(9), of target] len safe_target(1) [OF assms(5-7)] by (simp add: request_def target_def)
  have h: "NUL \<notin> set (client_host cl)" "CR \<notin> set (client_host cl)" "LF \<notin> set (client_host cl)" using assms(9) by (auto simp: wire_header_def)
  then have host: "\<not> has_crlf (client_host cl)" by (simp add: has_crlf_set)
  from download_run [OF assms(5-8) _ _ assms(11,13,14), of "client_headers cl" segs cn engine env regex built startAt close] assms(10) plain
  obtain closed strm' hs' body req res where d:
    "process_request engine (\<lambda>_. False) svr cn \<lparr> sock = ssk, read_buff = [] \<rparr> close wo = Returns (True, closed, wo, strm')"
    "tx (sock strm') = tx ssk @ status_line 200 @ concat (map header_line hs') @ CRLF @ body" "chunked_body c body"
    "download_response f (res :: 's response)" "req_method req = ''GET''" "req_ranges req = []"
    "req_headers req = req_headers (seen_request cn ''GET'' target (client_headers cl))" "hs' = sent_headers engine svr close req res"
    unfolding request_def target_def svr_def by blast
  have "req_get_header_value req ''Connection'' 0 = ''close''"
    using client_request_seen(3) d(7) by (simp add: req_get_header_value_def)
  from download_headers_sent [OF d(4-6) this assms(7)] have hs: "hs' = download_headers f" using d(8) by simp
  have "\<exists>res sk'. client_Get nw w cl target [] None cst (new_conn n) =
      Returns (\<lparr> rs_response = Some res, rs_error = Success, rs_request_headers = client_headers cl \<rparr>, cst, new_conn (nw_close nw n' sk')) \<and>
    tx sk' = tx sk @ request \<and> res_status res = 200 \<and> res_body res = c"
    if "nw_dial nw n host [] port = (Inr sk, n')" "tx_quota sk = None" "0 < tx_max sk"
      "concat (rx sk) = status_line 200 @ concat (map header_line hs') @ CRLF @ body" for n n' sk
    using client_get_download [OF assms(5-7) f _ that(1-3) _ d(3) assms(15), of w cst] host that(4)
    unfolding hs cl_def target_def request_def by blast
  note run = this
  show ?thesis
  proof (rule exI [of _ closed], rule exI [of _ strm'], rule exI [of _ "status_line 200 @ concat (map header_line hs') @ CRLF @ body"],
      intro conjI allI impI)
    show "process_request engine (\<lambda>_. False) svr cn \<lparr> sock = ssk, read_buff = [] \<rparr> close wo = Returns (True, closed, wo, strm')" by (rule d(1))
    show "tx (sock strm') = tx ssk @ status_line 200 @ concat (map header_line hs') @ CRLF @ body" by (rule d(2))
  qed (unfold cl_def answered_new, elim conjE, rule run [unfolded cl_def])
qed

text \<open>
  C7. Both ends of a download: the client of the library, asked for a cached non-empty file whose name does not
  contain \<^verbatim>\<open>.metadata\<close>, sends a request; the server of the program, which receives its bytes in any segments,
  answers them; and the client, given the answer in any segments, returns a response with status 200 whose body
  is exactly the file, and has closed its connection.  The head of the request is at most as long as a buffer of
  the server, 4096 bytes.
\<close>

theorem client_downloads_file:
  fixes env :: "('s, 'v) frs_env" and regex built startAt host port a r f and nw :: "'n network" and w :: 'w and cst :: 'c
  defines "svr \<equiv> frs_server env regex built startAt" and "cl \<equiv> ClientImpl host port" and "target \<equiv> file_target a r f"
  defines "request \<equiv> request_head ''GET'' target (client_headers cl)"
  assumes "safe_name a" "safe_name r" "safe_name f" "find_sub f ''.metadata'' 0 = None" "wire_header (''Host'', client_host cl)"
    and "head_arrives ssk request [] segs" "waiting_peer ssk" "cn_fd cn < FD_SETSIZE"
    and "stat (w_fs wo) (cache_file a r f) = Some (Reg c)" "c \<noteq> []" "length c \<le> string_max_size" "length request \<le> read_buff_size"
  shows "\<exists>closed strm' answer. process_request engine (\<lambda>_. False) svr cn \<lparr> sock = ssk, read_buff = [] \<rparr> close wo =
      Returns (True, closed, wo, strm') \<and> tx (sock strm') = tx ssk @ answer \<and>
    (\<forall>n n' sk. answered_by nw cl answer n n' sk \<longrightarrow>
      (\<exists>res sk'. client_Get nw w cl target [] None cst (new_conn n) =
          Returns (\<lparr> rs_response = Some res, rs_error = Success, rs_request_headers = client_headers cl \<rparr>, cst, new_conn (nw_close nw n' sk')) \<and>
        tx sk' = tx sk @ request \<and> res_status res = 200 \<and> res_body res = c))"
  using client_download_run [OF assms(5-8) assms(9) [unfolded cl_def] assms(10) [unfolded request_def target_def cl_def] assms(11-15)
    assms(16) [unfolded request_def target_def cl_def]]
  unfolding svr_def cl_def target_def request_def .

section \<open>Witnesses\<close>

definition demo_client :: client where "demo_client = ClientImpl ''frs'' 8000"

definition demo_get :: string where "demo_get = request_head ''GET'' (file_target ''im'' ''pic'' ''a'') (client_headers demo_client)"

lemma demo_client_host: "client_host demo_client = ''frs:8000''"
  by (simp add: demo_client_def client_host_def ClientImpl_def adjust_host_string_def demo_addresses)

theorem client_downloads_file_witness:
  "\<exists>closed strm' answer res sk'. process_request (\<lambda>_. 0) (\<lambda>_. False) (frs_server demo_env (\<lambda>_ _. False) [] []) demo_connection
      \<lparr> sock = peer_socket [demo_get], read_buff = [] \<rparr> False (demo_cache [(''a'', Reg ''data'')]) =
      Returns (True, closed, demo_cache [(''a'', Reg ''data'')], strm') \<and> tx (sock strm') = answer \<and>
    client_Get scripted_network () demo_client (file_target ''im'' ''pic'' ''a'') [] None () (new_conn [peer_socket [answer]]) =
      Returns (\<lparr> rs_response = Some res, rs_error = Success, rs_request_headers = client_headers demo_client \<rparr>, (), new_conn []) \<and>
    res_body res = ''data''"
proof -
  have st: "stat (w_fs (demo_cache [(''a'', Reg ''data'')])) (cache_file ''im'' ''pic'' ''a'') = Some (Reg ''data'')"
    using stat_file_key [OF demo_cache_key, of "[(''a'', Reg ''data'')]" "''a''"] plain_a demo_cache_simps(2) by simp
  have sn: "safe_name ''im''" "safe_name ''pic''" "safe_name ''a''" "find_sub ''a'' ''.metadata'' 0 = None"
    by (simp_all add: safe_name_def c_isalnum_def c_isdigit_def c_isupper_def c_islower_def find_sub_def)
  have host: "wire_header (''Host'', client_host demo_client)" by (simp add: demo_client_host wire_header_def is_space_or_tab_def)
  have h: "head_arrives (peer_socket [demo_get]) demo_get [] []"
    by (rule head_arrives_at_once) (simp_all add: peer_socket_def demo_get_def request_head_def request_line_def file_target_def
        client_headers_def demo_client_host header_line_def read_buff_size_def)
  have len: "length demo_get \<le> read_buff_size"
    by (simp add: demo_get_def request_head_def request_line_def file_target_def client_headers_def demo_client_host header_line_def read_buff_size_def)
  have fd: "cn_fd demo_connection < FD_SETSIZE" by (simp add: demo_connection_def FD_SETSIZE_def)
  have max: "length ''data'' \<le> string_max_size" by (simp add: string_max_size_def)
  have sk: "tx_quota (peer_socket segs) = None" "0 < tx_max (peer_socket segs)" "tx (peer_socket segs) = []" "concat (rx (peer_socket [x])) = x"
    "answered_by scripted_network demo_client x [peer_socket [x]] [] (peer_socket [x])" "nw_close scripted_network n s = n" for segs x n s
    unfolding demo_client_def answered_new by (simp_all add: peer_socket_def scripted_network_def)
  from client_downloads_file [OF sn host [unfolded demo_client_def] h [unfolded demo_get_def demo_client_def] demo_waiting fd st _ max
      len [unfolded demo_get_def demo_client_def],
      of "\<lambda>_. 0" demo_env "\<lambda>_ _. False" "[]" "[]" False scripted_network "()" "()"]
  obtain closed strm' answer where r: "process_request (\<lambda>_. 0) (\<lambda>_. False) (frs_server demo_env (\<lambda>_ _. False) [] []) demo_connection
      \<lparr> sock = peer_socket [demo_get], read_buff = [] \<rparr> False (demo_cache [(''a'', Reg ''data'')]) =
      Returns (True, closed, demo_cache [(''a'', Reg ''data'')], strm')" "tx (sock strm') = answer"
    "\<forall>n n' sk. answered_by scripted_network demo_client answer n n' sk \<longrightarrow>
      (\<exists>res sk'. client_Get scripted_network () demo_client (file_target ''im'' ''pic'' ''a'') [] None () (new_conn n) =
          Returns (\<lparr> rs_response = Some res, rs_error = Success, rs_request_headers = client_headers demo_client \<rparr>, (), new_conn (nw_close scripted_network n' sk')) \<and>
        tx sk' = tx sk @ demo_get \<and> res_status res = 200 \<and> res_body res = ''data'')"
    unfolding demo_get_def [symmetric] demo_client_def [symmetric] sk(3) append_Nil by blast
  from r(3) [THEN spec, THEN spec, THEN spec, THEN mp, OF sk(5)]
  obtain res sk' where
    "client_Get scripted_network () demo_client (file_target ''im'' ''pic'' ''a'') [] None () (new_conn [peer_socket [answer]]) =
      Returns (\<lparr> rs_response = Some res, rs_error = Success, rs_request_headers = client_headers demo_client \<rparr>, (), new_conn (nw_close scripted_network [] sk'))"
    "res_body res = ''data''" by blast
  with r(1,2) sk(6) show ?thesis by auto
qed

section \<open>A server that always redirects\<close>

definition endless_redirects :: "nat network" where
  "endless_redirects = \<lparr> nw_dial = (\<lambda>n host ip port. (Inr redirecting_peer, n + 1)), nw_close = (\<lambda>n sk. n) \<rparr>"

definition following_client :: client where "following_client = set_follow_location True demo_client"

lemma endless_laws: "network_ok endless_redirects" "counts_dials endless_redirects (\<lambda>n. n)"
  by (auto simp: network_ok_def counts_dials_def endless_redirects_def redirecting_peer_def)

lemma following_facts:
  "plain_client following_client" "redirected following_client (res :: 'w Response) \<longleftrightarrow> 300 < res_status res \<and> res_status res < 400"
  "\<not> cl_keep_alive following_client" "cl_host following_client = ''frs''" "cl_port following_client = 8000"
  by (simp_all add: following_client_def set_follow_location_def demo_client_def ClientImpl_def plain_client_def proxied_def redirected_def)

lemma following_request:
  "prepare_headers following_client True (new_request ''GET'' path [] :: ('w, 'c) outgoing) =
     (og_req (new_request ''GET'' path [] :: ('w, 'c) outgoing))\<lparr> req_headers := client_headers demo_client \<rparr>"
proof -
  have "client_headers following_client = client_headers demo_client" "client_host following_client = ''frs:8000''" "no_credentials following_client"
    unfolding demo_client_host [symmetric]
    by (simp_all add: client_headers_def client_host_def following_client_def set_follow_location_def demo_client_def ClientImpl_def no_credentials_def)
  then show ?thesis using prepare_get [of following_client path] by (simp add: has_crlf_def c_str_def)
qed

abbreviation redirect_response :: "'w Response" where
  "redirect_response \<equiv> Response_default\<lparr> res_version := ''HTTP/1.1'', res_status := 302, res_reason := ''Found'', res_headers := redirect_headers \<rparr>"

lemma redirect_exchange:
  fixes w :: 'w and c :: 'c
  assumes "path \<in> {''/'', ''/again''}"
  shows "\<exists>req s'. client_process_request following_client w \<lparr> sock = redirecting_peer, read_buff = [] \<rparr> (new_request ''GET'' path [] :: ('w, 'c) outgoing)
      Response_default True Success c = Some (True, Success, (new_request ''GET'' path [])\<lparr> og_req := req \<rparr>, redirect_response, c, s')"
proof -
  let ?s = "\<lparr> sock = redirecting_peer, read_buff = [] \<rparr>" and ?og = "new_request ''GET'' path [] :: ('w, 'c) outgoing"
  let ?req = "(og_req ?og)\<lparr> req_headers := client_headers demo_client \<rparr>"
  have og: "req_method (og_req ?og) = ''GET''" "req_path (og_req ?og) = path" "body_only ?og"
    by (simp_all add: new_request_def Request_default_def body_only_def)
  have live: "socket_live ?s" by (simp add: socket_live_def redirecting_peer_def is_socket_alive_def)
  have e: "encode_url (req_path (og_req ?og)) = path" unfolding og using assms by (auto; code_simp)
  have pend: "socket_pending ?s = ''HTTP/1.1 302 Found'' @ CRLF @ concat (map header_line redirect_headers) @ CRLF @ []"
    by (simp add: socket_pending_def redirecting_peer_def)
  have n: "NUL \<notin> set path" using assms by auto
  obtain s1 where s1: "write_request following_client w ?s ?og True Success = Some (True, Success, ?og\<lparr> og_req := ?req \<rparr>, s1)"
    "socket_pending s1 = socket_pending ?s"
    using write_request_sent [OF live og(3) following_facts(1) _ e n following_request [symmetric], of w] og by auto
  have m: "match_response_line (''HTTP/1.1 302 Found'' @ CRLF) = Some (''HTTP/1.1'', 302, ''Found'')" by code_simp
  have wire: "mm_sorted ci redirect_headers" "\<forall>kv \<in> set redirect_headers. wire_header kv"
    by (simp_all add: redirect_headers_def header_eval wire_header_def is_space_or_tab_def)
  obtain s2 where s2: "receive_response following_client (?og\<lparr> og_req := ?req \<rparr>) s1 Response_default Success c =
      receive_body following_client (?og\<lparr> og_req := ?req \<rparr>) s2 redirect_response Success c"
    using receive_response_sent [OF s1(2) [unfolded pend] _ m _ wire, of Response_default following_client "?og\<lparr> og_req := ?req \<rparr>" Success c]
    by (auto simp: Response_default_def set_response_line_def)
  have b: "strtoull_10 ''0'' = 0" "find_sub [] ''br'' 0 = None" by code_simp+
  have "receive_body following_client (?og\<lparr> og_req := ?req \<rparr>) s2 redirect_response Success c = Some (True, Success, redirect_response, c, s2)"
    using og by (simp add: receive_body_def Let_def read_content_def redirect_headers_def prepare_content_receiver_def get_header_value_def
        get_header_value_u64_def is_chunked_transfer_encoding_def has_header_def header_eval b new_request_def Response_default_def following_facts)
  with s1(1) s2 show ?thesis by (auto simp: client_process_request_def)
qed

lemma redirect_back:
  "client_redirect endless_redirects following_client sender (ca\<lparr> ca_res := redirect_response \<rparr>) =
     redirect_with (sender following_client) ''/again'' ''/again'' (ca\<lparr> ca_res := redirect_response \<rparr>)"
proof -
  have l: "res_get_header_value (redirect_response :: 'a Response) ''location'' 0 = ''/again''"
    by (simp add: res_get_header_value_def get_header_value_def redirect_headers_def header_eval)
  have m: "match_location ''/again'' = Some \<lparr> lo_scheme = [], lo_host = [], lo_port = [], lo_path = ''/again'', lo_query = [] \<rparr>" by code_simp
  have d: "decode_url ''/again'' True = ''/again''" by code_simp
  show ?thesis using l m d by (simp add: client_redirect_def next_port_def following_facts Let_def)
qed

lemma redirect_once:
  fixes og :: "('w, 'c) outgoing" and w :: 'w and c :: 'c
  assumes "path \<in> {''/'', ''/again''}" "cs_socket cs = None"
  defines "og \<equiv> new_request ''GET'' path []"
  obtains cs' where "cs_socket cs' = None" "cs_net cs' = cs_net cs + 1"
    "\<And>redirect. send_once endless_redirects following_client w redirect
        \<lparr> ca_error = Success, ca_out = og, ca_res = Response_default, ca_state = c, ca_conn = cs \<rparr> =
      obind (redirect \<lparr> ca_error = Success, ca_out = og, ca_res = redirect_response, ca_state = c, ca_conn = cs' \<rparr>)
        (\<lambda>(ret, ca1). Returns (ret, ca1\<lparr> ca_conn := finish_request endless_redirects True ret (ca_conn ca1),
           ca_error := (if \<not> ret \<and> ca_error ca1 = Success then Unknown else ca_error ca1) \<rparr>))"
proof -
  have "\<exists>req s'. client_process_request following_client w \<lparr> sock = redirecting_peer, read_buff = [] \<rparr> og Response_default True Success c =
    Some (True, Success, og\<lparr> og_req := req \<rparr>, redirect_response, c, s')" unfolding og_def by (rule redirect_exchange [OF assms(1)])
  then obtain req s' where x: "client_process_request following_client w \<lparr> sock = redirecting_peer, read_buff = [] \<rparr> og Response_default True Success c =
    Some (True, Success, og\<lparr> og_req := req \<rparr>, redirect_response, c, s')" by (elim exE) (rule that)
  have p: "req_path (og_req og) \<noteq> []" using assms(1) by (auto simp: og_def new_request_def)
  have o: "open_socket endless_redirects following_client (cs\<lparr> cs_should_close := False \<rparr>) =
      (None, cs\<lparr> cs_should_close := False, cs_net := cs_net cs + 1, cs_socket := Some redirecting_peer \<rparr>)"
    using assms(2) following_facts(1) by (simp add: open_socket_def create_and_connect_socket_def create_client_socket_def endless_redirects_def plain_client_def)
  have close: "wants_closing (redirect_response :: 'w Response)" by (simp add: wants_closing_def res_get_header_value_def get_header_value_def redirect_headers_def header_eval)
  let ?cs' = "cs\<lparr> cs_should_close := False, cs_in_flight := cs_in_flight cs + 1, cs_socket := None, cs_net := cs_net cs + 1 \<rparr>"
  show ?thesis
  proof (rule that [of ?cs'])
    fix redirect
    show "send_once endless_redirects following_client w redirect
        \<lparr> ca_error = Success, ca_out = og, ca_res = Response_default, ca_state = c, ca_conn = cs \<rparr> =
      obind (redirect \<lparr> ca_error = Success, ca_out = og, ca_res = redirect_response, ca_state = c, ca_conn = ?cs' \<rparr>)
        (\<lambda>(ret, ca1). Returns (ret, ca1\<lparr> ca_conn := finish_request endless_redirects True ret (ca_conn ca1),
           ca_error := (if \<not> ret \<and> ca_error ca1 = Success then Unknown else ca_error ca1) \<rparr>))"
      unfolding send_once_def using o x p close
      by (simp add: plain_client_request [OF following_facts(1)] process_socket_def handle_request_def or_diverges_def following_facts
          close_client_socket_def endless_redirects_def Let_def)
  qed simp_all
qed

lemma redirects_exceeded:
  fixes w :: 'w and c :: 'c
  shows "path \<in> {''/'', ''/again''} \<Longrightarrow> cs_socket cs = None \<Longrightarrow>
    \<exists>ca. client_send endless_redirects w count following_client
        \<lparr> ca_error = Success, ca_out = new_request ''GET'' path [], ca_res = Response_default, ca_state = c, ca_conn = cs \<rparr> = Returns (False, ca) \<and>
      ca_error ca = ExceedRedirectCount \<and> cs_net (ca_conn ca) = cs_net cs + count + 1"
proof (induction count arbitrary: path cs)
  case 0
  obtain cs' where s: "cs_socket cs' = None" "cs_net cs' = cs_net cs + 1"
    "\<And>redirect. send_once endless_redirects following_client w redirect
        \<lparr> ca_error = Success, ca_out = new_request ''GET'' path [], ca_res = Response_default, ca_state = c, ca_conn = cs \<rparr> =
      obind (redirect \<lparr> ca_error = Success, ca_out = new_request ''GET'' path [], ca_res = redirect_response, ca_state = c, ca_conn = cs' \<rparr>)
        (\<lambda>(ret, ca1). Returns (ret, ca1\<lparr> ca_conn := finish_request endless_redirects True ret (ca_conn ca1),
           ca_error := (if \<not> ret \<and> ca_error ca1 = Success then Unknown else ca_error ca1) \<rparr>))"
    using redirect_once [OF 0, of w c] by blast
  have "cs_net (finish_request endless_redirects True False cs') = cs_net cs + 1"
    using finish_dials [OF endless_laws(2), of True False cs'] s(2) by simp
  then show ?case by (simp add: send_request_def s(3))
next
  case (Suc count)
  obtain cs' where s: "cs_socket cs' = None" "cs_net cs' = cs_net cs + 1"
    "\<And>redirect. send_once endless_redirects following_client w redirect
        \<lparr> ca_error = Success, ca_out = new_request ''GET'' path [], ca_res = Response_default, ca_state = c, ca_conn = cs \<rparr> =
      obind (redirect \<lparr> ca_error = Success, ca_out = new_request ''GET'' path [], ca_res = redirect_response, ca_state = c, ca_conn = cs' \<rparr>)
        (\<lambda>(ret, ca1). Returns (ret, ca1\<lparr> ca_conn := finish_request endless_redirects True ret (ca_conn ca1),
           ca_error := (if \<not> ret \<and> ca_error ca1 = Success then Unknown else ca_error ca1) \<rparr>))"
    using redirect_once [OF Suc.prems, of w c] by blast
  obtain ca where r: "client_send endless_redirects w count following_client
        \<lparr> ca_error = Success, ca_out = new_request ''GET'' ''/again'' [], ca_res = Response_default, ca_state = c, ca_conn = cs' \<rparr> = Returns (False, ca)"
      "ca_error ca = ExceedRedirectCount" "cs_net (ca_conn ca) = cs_net cs' + count + 1"
    using Suc.IH [OF _ s(1), of "''/again''"] by auto
  have q: "redirected_request 302 ''/again'' (new_request ''GET'' path []) = (new_request ''GET'' ''/again'' [] :: ('w, 'c) outgoing)"
    by (simp add: redirected_request_def with_path_def new_request_def)
  let ?ca = "\<lparr> ca_error = Success, ca_out = new_request ''GET'' path [], ca_res = redirect_response, ca_state = c, ca_conn = cs' \<rparr> :: ('w, nat, 'c) call"
  have "client_redirect endless_redirects following_client (client_send endless_redirects w count) ?ca =
      redirect_with (client_send endless_redirects w count following_client) ''/again'' ''/again'' ?ca"
    using redirect_back [of "client_send endless_redirects w count" ?ca] by simp
  then have "client_redirect endless_redirects following_client (client_send endless_redirects w count) ?ca =
      Returns (False, ca\<lparr> ca_out := ca_out ?ca, ca_res := ca_res ?ca \<rparr>)"
    using r(1) q by (simp add: redirect_with_def)
  moreover have "cs_net (finish_request endless_redirects True False (ca_conn ca)) = cs_net cs + Suc count + 1"
    using finish_dials [OF endless_laws(2), of True False "ca_conn ca"] s(2) r(3) by simp
  ultimately show ?case using r(2) by (simp add: send_request_def s(3))
qed

text \<open>
  C35. Redirects are bounded: one call of the client opens at most 21 connections, the first and one for each redirect it
  follows, whatever the servers answer and whichever hosts they name.
\<close>

theorem client_connections_bounded:
  assumes "network_ok nw" "counts_dials nw dials" "conn_ok cs" "body_only og"
    and "client_send_result nw w cl og c cs = Returns (rs, c', cs')"
  shows "dials (cs_net cs') \<le> dials (cs_net cs) + REDIRECT_MAX_COUNT + 1"
proof -
  let ?ca = "\<lparr> ca_error = Success, ca_out = og, ca_res = Response_default, ca_state = c, ca_conn = cs \<rparr>"
  have "startable ?ca" using assms(3,4) by (simp add: startable_def)
  from client_send_dials [OF assms(2,1) this, of REDIRECT_MAX_COUNT w cl] show ?thesis using assms(5)
    by (cases "client_send nw w REDIRECT_MAX_COUNT cl ?ca") (auto simp: client_send_result_def dials_within_def)
qed

text \<open>The bound is reached: a server that always redirects is asked 21 times, and then the client gives up.\<close>

theorem client_connections_bounded_witness:
  "\<exists>rs cs'. client_Get endless_redirects () following_client ''/'' [] None () (new_conn 0) = Returns (rs, (), cs') \<and>
    rs_error rs = ExceedRedirectCount \<and> rs_response rs = None \<and> cs_net cs' = 21 \<and> cs_net cs' \<le> 0 + REDIRECT_MAX_COUNT + 1"
proof -
  let ?og = "new_request ''GET'' ''/'' [] :: (unit, unit) outgoing"
  have og: "?og\<lparr> og_progress := None \<rparr> = ?og" by (simp add: new_request_def)
  obtain ca where r: "client_send endless_redirects () REDIRECT_MAX_COUNT following_client
      \<lparr> ca_error = Success, ca_out = ?og, ca_res = Response_default, ca_state = (), ca_conn = new_conn 0 \<rparr> = Returns (False, ca)"
    "ca_error ca = ExceedRedirectCount" "cs_net (ca_conn ca) = cs_net (new_conn (0 :: nat)) + REDIRECT_MAX_COUNT + 1"
    using redirects_exceeded [of "''/''" "new_conn 0" "()" REDIRECT_MAX_COUNT "()"] by (auto simp: new_conn_def)
  then have s: "client_send_result endless_redirects () following_client ?og () (new_conn 0) =
      Returns (\<lparr> rs_response = None, rs_error = ExceedRedirectCount, rs_request_headers = req_headers (og_req (ca_out ca)) \<rparr>, (), ca_conn ca)"
    by (simp add: client_send_result_def)
  have "body_only ?og" "conn_ok (new_conn (0 :: nat))" by simp_all
  from client_connections_bounded [OF endless_laws this(2,1) s] show ?thesis using s r(3) og
    by (simp add: client_Get_def new_conn_def REDIRECT_MAX_COUNT_def)
qed

end
