(* ===== verification/FrsRoundTrip.thy ===== *)
theory FrsRoundTrip
  imports FrsClient
begin

text \<open>
  Files over both ends of the connection: a form that the client of the library posts, the answer of the program's upload
  handler, and the file that a client gets back.
\<close>

section \<open>The client's form\<close>

definition client_form_headers :: "client \<Rightarrow> string \<Rightarrow> nat \<Rightarrow> headers" where
  "client_form_headers cl b n = [(''Accept'', ''*/*''), (''Connection'', ''close''), (''Content-Length'', dec n),
     (''Content-Type'', ''multipart/form-data; boundary='' @ b), (''Host'', client_host cl), (''User-Agent'', ''cpp-httplib/0.14.2'')]"

lemma boundary_chars:
  assumes "is_multipart_boundary_chars_valid b" "x \<in> set b"
  shows "x \<notin> {CR, LF, NUL, DQUOTE, CHR '';'', CHR '':'', CHR ''%'', SP, CHR 0x09}"
  using assms by (auto simp: is_multipart_boundary_chars_valid_def list_all_iff c_isalnum_def c_isdigit_def c_isupper_def c_islower_def)

lemma dec_chars: "x \<in> set (dec n) \<Longrightarrow> x \<notin> {CR, LF, NUL, CHR ''%'', SP, CHR 0x09, CHR '':''}"
  using dec_digits [of x n] by (auto simp: c_isdigit_def)

lemma no_crlf_values:
  "\<not> has_crlf (dec n)" "is_multipart_boundary_chars_valid b \<Longrightarrow> \<not> has_crlf (''multipart/form-data; boundary='' @ b)"
  using dec_chars [of _ n] boundary_chars [of b] by (subst has_crlf_set; auto)+

definition form_request :: "string \<Rightarrow> string \<Rightarrow> MultipartFormData \<Rightarrow> ('w, 'c) outgoing" where
  "form_request path b item = (new_request ''POST'' path [])\<lparr> og_req := (req_set_header (og_req (new_request ''POST'' path [] :: ('w, 'c) outgoing))
     ''Content-Type'' (''multipart/form-data; boundary='' @ b))\<lparr> req_body := serialize_multipart_formdata [item] b True \<rparr> \<rparr>"

lemma client_posts_form:
  "is_multipart_boundary_chars_valid b \<Longrightarrow>
    client_Post_form_boundary nw w cl path [] [item] b c cs = client_send_result nw w cl (form_request path b item) c cs"
  by (simp add: client_Post_form_boundary_def client_Post_def send_with_content_provider_def form_request_def Let_def
      serialize_multipart_formdata_get_content_type_def)

lemma prepare_form:
  fixes path b item
  defines "og \<equiv> form_request path b item :: ('w, 'c) outgoing"
  assumes "no_credentials cl" "\<not> has_crlf (client_host cl)" "is_multipart_boundary_chars_valid b"
  shows "prepare_headers cl True og = (og_req og)\<lparr> req_headers := client_form_headers cl b (length (serialize_multipart_formdata [item] b True)) \<rparr>"
proof -
  have h: "(if cl_port cl = 80 then cl_host cl else cl_host_and_port cl) = client_host cl" by (simp add: client_host_def)
  have s: "serialize_multipart_formdata [item] b True \<noteq> []" by (simp add: serialize_one multipart_body_def)
  note crlf = no_crlf_values(1) no_crlf_values(2) [OF assms(4)]
  show ?thesis unfolding prepare_headers_def Let_def h
    using assms(2,3) s crlf by (simp add: og_def form_request_def new_request_def authorization_headers_def no_credentials_def body_headers_def
        unless_header_def req_has_header_def has_header_def req_set_header_def Request_default_def header_eval client_form_headers_def
        CPPHTTPLIB_VERSION_def Let_def)
qed

section \<open>The server's view of it\<close>

lemma strtoull_dec: "n < 2 ^ 64 \<Longrightarrow> strtoull_10 (dec n) = of_nat n"
proof -
  assume n: "n < 2 ^ 64"
  have "c_str (dec n) = dec n" using dec_chars [of _ n] by (intro c_str_id) blast
  moreover have "scan_int (dec n) = Some (int n, [])" using scan_nat_dec [of "[]" n] by simp
  moreover have "\<not> \<bar>int n\<bar> \<ge> 2 ^ 64" using n by simp
  ultimately show ?thesis by (simp add: strtoull_10_def)
qed

lemma boundary_parsed:
  assumes "is_multipart_boundary_chars_valid b" "b \<noteq> []"
  shows "parse_multipart_boundary (''multipart/form-data; boundary='' @ b) = Some b"
proof -
  let ?t = "''multipart/form-data; boundary='' @ b"
  have f: "find_sub ?t ''boundary='' 0 = Some 21" by (simp add: find_sub_def prefix_def)
  have "takeWhile (\<lambda>c. c \<noteq> CHR '';'') b = b" unfolding takeWhile_eq_all_conv using boundary_chars [OF assms(1)] by simp
  from arg_cong [OF this, of length] have n: "find_first (\<lambda>c. c = CHR '';'') ?t 21 = None" by (simp only: find_first_def) simp
  have d: "drop (21 + length ''boundary='') ?t = b" by simp
  have "hd b \<noteq> DQUOTE" using boundary_chars [OF assms(1), of "hd b"] assms(2) by auto
  then have "trim_double_quotes_copy b = b" by (auto simp: trim_double_quotes_copy_def Let_def)
  then show ?thesis using f n d assms(2) by (simp add: parse_multipart_boundary_def)
qed

lemma form_request_seen:
  fixes cn m target cl
  assumes "is_multipart_boundary_chars_valid b" "n < 2 ^ 64"
  defines "req \<equiv> seen_request cn m target (client_form_headers cl b n)"
  shows "\<not> req_has_header req ''Range''" "req_get_header_value req ''Expect'' 0 = []" "req_get_header_value req ''Connection'' 0 = ''close''"
    "req_get_header_value req ''Content-Type'' 0 = ''multipart/form-data; boundary='' @ b" "req_has_header req ''Content-Length''"
    "get_header_value_u64 (req_headers req) ''Content-Length'' 0 0 = of_nat n" "\<not> is_chunked_transfer_encoding (req_headers req)"
    "prepare_content_receiver (req_headers req) d = None"
proof -
  have c: "c_str (''multipart/form-data; boundary='' @ b) = ''multipart/form-data; boundary='' @ b"
    using boundary_chars [OF assms(1)] by (intro c_str_id) auto
  have e: "find_sub [] ''br'' 0 = None" by code_simp
  have r: "mm_equal_range ci key (req_headers req) = mm_equal_range ci key (client_form_headers cl b n)"
    if "key \<in> {''Range'', ''Expect'', ''Connection'', ''Content-Type'', ''Content-Length'', ''Transfer-Encoding'', ''Content-Encoding''}" for key
    unfolding req_def by (rule seen_range) (use that in \<open>auto simp: header_eval\<close>)
  have v: "mm_equal_range ci ''Range'' (req_headers req) = []" "mm_equal_range ci ''Expect'' (req_headers req) = []"
    "mm_equal_range ci ''Transfer-Encoding'' (req_headers req) = []" "mm_equal_range ci ''Content-Encoding'' (req_headers req) = []"
    "mm_equal_range ci ''Connection'' (req_headers req) = [(''Connection'', ''close'')]"
    "mm_equal_range ci ''Content-Type'' (req_headers req) = [(''Content-Type'', ''multipart/form-data; boundary='' @ b)]"
    "mm_equal_range ci ''Content-Length'' (req_headers req) = [(''Content-Length'', dec n)]"
    by (subst r, simp, simp add: client_form_headers_def header_eval)+
  show "\<not> req_has_header req ''Range''" "req_has_header req ''Content-Length''" by (simp_all add: req_has_header_def has_header_def v)
  show "req_get_header_value req ''Expect'' 0 = []" "req_get_header_value req ''Connection'' 0 = ''close''"
    "req_get_header_value req ''Content-Type'' 0 = ''multipart/form-data; boundary='' @ b"
    using c by (simp_all add: req_get_header_value_def get_header_value_def v)
  show "get_header_value_u64 (req_headers req) ''Content-Length'' 0 0 = of_nat n"
    using strtoull_dec [OF assms(2)] by (simp add: get_header_value_u64_def v)
  show "\<not> is_chunked_transfer_encoding (req_headers req)" by (simp add: is_chunked_transfer_encoding_def get_header_value_def v c_tolower_def c_isupper_def)
  show "prepare_content_receiver (req_headers req) d = None" using e by (simp add: prepare_content_receiver_def get_header_value_def v)
qed

lemma form_head_lengths:
  assumes "is_multipart_boundary_chars_valid b" "length (request_head ''POST'' target (client_form_headers cl b n)) \<le> read_buff_size"
  shows "length (request_line ''POST'' target) \<le> REQUEST_URI_MAX_LENGTH" "length b + 4 \<le> read_buff_size" "length (dec n) \<le> read_buff_size"
proof -
  have c: "c_str (dec n) = dec n" "c_str (''multipart/form-data; boundary='' @ b) = ''multipart/form-data; boundary='' @ b"
    using dec_chars [of _ n] boundary_chars [OF assms(1)] by (intro c_str_id; auto)+
  show "length (request_line ''POST'' target) \<le> REQUEST_URI_MAX_LENGTH" "length b + 4 \<le> read_buff_size" "length (dec n) \<le> read_buff_size"
    using assms(2) c [simplified] by (simp_all add: request_head_def client_form_headers_def header_line_def read_buff_size_def REQUEST_URI_MAX_LENGTH_def)
qed

lemma form_request_accepted:
  assumes "cn_fd cn < FD_SETSIZE" "plain_target target" "wire_header (''Host'', client_host cl)" "is_multipart_boundary_chars_valid b" "b \<noteq> []" "n < 2 ^ 64"
    "length (request_head ''POST'' target (client_form_headers cl b n)) \<le> read_buff_size"
  shows "plain_request cn ''POST'' target (client_form_headers cl b n)"
proof -
  note len = form_head_lengths [OF assms(4,7)]
  have "mm_sorted ci (client_form_headers cl b n)" by (simp add: client_form_headers_def header_eval)
  moreover have "hd (dec n) \<in> set (dec n)" "last (dec n) \<in> set (dec n)" "last b \<in> set b" using assms(5) by simp_all
  then have "\<forall>kv \<in> set (client_form_headers cl b n). wire_header kv"
    using assms(3,5) dec_chars [of _ n] boundary_chars [OF assms(4)] len(2,3)
    by (auto simp: client_form_headers_def wire_header_def is_space_or_tab_def read_buff_size_def)
  ultimately show ?thesis using assms(1,2) len(1) form_request_seen [OF assms(4,6), of cn "''POST''" target cl]
    by (simp add: plain_request_def request_methods_def)
qed

text \<open>An item that the client can quote, with a boundary that its content does not hold.\<close>

definition postable :: "string \<Rightarrow> MultipartFormData \<Rightarrow> bool" where
  "postable b item \<longleftrightarrow> is_multipart_boundary_chars_valid b \<and> b \<noteq> [] \<and> quotable (mfd_name item) \<and> quotable (mfd_filename item) \<and>
     length (mfd_name item) + length (mfd_filename item) < 4000 \<and> mfd_content_type item = CONTENT_TYPE_APP_OCTET \<and>
     find_sub (mfd_content item @ CRLF @ ''--'' @ b) (CRLF @ ''--'' @ b) 0 = Some (length (mfd_content item)) \<and>
     length (serialize_multipart_formdata [item] b True) < 2 ^ 64"

lemma form_request_body:
  fixes cn target cl item b
  defines "body \<equiv> serialize_multipart_formdata [item] b True"
  assumes "postable b item" "first @ concat segs = body" "prefix (''--'' @ b @ CRLF) (first_piece first segs)" "length b + 4 \<le> read_buff_size"
  shows "form_body (frs_server env regex built startAt) (seen_request cn ''POST'' target (client_form_headers cl b (length body)))
    first segs (item\<lparr> mfd_content := [] \<rparr>) (mfd_content item)"
proof -
  note p = assms(2) [unfolded postable_def]
  have b: "is_multipart_boundary_chars_valid b" "b \<noteq> []" "length body < 2 ^ 64" using p by (simp_all add: body_def)
  have "plain_type (mfd_content_type item)" using p by (simp add: plain_type_def is_space_or_tab_def)
  then have l: "list_all line_ok (item_lines item)" "mp_header_fields (item_lines item) MultipartFormData_default = Some (item\<lparr> mfd_content := [] \<rparr>)"
    using item_lines_parsed [of item] p by auto
  note r = form_request_seen [OF b(1,3), of cn "''POST''" target cl]
  show ?thesis unfolding form_body_def
  proof (rule exI [of _ b], rule exI [of _ "item_lines item"], rule exI [of _ "[]"], intro conjI)
    show "is_multipart_form_data (seen_request cn ''POST'' target (client_form_headers cl b (length body)))"
      by (simp add: is_multipart_form_data_def r)
    show "parse_multipart_boundary (req_get_header_value (seen_request cn ''POST'' target (client_form_headers cl b (length body))) ''Content-Type'' 0) = Some b"
      unfolding r by (rule boundary_parsed [OF b(1,2)])
    show "sized_body (frs_server env regex built startAt) (seen_request cn ''POST'' target (client_form_headers cl b (length body)))
        (multipart_body b (item_lines item) (mfd_content item))"
      using r b(3) by (simp add: sized_body_def body_def serialize_one ULONG_MAX_def)
    show "first @ concat segs = multipart_body b (item_lines item) (mfd_content item) @ []"
      using assms(3) by (simp add: body_def serialize_one)
  qed (use assms(4,5) l p in \<open>auto simp: read_buff_size_def\<close>)
qed

section \<open>The answer\<close>

text \<open>The headers of an answer in JSON that ends the connection.\<close>

definition json_headers :: "nat \<Rightarrow> headers" where
  "json_headers n = [(''Connection'', ''close''), (''Content-Length'', dec n), (''Content-Type'', ''application/json'')]"

lemma json_headers_sent:
  assumes "upload_response env res" "req_method req = ''POST''" "req_ranges req = []" "req_get_header_value req ''Connection'' 0 = ''close''"
  shows "sent_headers engine svr close req res = json_headers (length (res_body res))"
proof -
  have r: "res_content_length res = 0" "res_content_provider res = None" "res_headers res = [(''Content-Type'', ''application/json'')]"
    using assms(1) by (simp_all add: upload_response_def)
  note n = no_crlf_values(1)
  show ?thesis
  proof (cases "res_body res = []")
    case True
    then have a: "fst (apply_ranges engine req res) = res"
      using r assms(3) by (simp add: apply_ranges_def apply_range_headers_def apply_provider_ranges_def encoding_type_def Let_def)
    have h: "res_headers (set_header res ''Connection'' ''close'') = [(''Connection'', ''close''), (''Content-Type'', ''application/json'')]"
      using r(3) by (simp add: set_header_def header_eval)
    then have t: "res_has_header (set_header res ''Connection'' ''close'') ''Content-Type''" "\<not> res_has_header (set_header res ''Connection'' ''close'') ''Content-Length''"
      by (simp_all add: res_has_header_def has_header_def header_eval)
    have d: "dec 0 = ''0''" by (simp add: radix.simps [of 10] hex_digit_def char_of_def bit_0)
    show ?thesis using h t r True assms(2,4) d
      by (simp add: sent_headers_def a add_response_headers_def json_headers_def set_header_def [of "set_header res ''Connection'' ''close''"] header_eval Let_def)
  next
    case False
    let ?res = "set_header res ''Content-Length'' (dec (length (res_body res)))"
    have a: "fst (apply_ranges engine req res) = ?res"
      using r assms(3) False by (simp add: apply_ranges_def apply_range_headers_def apply_body_ranges_def encoding_type_def Let_def)
    have h: "res_headers ?res = [(''Content-Length'', dec (length (res_body res))), (''Content-Type'', ''application/json'')]"
      using r(3) n by (simp add: set_header_def header_eval)
    then have h2: "res_headers (set_header ?res ''Connection'' ''close'') = json_headers (length (res_body res))"
      by (simp add: set_header_def [of ?res] header_eval json_headers_def)
    then have t: "res_has_header (set_header ?res ''Connection'' ''close'') ''Content-Type''" "res_has_header (set_header ?res ''Connection'' ''close'') ''Content-Length''"
      by (simp_all add: res_has_header_def has_header_def json_headers_def header_eval)
    show ?thesis using h2 t assms(2,4) by (simp add: sent_headers_def a add_response_headers_def Let_def)
  qed
qed

lemma dec_length: "n < 10 ^ Suc k \<Longrightarrow> length (dec n) \<le> Suc k"
proof (induction k arbitrary: n)
  case 0
  then show ?case by (subst radix.simps) simp
next
  case (Suc k)
  have "n div 10 < 10 ^ Suc k" using Suc.prems by (intro less_mult_imp_div_less) simp
  from Suc.IH [OF this] show ?case by (subst radix.simps) simp
qed

lemma json_headers_wire:
  assumes "n \<le> string_max_size"
  shows "mm_sorted ci (json_headers n)" "\<forall>kv \<in> set (json_headers n). wire_header kv" "\<not> is_chunked_transfer_encoding (json_headers n)"
    "has_header (json_headers n) ''Content-Length''" "unat (get_header_value_u64 (json_headers n) ''Content-Length'' 0 0) = n"
    "prepare_content_receiver (json_headers n) d = None"
proof -
  have n: "n < 2 ^ 64" using assms by (simp add: string_max_size_def)
  have e: "find_sub [] ''br'' 0 = None" by code_simp
  have v: "mm_equal_range ci ''Transfer-Encoding'' (json_headers n) = []" "mm_equal_range ci ''Content-Encoding'' (json_headers n) = []"
    "mm_equal_range ci ''Content-Length'' (json_headers n) = [(''Content-Length'', dec n)]"
    by (simp_all add: json_headers_def header_eval)
  show "mm_sorted ci (json_headers n)" by (simp add: json_headers_def header_eval)
  have "length (dec n) \<le> Suc 19" by (rule dec_length) (use n in simp)
  then show "\<forall>kv \<in> set (json_headers n). wire_header kv"
    using dec_chars [of "hd (dec n)" n] dec_chars [of "last (dec n)" n] dec_chars [of _ n]
    by (auto simp: json_headers_def wire_header_def is_space_or_tab_def)
  show "\<not> is_chunked_transfer_encoding (json_headers n)" by (simp add: is_chunked_transfer_encoding_def get_header_value_def v c_tolower_def c_isupper_def)
  show "has_header (json_headers n) ''Content-Length''" by (simp add: has_header_def v)
  show "unat (get_header_value_u64 (json_headers n) ''Content-Length'' 0 0) = n"
    using strtoull_dec [OF n] n by (simp add: get_header_value_u64_def v unsigned_of_nat take_bit_nat_eq_self)
  show "prepare_content_receiver (json_headers n) d = None" using e by (simp add: prepare_content_receiver_def get_header_value_def v)
qed

lemma status_answers:
  assumes "st \<in> {200, 400}"
  obtains l r where "status_line st = l @ CRLF" "LF \<notin> set l" "match_response_line (l @ CRLF) = Some (''HTTP/1.1'', st, r)"
proof -
  have "status_line 200 = ''HTTP/1.1 200 OK'' @ CRLF" "status_line 400 = ''HTTP/1.1 400 Bad Request'' @ CRLF"
    "match_response_line (''HTTP/1.1 200 OK'' @ CRLF) = Some (''HTTP/1.1'', 200, ''OK'')"
    "match_response_line (''HTTP/1.1 400 Bad Request'' @ CRLF) = Some (''HTTP/1.1'', 400, ''Bad Request'')" by code_simp+
  then show ?thesis using assms that [of "''HTTP/1.1 200 OK''" "''OK''"] that [of "''HTTP/1.1 400 Bad Request''" "''Bad Request''"] by auto
qed

text \<open>The client's exchange over a socket whose peer answers in JSON.\<close>

lemma client_post_answered:
  fixes host port a r f b item and w :: 'w and cst :: 'c
  defines "cl \<equiv> ClientImpl host port" and "target \<equiv> file_target a r f" and "body \<equiv> serialize_multipart_formdata [item] b True"
  assumes "safe_name a" "safe_name r" "safe_name f" "\<not> has_crlf (client_host cl)" "is_multipart_boundary_chars_valid b"
    and "nw_dial nw n host [] port = (Inr sk, n')" "tx_quota sk = None" "0 < tx_max sk"
    and "concat (rx sk) = status_line st @ concat (map header_line (json_headers (length t))) @ CRLF @ t"
    and "st \<in> {200, 400}" "length t \<le> string_max_size"
  shows "\<exists>res sk'. client_Post_form_boundary nw w cl target [] [item] b cst (new_conn n) =
      Returns (\<lparr> rs_response = Some res, rs_error = Success, rs_request_headers = client_form_headers cl b (length body) \<rparr>, cst, new_conn (nw_close nw n' sk')) \<and>
    tx sk' = tx sk @ request_head ''POST'' target (client_form_headers cl b (length body)) @ body \<and> res_status res = st \<and> res_body res = t"
proof -
  let ?og = "form_request target b item :: ('w, 'c) outgoing"
  let ?hs = "client_form_headers cl b (length body)"
  obtain l rs where l: "status_line st = l @ CRLF" "LF \<notin> set l" "match_response_line (l @ CRLF) = Some (''HTTP/1.1'', st, rs)"
    using status_answers [OF assms(13)] .
  let ?res = "(set_response_line (''HTTP/1.1'', st, rs) Response_default)\<lparr> res_headers := json_headers (length t) \<rparr> :: 'w Response"
  have og: "req_method (og_req ?og) = ''POST''" "req_path (og_req ?og) = target" "body_only ?og" "req_body (og_req ?og) = body"
    by (simp_all add: form_request_def new_request_def Request_default_def body_only_def req_set_header_def body_def)
  have pr: "prepare_headers cl True ?og = (og_req ?og)\<lparr> req_headers := ?hs \<rparr>"
    unfolding body_def by (rule prepare_form) (use assms(7,8) in \<open>simp_all add: cl_def\<close>)
  have cl: "plain_client cl" "cl_host cl = host" "cl_port cl = port" by (simp_all add: cl_def) (simp_all add: ClientImpl_def)
  have dial: "nw_dial nw n (cl_host cl) [] (cl_port cl) = (Inr sk, n')" unfolding cl using assms(9) .
  note tc = plain_target_chars [OF safe_target(1) [OF assms(4-6)], folded target_def]
  have path: "encode_url (req_path (og_req ?og)) = req_path (og_req ?og)" "NUL \<notin> set (req_path (og_req ?og))" "req_path (og_req ?og) \<noteq> []"
    unfolding og using tc(1,4) encode_plain [OF assms(4-6)] by (simp_all add: target_def)
  note wire = json_headers_wire [OF assms(14)]
  have nr: "\<not> redirected cl ?res" using assms(13) by (auto simp: redirected_def set_response_line_def)
  then have col: "collects cl (?og\<lparr> og_req := (og_req ?og)\<lparr> req_headers := ?hs \<rparr> \<rparr>) ?res" using wire(6) og assms(13)
    by (auto simp: collects_def form_request_def new_request_def set_response_line_def)
  have recv: "\<exists>s'. receive_body cl (?og\<lparr> og_req := (og_req ?og)\<lparr> req_headers := ?hs \<rparr> \<rparr>) s ?res Success cst =
      Some (True, Success, ?res\<lparr> res_body := t \<rparr>, cst, s') \<and> tx (sock s') = tx (sock s)" if "socket_pending s = t" for s
    using receive_sized_body [OF col _ _ _ assms(14), of s "[]" cst] wire(3-5) that assms(14)
    by (simp add: set_response_line_def Response_default_def string_max_size_def ULONG_MAX_def) blast
  have "\<exists>sk'. client_send_result nw w cl ?og cst (new_conn n) = Returns (\<lparr> rs_response = Some (?res\<lparr> res_body := t \<rparr>), rs_error = Success,
      rs_request_headers = ?hs \<rparr>, cst, new_conn (nw_close nw n' sk')) \<and>
    tx sk' = tx sk @ request_head (req_method (og_req ?og)) (req_path (og_req ?og)) ?hs @ req_body (og_req ?og)"
    by (rule exchange_run [OF cl(1) dial assms(10,11) og(3) pr _ path assms(12) [unfolded l(1) append_assoc] l(2,3) _ wire(1,2) recv])
      (use og nr assms(13) in \<open>auto simp: redirected_def\<close>)
  then show ?thesis using og client_posts_form [OF assms(8), of nw w cl target item cst "new_conn n"]
    by (intro exI [of _ "?res\<lparr> res_body := t \<rparr>"]) (auto simp: set_response_line_def)
qed

lemma upload_fresh:
  assumes "upload_result before ds f c res after" "before (ds @ [f @ ''.tmp'']) = None"
  shows "if hex_text (rfc_md5 (bytes_of c)) = f then res_status res = 200 \<and> after = before(ds @ [f] \<mapsto> c)
    else res_status res = 400 \<and> after = before(ds @ [f @ ''.tmp''] \<mapsto> c)"
proof -
  have "f @ ''.tmp'' \<noteq> f" by simp
  then show ?thesis using assms by (auto simp: upload_result_def fun_upd_twist intro!: ext)
qed

text \<open>The replies of the upload handler, which the JSON library formats, are no longer than a string can be.\<close>

definition replies_fit :: "('s, 'v) frs_env \<Rightarrow> bool" where
  "replies_fit env \<longleftrightarrow> list_all (\<lambda>(st, code, msg). length (res_body (SetResponseMsg env (Response_default :: 's response) st code msg)) \<le> string_max_size)
     upload_replies"

lemma client_upload_run:
  fixes env :: "('s, 'v) frs_env" and regex built startAt host port a r f b item and nw :: "'n network" and w :: 'w and cst :: 'c
  defines "svr \<equiv> frs_server env regex built startAt" and "cl \<equiv> ClientImpl host port" and "target \<equiv> file_target a r f"
    and "body \<equiv> serialize_multipart_formdata [item] b True"
  defines "request \<equiv> request_head ''POST'' target (client_form_headers cl b (length body))"
  assumes "shell_ok (env_popen env)" "upload_place (w_fs wo) (cache_root @ [a, r]) f" "postable b item" "wire_header (''Host'', client_host cl)"
    and "head_arrives ssk request first segs" "first @ concat segs = body" "prefix (''--'' @ b @ CRLF) (first_piece first segs)" "waiting_peer ssk" "cn_fd cn < FD_SETSIZE"
    and "fs_content (w_fs wo) (cache_root @ [a, r, f @ ''.tmp'']) = None" "replies_fit env" "length request \<le> read_buff_size"
  shows "\<exists>closed wo' strm' answer. process_request engine shut svr cn \<lparr> sock = ssk, read_buff = [] \<rparr> close wo =
      Returns (True, closed, wo', strm') \<and> tx (sock strm') = tx ssk @ answer \<and> w_s3 wo' = w_s3 wo \<and>
    fs_content (w_fs wo') = (fs_content (w_fs wo))(cache_root @ [a, r, if hex_text (rfc_md5 (bytes_of (mfd_content item))) = f then f else f @ ''.tmp'']
      \<mapsto> mfd_content item) \<and>
    (\<forall>n n' sk. answered_by nw cl answer n n' sk \<longrightarrow>
      (\<exists>res sk'. client_Post_form_boundary nw w cl target [] [item] b cst (new_conn n) =
          Returns (\<lparr> rs_response = Some res, rs_error = Success, rs_request_headers = client_form_headers cl b (length body) \<rparr>, cst,
            new_conn (nw_close nw n' sk')) \<and>
        tx sk' = tx sk @ request @ body \<and>
        res_status res = (if hex_text (rfc_md5 (bytes_of (mfd_content item))) = f then 200 else 400)))"
proof -
  let ?ok = "hex_text (rfc_md5 (bytes_of (mfd_content item))) = f"
  let ?hs = "client_form_headers cl b (length body)"
  have sn: "safe_name a" "safe_name r" "safe_name f" using assms(7) by (auto simp: upload_place_def)
  have b: "is_multipart_boundary_chars_valid b" "b \<noteq> []" "length body < 2 ^ 64" using assms(8) by (simp_all add: postable_def body_def)
  note len = assms(17) form_head_lengths(2) [OF b(1) assms(17) [unfolded request_def]]
  have plain: "plain_request cn ''POST'' target ?hs"
    using form_request_accepted [OF assms(14) _ assms(9) b] len(1) safe_target(1) [OF sn] by (simp add: request_def target_def)
  have h: "NUL \<notin> set (client_host cl)" "CR \<notin> set (client_host cl)" "LF \<notin> set (client_host cl)" using assms(9) by (auto simp: wire_header_def)
  then have host: "\<not> has_crlf (client_host cl)" by (simp add: has_crlf_set)
  have fb: "form_body svr (seen_request cn ''POST'' target ?hs) first segs (item\<lparr> mfd_content := [] \<rparr>) (mfd_content item)"
    unfolding svr_def body_def using form_request_body [OF assms(8) _ assms(12) len(2)] assms(11) by (simp add: body_def)
  have ct: "mfd_content_type (item\<lparr> mfd_content := [] \<rparr>) = CONTENT_TYPE_APP_OCTET" using assms(8) by (simp add: postable_def)
  from upload_run [OF assms(6,7) assms(10) [unfolded request_def target_def] plain [unfolded target_def] assms(13) fb [unfolded svr_def target_def] ct,
      of engine shut close] assms(15)
  obtain closed wo' strm' and res :: "'s response" and hs' req where u:
    "process_request engine shut svr cn \<lparr> sock = ssk, read_buff = [] \<rparr> close wo = Returns (True, closed, wo', strm')"
    "tx (sock strm') = tx ssk @ status_line (res_status res) @ concat (map header_line hs') @ CRLF @ res_body res" "w_s3 wo' = w_s3 wo"
    "upload_result (fs_content (w_fs wo)) (cache_root @ [a, r]) f (mfd_content item) res (fs_content (w_fs wo'))"
    "upload_response env res" "req_method req = ''POST''" "req_ranges req = []"
    "req_headers req = req_headers (seen_request cn ''POST'' target ?hs)" "hs' = sent_headers engine svr close req res"
    unfolding target_def svr_def by (auto simp del: append_assoc)
  have "req_get_header_value req ''Connection'' 0 = ''close''"
    using form_request_seen(3) [OF b(1,3)] u(8) by (simp add: req_get_header_value_def)
  from json_headers_sent [OF u(5-7) this] have hs: "hs' = json_headers (length (res_body res))" using u(9) by simp
  have fresh: "if ?ok then res_status res = 200 \<and> fs_content (w_fs wo') = (fs_content (w_fs wo))(cache_root @ [a, r, f] \<mapsto> mfd_content item)
    else res_status res = 400 \<and> fs_content (w_fs wo') = (fs_content (w_fs wo))(cache_root @ [a, r, f @ ''.tmp''] \<mapsto> mfd_content item)"
    using upload_fresh [OF u(4)] assms(15) by simp
  let ?answer = "status_line (res_status res) @ concat (map header_line hs') @ CRLF @ res_body res"
  have run: "\<exists>res' sk'. client_Post_form_boundary nw w cl target [] [item] b cst (new_conn n) =
      Returns (\<lparr> rs_response = Some res', rs_error = Success, rs_request_headers = ?hs \<rparr>, cst, new_conn (nw_close nw n' sk')) \<and>
    tx sk' = tx sk @ request @ body \<and> res_status res' = (if ?ok then 200 else 400)"
    if "nw_dial nw n host [] port = (Inr sk, n')" "tx_quota sk = None" "0 < tx_max sk" "concat (rx sk) = ?answer" for n n' sk
  proof -
    have "res_status res \<in> {200, 400}" "length (res_body res) \<le> string_max_size"
      using fresh u(5) assms(16) by (auto simp: upload_response_def replies_fit_def list_all_iff split: if_splits)
    from client_post_answered [OF sn _ b(1) that(1-3) _ this, where item = item and w = w and cst = cst] host that(4) fresh show ?thesis
      unfolding hs cl_def target_def request_def body_def by (auto split: if_splits)
  qed
  show ?thesis
  proof (rule exI [of _ closed], rule exI [of _ wo'], rule exI [of _ strm'], rule exI [of _ ?answer], intro conjI allI impI)
    show "fs_content (w_fs wo') = (fs_content (w_fs wo))(cache_root @ [a, r, if ?ok then f else f @ ''.tmp''] \<mapsto> mfd_content item)"
      using fresh by (auto split: if_splits)
    show "process_request engine shut svr cn \<lparr> sock = ssk, read_buff = [] \<rparr> close wo = Returns (True, closed, wo', strm')" by (rule u(1))
    show "tx (sock strm') = tx ssk @ ?answer" by (rule u(2))
    show "w_s3 wo' = w_s3 wo" by (rule u(3))
  qed (unfold cl_def answered_new, elim conjE, rule run [unfolded cl_def])
qed

text \<open>
  C6. Both ends of an upload: the client of the library posts a file as the octet-stream part of a form, whose names are
  short and need no escaping and whose boundary the content does not hold, to a safe name under which the cache has neither a file nor a left
  temporary file.  The server of the program receives the bytes in any segments that do not cut the opening delimiter
  of the form, behind a head of at most 4096 bytes.  When the name is the MD5 digest of the content, it stores the
  content under the name, and the client returns a response with status 200; otherwise the content is left in the
  temporary file and nothing is stored under the name, and the status is 400, where the interface document asks
  for 401.  No other file changes, nor does the store.  The client gets the answer, of a size that a string can have, in any segments and has closed
  its connection.
\<close>

theorem client_uploads_file:
  fixes env :: "('s, 'v) frs_env" and regex built startAt host port a r f b item and nw :: "'n network" and w :: 'w and cst :: 'c
  defines "svr \<equiv> frs_server env regex built startAt" and "cl \<equiv> ClientImpl host port" and "target \<equiv> file_target a r f"
    and "body \<equiv> serialize_multipart_formdata [item] b True"
  defines "request \<equiv> request_head ''POST'' target (client_form_headers cl b (length body))"
  assumes "shell_ok (env_popen env)" "upload_place (w_fs wo) (cache_root @ [a, r]) f" "postable b item" "wire_header (''Host'', client_host cl)"
    and "head_arrives ssk request first segs" "first @ concat segs = body" "prefix (''--'' @ b @ CRLF) (first_piece first segs)" "waiting_peer ssk" "cn_fd cn < FD_SETSIZE"
    and "fs_content (w_fs wo) (cache_root @ [a, r, f @ ''.tmp'']) = None" "replies_fit env" "length request \<le> read_buff_size"
  shows "\<exists>closed wo' strm' answer. process_request engine shut svr cn \<lparr> sock = ssk, read_buff = [] \<rparr> close wo =
      Returns (True, closed, wo', strm') \<and> tx (sock strm') = tx ssk @ answer \<and> w_s3 wo' = w_s3 wo \<and>
    fs_content (w_fs wo') = (fs_content (w_fs wo))(cache_root @ [a, r, if hex_text (rfc_md5 (bytes_of (mfd_content item))) = f then f else f @ ''.tmp'']
      \<mapsto> mfd_content item) \<and>
    (\<forall>n n' sk. answered_by nw cl answer n n' sk \<longrightarrow>
      (\<exists>res sk'. client_Post_form_boundary nw w cl target [] [item] b cst (new_conn n) =
          Returns (\<lparr> rs_response = Some res, rs_error = Success, rs_request_headers = client_form_headers cl b (length body) \<rparr>, cst,
            new_conn (nw_close nw n' sk')) \<and>
        tx sk' = tx sk @ request @ body \<and>
        res_status res = (if hex_text (rfc_md5 (bytes_of (mfd_content item))) = f then 200 else 400)))"
  using client_upload_run [OF assms(6-8) assms(9) [unfolded cl_def] assms(10) [unfolded request_def target_def cl_def body_def] assms(11) [unfolded body_def]
    assms(12-16) assms(17) [unfolded request_def target_def cl_def body_def]] unfolding svr_def cl_def target_def body_def request_def .

section \<open>Upload, then download\<close>

lemma digest_no_metadata: "find_sub (hex_text bs) ''.metadata'' 0 = None"
proof (cases "find_sub (hex_text bs) ''.metadata'' 0")
  case (Some i)
  then obtain zs where "drop i (hex_text bs) = ''.metadata'' @ zs" using find_sub_Some(3) [OF Some] by (auto simp: prefix_def)
  then have "CHR ''.'' \<in> set (drop i (hex_text bs))" by simp
  then have "CHR ''.'' \<in> set (hex_text bs)" by (rule in_set_dropD)
  from hex_text_no [OF this] show ?thesis by (simp add: c_isalnum_def c_isdigit_def c_isupper_def c_islower_def)
qed

text \<open>
  C2. A file survives both ends: what the client of the library posts as the octet-stream part of a form under its MD5 digest, and then asks for
  over another connection, comes back byte for byte.  The network may cut requests and answers into any segments, except
  that it must not cut the opening delimiter of the form: bytes of it are lost then, as \<open>split_opening_boundary_lost\<close>
  shows.  The file is not empty, the cache has neither a file nor a temporary file under the digest, the names in the
  form are short and need no escaping, the answers fit into strings, the content does not hold the boundary, and the heads of the requests are at most 4096 bytes long.
\<close>

theorem client_file_round_trip:
  fixes env :: "('s, 'v) frs_env" and regex built startAt host port a r b item and nw :: "'n network" and w :: 'w and cst :: 'c
  defines "svr \<equiv> frs_server env regex built startAt" and "cl \<equiv> ClientImpl host port" and "c \<equiv> mfd_content item"
    and "body \<equiv> serialize_multipart_formdata [item] b True"
  defines "target \<equiv> file_target a r (hex_text (rfc_md5 (bytes_of c)))"
  assumes "shell_ok (env_popen env)" "upload_place (w_fs wo) (cache_root @ [a, r]) (hex_text (rfc_md5 (bytes_of c)))" "postable b item"
    and "wire_header (''Host'', client_host cl)" "c \<noteq> []" "length c \<le> string_max_size" "replies_fit env"
    and "fs_content (w_fs wo) (cache_root @ [a, r, hex_text (rfc_md5 (bytes_of c)) @ ''.tmp'']) = None"
    and "head_arrives ssk (request_head ''POST'' target (client_form_headers cl b (length body))) first segs" "waiting_peer ssk" "cn_fd cn < FD_SETSIZE"
    and "first @ concat segs = body" "prefix (''--'' @ b @ CRLF) (first_piece first segs)"
    and "head_arrives ssk' (request_head ''GET'' target (client_headers cl)) [] segs'" "waiting_peer ssk'" "cn_fd cn' < FD_SETSIZE"
    and "length (request_head ''POST'' target (client_form_headers cl b (length body))) \<le> read_buff_size"
    and "length (request_head ''GET'' target (client_headers cl)) \<le> read_buff_size"
  shows "\<exists>closed wo' strm answer closed' strm' answer'.
    process_request engine (\<lambda>_. False) svr cn \<lparr> sock = ssk, read_buff = [] \<rparr> close wo = Returns (True, closed, wo', strm) \<and>
    tx (sock strm) = tx ssk @ answer \<and>
    process_request engine (\<lambda>_. False) svr cn' \<lparr> sock = ssk', read_buff = [] \<rparr> close' wo' = Returns (True, closed', wo', strm') \<and>
    tx (sock strm') = tx ssk' @ answer' \<and>
    (\<forall>n n' sk. answered_by nw cl answer n n' sk \<longrightarrow>
      (\<exists>rs res cs. client_Post_form_boundary nw w cl target [] [item] b cst (new_conn n) = Returns (rs, cst, cs) \<and>
        rs_response rs = Some res \<and> rs_error rs = Success \<and> res_status res = 200)) \<and>
    (\<forall>n n' sk. answered_by nw cl answer' n n' sk \<longrightarrow>
      (\<exists>rs res cs. client_Get nw w cl target [] None cst (new_conn n) = Returns (rs, cst, cs) \<and>
        rs_response rs = Some res \<and> rs_error rs = Success \<and> res_status res = 200 \<and> res_body res = c))"
proof -
  let ?f = "hex_text (rfc_md5 (bytes_of c))"
  have sn: "safe_name a" "safe_name r" "safe_name ?f" using assms(7) by (auto simp: upload_place_def)
  obtain closed wo' strm answer where u:
    "process_request engine (\<lambda>_. False) svr cn \<lparr> sock = ssk, read_buff = [] \<rparr> close wo = Returns (True, closed, wo', strm)"
    "tx (sock strm) = tx ssk @ answer" "fs_content (w_fs wo') = (fs_content (w_fs wo))(cache_root @ [a, r, ?f] \<mapsto> c)"
    "\<forall>n n' sk. answered_by nw cl answer n n' sk \<longrightarrow>
      (\<exists>res sk'. client_Post_form_boundary nw w cl target [] [item] b cst (new_conn n) =
          Returns (\<lparr> rs_response = Some res, rs_error = Success, rs_request_headers = client_form_headers cl b (length body) \<rparr>, cst,
            new_conn (nw_close nw n' sk')) \<and>
        tx sk' = tx sk @ request_head ''POST'' target (client_form_headers cl b (length body)) @ body \<and> res_status res = 200)"
    using client_upload_run [OF assms(6,7,8) assms(9) [unfolded cl_def] assms(14) [unfolded target_def cl_def body_def] assms(17) [unfolded body_def] assms(18)
      assms(15,16,13,12) assms(22) [unfolded target_def cl_def body_def], of engine "\<lambda>_. False" regex built startAt close nw w cst] unfolding svr_def target_def cl_def c_def body_def by auto
  have "stat (w_fs wo') (path_text ((cache_root @ [a, r]) @ [?f])) = Some (Reg c)"
    by (rule stat_content) (use u(3) sn safe_names_plain [of "cache_root @ [a, r, ?f]"] cache_root_safe in auto)
  then have st: "stat (w_fs wo') (cache_file a r ?f) = Some (Reg c)" by (simp add: cache_paths)
  obtain closed' strm' answer' where d:
    "process_request engine (\<lambda>_. False) svr cn' \<lparr> sock = ssk', read_buff = [] \<rparr> close' wo' = Returns (True, closed', wo', strm')"
    "tx (sock strm') = tx ssk' @ answer'"
    "\<forall>n n' sk. answered_by nw cl answer' n n' sk \<longrightarrow>
      (\<exists>res sk'. client_Get nw w cl target [] None cst (new_conn n) =
          Returns (\<lparr> rs_response = Some res, rs_error = Success, rs_request_headers = client_headers cl \<rparr>, cst, new_conn (nw_close nw n' sk')) \<and>
        tx sk' = tx sk @ request_head ''GET'' target (client_headers cl) \<and> res_status res = 200 \<and> res_body res = c)"
    using client_download_run [OF sn digest_no_metadata assms(9) [unfolded cl_def] assms(19) [unfolded target_def cl_def] assms(20,21) st assms(10,11)
        assms(23) [unfolded target_def cl_def],
      of engine env regex built startAt close' nw w cst] unfolding svr_def target_def cl_def by blast
  show ?thesis
  proof (rule exI [of _ closed], rule exI [of _ wo'], rule exI [of _ strm], rule exI [of _ answer], rule exI [of _ closed'], rule exI [of _ strm'],
      rule exI [of _ answer'], intro conjI allI impI)
    fix n n' sk assume "answered_by nw cl answer n n' sk"
    with u(4) show "\<exists>rs res cs. client_Post_form_boundary nw w cl target [] [item] b cst (new_conn n) = Returns (rs, cst, cs) \<and>
        rs_response rs = Some res \<and> rs_error rs = Success \<and> res_status res = 200" by fastforce
  next
    fix n n' sk assume "answered_by nw cl answer' n n' sk"
    with d(3) show "\<exists>rs res cs. client_Get nw w cl target [] None cst (new_conn n) = Returns (rs, cst, cs) \<and>
        rs_response rs = Some res \<and> rs_error rs = Success \<and> res_status res = 200 \<and> res_body res = c" by fastforce
  qed (rule u(1,2) d(1,2))+
qed

section \<open>Witnesses\<close>

definition demo_file :: MultipartFormData where
  "demo_file = \<lparr> mfd_name = ''file'', mfd_content = ''xy'', mfd_filename = ''a.bin'', mfd_content_type = ''application/octet-stream'' \<rparr>"

definition demo_form :: string where "demo_form = serialize_multipart_formdata [demo_file] ''b'' True"

definition demo_post :: string where
  "demo_post = request_head ''POST'' (file_target ''im'' ''pic'' demo_digest) (client_form_headers demo_client ''b'' (length demo_form))"

definition demo_fetch :: string where
  "demo_fetch = request_head ''GET'' (file_target ''im'' ''pic'' demo_digest) (client_headers demo_client)"

text \<open>The bytes of the form and of its head, cut three times.\<close>

definition demo_segments :: "string list" where
  "demo_segments = [take 10 demo_post, drop 10 demo_post, take 20 demo_form, drop 20 demo_form]"

lemma demo_form_facts: "length demo_form < 1000" "prefix (''--'' @ ''b'' @ CRLF) (first_piece [] [take 20 demo_form, drop 20 demo_form])"
  by (simp_all add: demo_form_def demo_file_def serialize_one multipart_body_def item_lines_def disposition_def header_lines_def first_piece_def)

lemma demo_postable: "postable ''b'' demo_file"
proof -
  have f: "find_sub (''xy'' @ CRLF @ ''--'' @ ''b'') (CRLF @ ''--'' @ ''b'') 0 = Some (length ''xy'')" by code_simp
  show ?thesis using f demo_form_facts(1) unfolding postable_def demo_form_def [symmetric]
    by (simp add: demo_file_def is_multipart_boundary_chars_valid_def c_isalnum_def c_islower_def quotable_def)
qed

lemma demo_replies_fit: "replies_fit demo_env"
  by (simp add: replies_fit_def upload_replies_def SetResponseMsg_def set_content_def demo_env_def json_unformat_string_def string_max_size_def Let_def
      dec_int_def radix.simps [of 10])

lemma demo_lengths: "10 < length demo_post" "length demo_post \<le> read_buff_size" "length demo_fetch \<le> read_buff_size"
proof -
  have "c_str (dec (length demo_form)) = dec (length demo_form)" using dec_chars [of _ "length demo_form"] by (intro c_str_id) blast
  moreover have "length (dec (length demo_form)) \<le> 3" using dec_length [of "length demo_form" 2] demo_form_facts(1) by simp
  ultimately show "10 < length demo_post" "length demo_post \<le> read_buff_size" "length demo_fetch \<le> read_buff_size"
    using demo_digest_safe(2) by (simp_all add: demo_post_def demo_fetch_def request_head_def request_line_def file_target_def
        read_buff_size_def header_line_def client_form_headers_def client_headers_def demo_client_host)
qed

lemma demo_post_arrives:
  "head_arrives (peer_socket demo_segments) demo_post [] [take 20 demo_form, drop 20 demo_form]"
  "head_arrives (peer_socket [demo_fetch]) demo_fetch [] []"
proof -
  show "head_arrives (peer_socket demo_segments) demo_post [] [take 20 demo_form, drop 20 demo_form]"
    using demo_lengths(1,2) unfolding head_arrives_def
    by (intro exI [of _ "[take 10 demo_post]"] exI [of _ "drop 10 demo_post"]) (simp add: peer_socket_def demo_segments_def)
  show "head_arrives (peer_socket [demo_fetch]) demo_fetch [] []"
    using demo_lengths(3) by (intro head_arrives_at_once) (simp_all add: peer_socket_def demo_fetch_def request_head_def request_line_def)
qed

lemma demo_exchange:
  "cn_fd demo_connection < FD_SETSIZE" "wire_header (''Host'', client_host demo_client)" "shell_ok (env_popen demo_env)"
  "fs_content (w_fs demo_world) q = None" "[] @ concat [take 20 demo_form, drop 20 demo_form] = demo_form"
  "hex_text (rfc_md5 (bytes_of (mfd_content demo_file))) = demo_digest" "tx (peer_socket ds) = []"
  "answered_by scripted_network demo_client x [peer_socket [x]] [] (peer_socket [x])"
proof -
  show "fs_content (w_fs demo_world) q = None" by (cases q) (simp_all add: demo_world_def fs_content_def file_in_def)
  show "answered_by scripted_network demo_client x [peer_socket [x]] [] (peer_socket [x])"
    unfolding demo_client_def answered_new by (simp add: peer_socket_def scripted_network_def)
qed (simp_all add: demo_connection_def FD_SETSIZE_def demo_client_host wire_header_def is_space_or_tab_def demo_env_def demo_shell_ok
    demo_digest_def demo_file_def peer_socket_def)

theorem client_uploads_file_witness:
  "\<exists>closed wo' strm' answer res sk'. process_request (\<lambda>_. 0) (\<lambda>_. False) (frs_server demo_env (\<lambda>_ _. False) [] []) demo_connection
      \<lparr> sock = peer_socket demo_segments, read_buff = [] \<rparr> False demo_world =
      Returns (True, closed, wo', strm') \<and> tx (sock strm') = answer \<and>
    fs_content (w_fs wo') (cache_root @ [''im'', ''pic'', demo_digest]) = Some ''xy'' \<and>
    client_Post_form_boundary scripted_network () demo_client (file_target ''im'' ''pic'' demo_digest) [] [demo_file] ''b'' () (new_conn [peer_socket [answer]]) =
      Returns (\<lparr> rs_response = Some res, rs_error = Success,
        rs_request_headers = client_form_headers demo_client ''b'' (length demo_form) \<rparr>, (), new_conn (nw_close scripted_network [] sk')) \<and>
    tx sk' = demo_post @ demo_form \<and> res_status res = 200"
proof -
  have c: "mfd_content demo_file = ''xy''" by (simp add: demo_file_def)
  obtain closed wo' strm' answer where r: "process_request (\<lambda>_. 0) (\<lambda>_. False) (frs_server demo_env (\<lambda>_ _. False) [] []) demo_connection
      \<lparr> sock = peer_socket demo_segments, read_buff = [] \<rparr> False demo_world = Returns (True, closed, wo', strm')"
    "tx (sock strm') = answer" "fs_content (w_fs wo') (cache_root @ [''im'', ''pic'', demo_digest]) = Some ''xy''"
    "\<forall>n n' sk. answered_by scripted_network demo_client answer n n' sk \<longrightarrow>
      (\<exists>res sk'. client_Post_form_boundary scripted_network () demo_client (file_target ''im'' ''pic'' demo_digest) [] [demo_file] ''b'' () (new_conn n) =
          Returns (\<lparr> rs_response = Some res, rs_error = Success,
            rs_request_headers = client_form_headers demo_client ''b'' (length demo_form) \<rparr>, (), new_conn (nw_close scripted_network n' sk')) \<and>
        tx sk' = tx sk @ demo_post @ demo_form \<and> res_status res = 200)"
    using client_uploads_file [OF demo_exchange(3) demo_place(1) demo_postable demo_exchange(2) [unfolded demo_client_def]
        demo_post_arrives(1) [unfolded demo_post_def demo_client_def demo_form_def] demo_exchange(5) [unfolded demo_form_def]
        demo_form_facts(2) [unfolded demo_form_def] demo_waiting demo_exchange(1) demo_exchange(4) demo_replies_fit
        demo_lengths(2) [unfolded demo_post_def demo_client_def demo_form_def],
        of "\<lambda>_. 0" "\<lambda>_. False" "\<lambda>_ _. False" "[]" "[]" False scripted_network "()" "()"]
    unfolding demo_form_def [symmetric] demo_client_def [symmetric] demo_post_def [symmetric] demo_exchange(6) [unfolded c] demo_exchange(7) c append_Nil by (auto simp del: append_assoc)
  from r(4) [THEN spec, THEN spec, THEN spec, THEN mp, OF demo_exchange(8)] r(1-3) show ?thesis unfolding demo_exchange(7) append_Nil by blast
qed

theorem client_file_round_trip_witness:
  "\<exists>closed wo' strm answer closed' strm' answer' rs cs res. process_request (\<lambda>_. 0) (\<lambda>_. False) (frs_server demo_env (\<lambda>_ _. False) [] []) demo_connection
      \<lparr> sock = peer_socket demo_segments, read_buff = [] \<rparr> False demo_world = Returns (True, closed, wo', strm) \<and>
    tx (sock strm) = answer \<and>
    process_request (\<lambda>_. 0) (\<lambda>_. False) (frs_server demo_env (\<lambda>_ _. False) [] []) demo_connection
      \<lparr> sock = peer_socket [demo_fetch], read_buff = [] \<rparr> False wo' = Returns (True, closed', wo', strm') \<and> tx (sock strm') = answer' \<and>
    client_Get scripted_network () demo_client (file_target ''im'' ''pic'' demo_digest) [] None () (new_conn [peer_socket [answer']]) = Returns (rs, (), cs) \<and>
    rs_response rs = Some res \<and> res_body res = ''xy''"
proof -
  have c: "mfd_content demo_file = ''xy''" by (simp add: demo_file_def)
  have xy: "''xy'' \<noteq> []" "length ''xy'' \<le> string_max_size" by (simp_all add: string_max_size_def)
  note dg = demo_exchange(6) [unfolded c]
  obtain closed wo' strm answer closed' strm' answer' where r:
    "process_request (\<lambda>_. 0) (\<lambda>_. False) (frs_server demo_env (\<lambda>_ _. False) [] []) demo_connection
      \<lparr> sock = peer_socket demo_segments, read_buff = [] \<rparr> False demo_world = Returns (True, closed, wo', strm)"
    "tx (sock strm) = answer"
    "process_request (\<lambda>_. 0) (\<lambda>_. False) (frs_server demo_env (\<lambda>_ _. False) [] []) demo_connection
      \<lparr> sock = peer_socket [demo_fetch], read_buff = [] \<rparr> False wo' = Returns (True, closed', wo', strm')" "tx (sock strm') = answer'"
    "\<forall>n n' sk. answered_by scripted_network demo_client answer' n n' sk \<longrightarrow>
      (\<exists>rs res cs. client_Get scripted_network () demo_client (file_target ''im'' ''pic'' demo_digest) [] None () (new_conn n) = Returns (rs, (), cs) \<and>
        rs_response rs = Some res \<and> rs_error rs = Success \<and> res_status res = 200 \<and> res_body res = ''xy'')"
    using client_file_round_trip [where item = demo_file, unfolded c dg, OF demo_exchange(3) demo_place(1) demo_postable demo_exchange(2) [unfolded demo_client_def] xy demo_replies_fit
        demo_exchange(4) demo_post_arrives(1) [unfolded demo_post_def demo_client_def demo_form_def] demo_waiting demo_exchange(1)
        demo_exchange(5) [unfolded demo_form_def] demo_form_facts(2) [unfolded demo_form_def]
        demo_post_arrives(2) [unfolded demo_fetch_def demo_client_def] demo_waiting demo_exchange(1)
        demo_lengths(2) [unfolded demo_post_def demo_client_def demo_form_def] demo_lengths(3) [unfolded demo_fetch_def demo_client_def],
        of "\<lambda>_. 0" "\<lambda>_ _. False" "[]" "[]" False False scripted_network "()" "()"]
    unfolding demo_form_def [symmetric] demo_client_def [symmetric] demo_post_def [symmetric] demo_fetch_def [symmetric] demo_exchange(7) append_Nil by blast
  from r(5) [THEN spec, THEN spec, THEN spec, THEN mp, OF demo_exchange(8)] r(1-4) show ?thesis by blast
qed

end
