(* ===== verification/FrsUploads.thy ===== *)
theory FrsUploads
  imports FileTransfer
begin

text \<open>
  Uploads that run at the same time (\<^verbatim>\<open>FileUploadCallback\<close> of \<^verbatim>\<open>src/src/transfer.cpp\<close> on several threads of
  the pool).  A handler is cut into the steps between which another thread can get in: the creation of the
  folder, the test whether the file exists, one append for each piece of the body, the digest, and the renaming.
  Run alone, the steps are the handler of \<open>FileTransfer\<close>; run in any order of several uploads, they are
  independent when the names differ, and not when two uploads share a name.
\<close>

section \<open>The steps of an upload\<close>

datatype upload_pc = Preparing "string list" | Checking "string list" | Storing "string list" | Renaming | Answered int

record upload =
  u_apptype :: string
  u_restype :: string
  u_filename :: string

definition upload_file :: "upload \<Rightarrow> string" where
  "upload_file u = cache_file (u_apptype u) (u_restype u) (u_filename u)"

definition upload_tmp :: "upload \<Rightarrow> string" where
  "upload_tmp u = cache_file (u_apptype u) (u_restype u) (u_filename u) @ ''.tmp''"

text \<open>The next step of an upload whose pieces still to come are given with its position.\<close>

fun upload_step :: "('s, 'v) frs_env \<Rightarrow> upload \<Rightarrow> fs \<times> upload_pc \<Rightarrow> fs \<times> upload_pc" where
  "upload_step env u (fs, Preparing es) =
     (fst (cmd_system (env_popen env) fs (Some (c_str (''mkdir -p '' @ CACHE_DIR @ u_apptype u @ ''/'' @ u_restype u)))),
      Checking es)"
| "upload_step env u (fs, Checking es) = (fs, if file_exists fs (upload_file u) then Answered 400 else Storing es)"
| "upload_step env u (fs, Storing (e # es)) = (snd (append_to_file2 fs (upload_tmp u) e), Storing es)"
| "upload_step env u (fs, Storing []) =
     (case calculate_file_md5 (env_popen env) fs (upload_tmp u) of
        (fs1, fileMd5) \<Rightarrow> (fs1, if fileMd5 \<noteq> u_filename u then Answered 400 else Renaming))"
| "upload_step env u (fs, Renaming) = (snd (file_rename fs (upload_tmp u) (upload_file u)), Answered 200)"
| "upload_step env u (fs, Answered st) = (fs, Answered st)"

text \<open>Several uploads, and a schedule: the numbers of the uploads in the order of their steps.\<close>

definition step_upload :: "('s, 'v) frs_env \<Rightarrow> upload list \<Rightarrow> fs \<times> upload_pc list \<Rightarrow> nat \<Rightarrow> fs \<times> upload_pc list" where
  "step_upload env us x i =
     (if i < length us
      then case upload_step env (us ! i) (fst x, snd x ! i) of (fs', pc') \<Rightarrow> (fs', (snd x)[i := pc'])
      else x)"

definition run_uploads :: "('s, 'v) frs_env \<Rightarrow> upload list \<Rightarrow> fs \<times> upload_pc list \<Rightarrow> nat list \<Rightarrow> fs \<times> upload_pc list" where
  "run_uploads env us = foldl (step_upload env us)"

section \<open>Alone, the steps are the handler\<close>

lemma store_steps:
  "(upload_step env u ^^ length es) (fs, Storing es) =
     (foldl (\<lambda>fs d. snd (append_to_file2 fs (upload_tmp u) d)) fs es, Storing [])"
  by (induction es arbitrary: fs) (simp_all add: funpow_swap1)

lemma answered_steps: "(upload_step env u ^^ k) (fs, Answered st) = (fs, Answered st)"
  by (induction k) simp_all

lemma upload_alone_run:
  assumes "req_path_params req ''apptype'' = Some a" "req_path_params req ''restype'' = Some r"
      "req_path_params req ''filename'' = Some f"
    and "is_multipart_form_data req" "mfd_content_type m = CONTENT_TYPE_APP_OCTET" "delivers_form cr st m c st'"
  defines "u \<equiv> \<lparr> u_apptype = a, u_restype = r, u_filename = f \<rparr>"
  shows "\<exists>es res' w' st''. es \<noteq> [] \<and> concat es = c \<and> FileUploadCallback env cr req res w st = Returns (res', w', st'') \<and>
    (upload_step env u ^^ (length es + 4)) (w_fs w, Preparing es) = (w_fs w', Answered (res_status res'))"
proof -
  let ?dir = "''mkdir -p '' @ CACHE_DIR @ a @ ''/'' @ r"
  let ?fs = "fst (cmd_system (env_popen env) (w_fs w) (Some (c_str ?dir)))"
  from receive_form [OF assms(4-6), of env "upload_tmp u" "cache_file a r f @ ''.metadata''" ?fs] obtain es where
    es: "es \<noteq> []" "concat es = c" "receive_upload env cr st req (upload_tmp u) (cache_file a r f @ ''.metadata'') ?fs =
      Returns (foldl (\<lambda>fs d. snd (append_to_file2 fs (upload_tmp u) d)) ?fs es, st')" by blast
  let ?fs2 = "foldl (\<lambda>fs d. snd (append_to_file2 fs (upload_tmp u) d)) ?fs es"
  have u: "upload_file u = cache_file a r f" "upload_tmp u = cache_file a r f @ ''.tmp''" "u_filename u = f"
    "u_apptype u = a" "u_restype u = r" by (simp_all add: u_def upload_file_def upload_tmp_def)
  have split: "(upload_step env u ^^ (length es + 4)) x = (upload_step env u ^^ 2) ((upload_step env u ^^ length es)
      (upload_step env u (upload_step env u x)))" for x
    by (simp add: funpow_add funpow_swap1 numeral_eq_Suc)
  show ?thesis
  proof (cases "file_exists ?fs (cache_file a r f)")
    case True
    then have "FileUploadCallback env cr req res w st = Returns (SetResponseMsg env res 400 (- 2) ''file exist'', w\<lparr> w_fs := ?fs \<rparr>, st)"
      using assms(1-3) by (simp add: FileUploadCallback_def route_params_def path_param_def Let_def)
    moreover have "(upload_step env u ^^ (length es + 4)) (w_fs w, Preparing es) = (?fs, Answered 400)"
      unfolding split using True by (simp add: u answered_steps numeral_eq_Suc)
    ultimately show ?thesis using es(1,2)
      by (intro exI [of _ es] exI [of _ "SetResponseMsg env res 400 (- 2) ''file exist''"] exI [of _ "w\<lparr> w_fs := ?fs \<rparr>"] exI [of _ st]) simp
  next
    case False
    obtain res' fs3 where c: "commit_upload env res ?fs2 f (upload_tmp u) (upload_file u) = (res', fs3)" by fastforce
    have h: "FileUploadCallback env cr req res w st = Returns (res', w\<lparr> w_fs := fs3 \<rparr>, st')"
      using assms(1-3) False es(3) c
      by (simp add: FileUploadCallback_def route_params_def path_param_def Let_def u)
    have "(upload_step env u ^^ (length es + 4)) (w_fs w, Preparing es) = (upload_step env u ^^ 2) (?fs2, Storing [])"
      unfolding split using False by (simp add: u store_steps [unfolded u])
    moreover have "(upload_step env u ^^ 2) (?fs2, Storing []) = (fs3, Answered (res_status res'))"
      using c by (auto simp: commit_upload_def Let_def numeral_eq_Suc u split: prod.splits if_splits)
    ultimately show ?thesis using es(1,2) h
      by (intro exI [of _ es] exI [of _ res'] exI [of _ "w\<lparr> w_fs := fs3 \<rparr>"] exI [of _ st']) simp
  qed
qed


text \<open>
  C17. The steps are the handler: for a form with an octet-stream part, which the reader delivers in some pieces,
  an upload that makes its steps without interruption, four and one for each piece, ends with the file system
  and the status of \<^verbatim>\<open>FileUploadCallback\<close>.
\<close>

theorem upload_steps_refine_handler:
  assumes "req_path_params req ''apptype'' = Some a" "req_path_params req ''restype'' = Some r"
      "req_path_params req ''filename'' = Some f"
    and "is_multipart_form_data req" "mfd_content_type m = CONTENT_TYPE_APP_OCTET" "delivers_form cr st m c st'"
  shows "\<exists>es res' w' st''. es \<noteq> [] \<and> concat es = c \<and> FileUploadCallback env cr req res w st = Returns (res', w', st'') \<and>
    (upload_step env \<lparr> u_apptype = a, u_restype = r, u_filename = f \<rparr> ^^ (length es + 4)) (w_fs w, Preparing es) =
      (w_fs w', Answered (res_status res'))"
  using assms by (rule upload_alone_run)

section \<open>What a step does to the files\<close>

definition u_dir :: "upload \<Rightarrow> string list" where "u_dir u = cache_root @ [u_apptype u, u_restype u]"

abbreviation u_key :: "upload \<Rightarrow> string list" where "u_key u \<equiv> u_dir u @ [u_filename u]"

abbreviation u_tmp_key :: "upload \<Rightarrow> string list" where "u_tmp_key u \<equiv> u_dir u @ [u_filename u @ ''.tmp'']"

lemma u_paths:
  "upload_file u = path_text (u_key u)" "upload_tmp u = path_text (u_tmp_key u)"
  "CACHE_DIR @ u_apptype u @ ''/'' @ u_restype u = path_text (u_dir u)"
  unfolding upload_file_def upload_tmp_def u_dir_def cache_paths by simp_all

text \<open>The surroundings of an upload: its folder can be made, and no folder is in its place.\<close>

definition u_room :: "fs \<Rightarrow> upload \<Rightarrow> bool" where
  "u_room fs u \<longleftrightarrow> fs_ok fs \<and> list_all safe_name (u_dir u) \<and> safe_name (u_filename u) \<and>
     length (path_text (u_key u)) < 1990 \<and> (\<forall>q. prefix q (u_dir u) \<longrightarrow> fs_content fs q = None) \<and>
     \<not> is_dir_at (fs_root fs) (u_key u) \<and> \<not> is_dir_at (fs_root fs) (u_tmp_key u)"

text \<open>What the step of an upload into \<open>u\<close> leaves alone.\<close>

definition u_kept :: "upload \<Rightarrow> fs \<Rightarrow> fs \<Rightarrow> bool" where
  "u_kept u fs fs' \<longleftrightarrow> fs_ok fs' \<and> (\<forall>k. k \<notin> {u_key u, u_tmp_key u} \<longrightarrow> fs_content fs' k = fs_content fs k) \<and>
     (\<forall>q. is_dir_at (fs_root fs) q \<longrightarrow> is_dir_at (fs_root fs') q) \<and>
     (\<forall>q. is_dir_at (fs_root fs') q \<longrightarrow> is_dir_at (fs_root fs) q \<or> prefix q (u_dir u))"

lemma u_dir_length: "length (u_dir u) = 7" by (simp add: u_dir_def cache_root_def)

lemma not_below: "\<not> prefix (u_dir v @ [x]) (u_dir u)"
  using prefix_length_le [of "u_dir v @ [x]" "u_dir u"] by (auto simp: u_dir_length)

text \<open>The surroundings stay, also those of other uploads.\<close>

lemma u_room_kept:
  assumes "u_room fs v" "u_kept u fs fs'"
  shows "u_room fs' v"
proof -
  have "fs_content fs' q = None" if "prefix q (u_dir v)" for q
  proof -
    have "length q \<le> 7" using prefix_length_le [OF that] by (simp add: u_dir_length)
    then have "q \<noteq> u_key u" "q \<noteq> u_tmp_key u" using u_dir_length [of u] by auto
    then show ?thesis using assms that by (auto simp: u_kept_def u_room_def)
  qed
  then show ?thesis using assms not_below by (auto simp: u_kept_def u_room_def)
qed

lemma u_staged: "u_room fs u \<Longrightarrow> is_dir_at (fs_root fs) (u_dir u) \<Longrightarrow> staged fs (u_dir u) (u_filename u)"
  by (intro stagedI) (simp_all add: u_room_def)

lemma same_dirs_kept:
  "same_dirs fs fs' \<Longrightarrow> fs_ok fs \<Longrightarrow> (\<And>k. k \<notin> {u_key u, u_tmp_key u} \<Longrightarrow> fs_content fs' k = fs_content fs k) \<Longrightarrow> u_kept u fs fs'"
  using same_dirs_ok [of fs fs'] by (simp add: u_kept_def same_dirs_def)

lemma prepare_effect:
  assumes "shell_ok (env_popen env)" "u_room fs u"
  shows "\<exists>fs'. upload_step env u (fs, Preparing es) = (fs', Checking es) \<and> u_kept u fs fs' \<and>
    fs_content fs' = fs_content fs \<and> is_dir_at (fs_root fs') (u_dir u)"
proof -
  have d: "u_dir u \<noteq> []" by (simp add: u_dir_def)
  from mkdir_command [of "env_popen env" fs "u_dir u" "[]", OF _ _ _ _ _ d] assms obtain fs' where
    "fst (cmd_system (env_popen env) fs (Some (c_str (''mkdir -p '' @ path_text (u_dir u))))) = fs'" "fs_ok fs'"
    "fs_content fs' = fs_content fs" "\<And>q. is_dir_at (fs_root fs') q \<longleftrightarrow> is_dir_at (fs_root fs) q \<or> prefix q (u_dir u)"
    by (auto simp: shell_ok_def u_room_def)
  then show ?thesis unfolding upload_step.simps u_paths(3) u_kept_def by simp
qed

lemma check_effect:
  assumes "u_room fs u" "is_dir_at (fs_root fs) (u_dir u)"
  shows "upload_step env u (fs, Checking es) = (fs, if fs_content fs (u_key u) = None then Storing es else Answered 400)"
proof -
  have "file_key fs (upload_file u) = Some (u_key u)" using u_staged [OF assms] by (simp add: staged_def u_paths)
  then show ?thesis by (simp add: file_exists_def stat_file_key)
qed

lemma store_effect:
  assumes "u_room fs u" "is_dir_at (fs_root fs) (u_dir u)"
  shows "\<exists>fs'. upload_step env u (fs, Storing (e # es)) = (fs', Storing es) \<and> u_kept u fs fs' \<and>
    fs_content fs' = (fs_content fs)(u_tmp_key u \<mapsto> (case fs_content fs (u_tmp_key u) of None \<Rightarrow> [] | Some old \<Rightarrow> old) @ e)"
proof -
  have ok: "fs_ok fs" using assms(1) by (simp add: u_room_def)
  have k: "file_key fs (upload_tmp u) = Some (u_tmp_key u)" using u_staged [OF assms] by (simp add: staged_def u_paths)
  from fs_put_key [OF ok k, of "\<lambda>old. old @ e"] obtain fs' where
    "fs_put fs (upload_tmp u) (\<lambda>old. old @ e) = Some fs'" "same_dirs fs fs'"
    "fs_content fs' = (fs_content fs)(u_tmp_key u \<mapsto> (case fs_content fs (u_tmp_key u) of None \<Rightarrow> [] | Some old \<Rightarrow> old) @ e)" by blast
  then show ?thesis using same_dirs_kept [of fs fs' u] ok by (simp add: append_to_file2_def)
qed

lemma digest_effect:
  assumes "shell_ok (env_popen env)" "u_room fs u" "fs_content fs (u_tmp_key u) = Some t"
  shows "upload_step env u (fs, Storing []) = (fs, if hex_text (rfc_md5 (bytes_of t)) \<noteq> u_filename u then Answered 400 else Renaming)"
proof -
  have "calculate_file_md5 (env_popen env) fs (upload_tmp u) = (fs, hex_text (rfc_md5 (bytes_of t)))"
    unfolding u_paths
    by (rule md5_command) (use assms safe_name_suffix in \<open>auto simp: shell_ok_def u_room_def\<close>)
  then show ?thesis by simp
qed

lemma rename_effect:
  assumes "u_room fs u" "is_dir_at (fs_root fs) (u_dir u)" "fs_content fs (u_tmp_key u) = Some t"
  shows "\<exists>fs'. upload_step env u (fs, Renaming) = (fs', Answered 200) \<and> u_kept u fs fs' \<and>
    fs_content fs' = (fs_content fs)(u_key u \<mapsto> t, u_tmp_key u := None)"
proof -
  have ok: "fs_ok fs" using assms(1) by (simp add: u_room_def)
  note st = u_staged [OF assms(1,2)]
  have k: "file_key fs (upload_tmp u) = Some (u_tmp_key u)" "file_key fs (upload_file u) = Some (u_key u)" "u_tmp_key u \<noteq> u_key u"
    using st by (simp_all add: staged_def u_paths)
  from os_rename_key [OF ok k(1,2) assms(3) k(3)] show ?thesis
    using stat_file_key [OF k(1)] assms(3) same_dirs_kept [of fs "os_rename fs (upload_tmp u) (upload_file u)" u] ok
    by (auto simp: file_rename_def)
qed


section \<open>Uploads of different names do not disturb each other\<close>

definition old_text :: "string option \<Rightarrow> string" where
  "old_text old = (case old of None \<Rightarrow> [] | Some t \<Rightarrow> t)"

text \<open>Where an upload of the pieces \<open>es0\<close> under the name \<open>f\<close> stands, when its temporary file held \<open>old\<close> before:
  \<open>key\<close> and \<open>tmp\<close> are the contents of the two files, \<open>dir\<close> tells whether the folder is there.\<close>

definition u_stage ::
  "string \<Rightarrow> string option \<Rightarrow> string list \<Rightarrow> upload_pc \<Rightarrow> string option \<Rightarrow> string option \<Rightarrow> bool \<Rightarrow> bool" where
  "u_stage f old es0 pc key tmp dir \<longleftrightarrow>
     (let t = old_text old @ concat es0; good = (hex_text (rfc_md5 (bytes_of t)) = f)
      in case pc of
           Preparing es \<Rightarrow> es = es0 \<and> key = None \<and> tmp = old
         | Checking es \<Rightarrow> dir \<and> es = es0 \<and> key = None \<and> tmp = old
         | Storing es \<Rightarrow> dir \<and> key = None \<and>
             (\<exists>ds. es0 = ds @ es \<and> tmp = (if ds = [] then old else Some (old_text old @ concat ds)))
         | Renaming \<Rightarrow> dir \<and> key = None \<and> tmp = Some t \<and> good
         | Answered st \<Rightarrow> dir \<and> (if good then st = 200 \<and> key = Some t \<and> tmp = None else st = 400 \<and> key = None \<and> tmp = Some t))"

definition u_inv :: "upload \<Rightarrow> string option \<Rightarrow> string list \<Rightarrow> fs \<Rightarrow> upload_pc \<Rightarrow> bool" where
  "u_inv u old es0 fs pc \<longleftrightarrow> u_room fs u \<and>
     u_stage (u_filename u) old es0 pc (fs_content fs (u_key u)) (fs_content fs (u_tmp_key u)) (is_dir_at (fs_root fs) (u_dir u))"

lemmas u_inv_defs = u_inv_def u_stage_def Let_def

lemma u_stage_dir: "u_stage f old es0 pc key tmp dir \<Longrightarrow> (dir \<Longrightarrow> dir') \<Longrightarrow> u_stage f old es0 pc key tmp dir'"
  unfolding u_stage_def Let_def by (cases dir; cases dir'; cases pc; simp)

lemma u_inv_kept:
  assumes "u_inv v old es0 fs pc" "u_kept u fs fs'" "{u_key v, u_tmp_key v} \<inter> {u_key u, u_tmp_key u} = {}"
  shows "u_inv v old es0 fs' pc"
proof -
  have e: "fs_content fs' (u_key v) = fs_content fs (u_key v)" "fs_content fs' (u_tmp_key v) = fs_content fs (u_tmp_key v)"
    and d: "is_dir_at (fs_root fs) (u_dir v) \<Longrightarrow> is_dir_at (fs_root fs') (u_dir v)"
    using assms(2,3) unfolding u_kept_def by blast+
  then show ?thesis using assms(1) u_stage_dir [OF _ d] u_room_kept [OF _ assms(2)] unfolding u_inv_def e by blast
qed

lemma kept_refl: "u_room fs u \<Longrightarrow> u_kept u fs fs"
  by (simp add: u_kept_def u_room_def)

lemma u_inv_store:
  assumes "shell_ok (env_popen env)" "u_inv u old es0 fs (Storing es)" "es0 \<noteq> []" "upload_step env u (fs, Storing es) = (fs', pc')"
  shows "u_inv u old es0 fs' pc' \<and> u_kept u fs fs'"
proof -
  have r: "u_room fs u" using assms(2) by (simp add: u_inv_def)
  obtain ds where d: "is_dir_at (fs_root fs) (u_dir u)" "fs_content fs (u_key u) = None" "es0 = ds @ es"
    "fs_content fs (u_tmp_key u) = (if ds = [] then old else Some (old_text old @ concat ds))"
    using assms(2) by (auto simp: u_inv_defs)
  show ?thesis
  proof (cases es)
    case (Cons e es')
    have t: "(case fs_content fs (u_tmp_key u) of None \<Rightarrow> [] | Some s \<Rightarrow> s) @ e = old_text old @ concat (ds @ [e])"
      using d(4) by (auto simp: old_text_def)
    from store_effect [OF r d(1), of env e es'] obtain fs1 where
      f: "upload_step env u (fs, Storing (e # es')) = (fs1, Storing es')" "u_kept u fs fs1"
        "fs_content fs1 = (fs_content fs)(u_tmp_key u \<mapsto> old_text old @ concat (ds @ [e]))" unfolding t by blast
    have "\<exists>ds. es0 = ds @ es' \<and> fs_content fs1 (u_tmp_key u) = (if ds = [] then old else Some (old_text old @ concat ds))"
      using d(3) Cons f(3) by (intro exI [of _ "ds @ [e]"]) simp
    moreover have "is_dir_at (fs_root fs1) (u_dir u)" "fs_content fs1 (u_key u) = None"
      using f(2,3) d(1,2) by (simp_all add: u_kept_def)
    moreover have "fs' = fs1" "pc' = Storing es'" using f(1) assms(4) Cons by simp_all
    ultimately show ?thesis using f(2) u_room_kept [OF r f(2)] by (simp add: u_inv_defs)
  next
    case Nil
    then have "fs_content fs (u_tmp_key u) = Some (old_text old @ concat es0)" using d assms(3) by simp
    with digest_effect [OF assms(1) r this] show ?thesis
      using d(1,2) r kept_refl [OF r] Nil assms(4) by (auto simp: u_inv_defs)
  qed
qed

lemma u_inv_rename:
  assumes "u_inv u old es0 fs Renaming" "upload_step env u (fs, Renaming) = (fs', pc')"
  shows "u_inv u old es0 fs' pc' \<and> u_kept u fs fs'"
proof -
  have r: "u_room fs u" using assms(1) by (simp add: u_inv_def)
  have d: "is_dir_at (fs_root fs) (u_dir u)" "fs_content fs (u_tmp_key u) = Some (old_text old @ concat es0)"
    "hex_text (rfc_md5 (bytes_of (old_text old @ concat es0))) = u_filename u"
    using assms(1) by (auto simp: u_inv_defs)
  from rename_effect [OF r d(1,2), of env] obtain fs1 where f: "upload_step env u (fs, Renaming) = (fs1, Answered 200)"
    "u_kept u fs fs1" "fs_content fs1 = (fs_content fs)(u_key u \<mapsto> old_text old @ concat es0, u_tmp_key u := None)" by blast
  have "is_dir_at (fs_root fs1) (u_dir u)" using f(2) d(1) by (simp add: u_kept_def)
  moreover have "fs' = fs1" "pc' = Answered 200" using f(1) assms(2) by simp_all
  ultimately show ?thesis using f(2,3) d(3) u_room_kept [OF r f(2)] by (simp add: u_inv_defs)
qed

lemma u_inv_step:
  assumes "shell_ok (env_popen env)" "u_inv u old es0 fs pc" "es0 \<noteq> []" "upload_step env u (fs, pc) = (fs', pc')"
  shows "u_inv u old es0 fs' pc' \<and> u_kept u fs fs'"
proof -
  have r: "u_room fs u" using assms(2) by (simp add: u_inv_def)
  show ?thesis
  proof (cases pc)
    case (Preparing es)
    then show ?thesis using prepare_effect [OF assms(1) r, of es] assms(2,4) u_room_kept [OF r]
      by (auto simp: u_inv_defs)
  next
    case (Checking es)
    then show ?thesis using check_effect [OF r, of env es] assms(2,4) kept_refl [OF r] by (auto simp: u_inv_defs)
  next
    case (Storing es)
    then show ?thesis using u_inv_store assms by metis
  next
    case Renaming
    then show ?thesis using u_inv_rename assms(2,4) by metis
  next
    case (Answered st)
    then show ?thesis using assms(2,4) kept_refl [OF r] by simp
  qed
qed

text \<open>Uploads whose files are all different.\<close>

definition apart :: "upload list \<Rightarrow> bool" where
  "apart us \<longleftrightarrow> (\<forall>i < length us. \<forall>j < length us. i \<noteq> j \<longrightarrow>
     {u_key (us ! i), u_tmp_key (us ! i)} \<inter> {u_key (us ! j), u_tmp_key (us ! j)} = {})"

definition all_inv :: "upload list \<Rightarrow> string option list \<Rightarrow> string list list \<Rightarrow> fs \<Rightarrow> fs \<times> upload_pc list \<Rightarrow> bool" where
  "all_inv us olds ess fs0 x \<longleftrightarrow> length (snd x) = length us \<and>
     (\<forall>i < length us. u_inv (us ! i) (olds ! i) (ess ! i) (fst x) (snd x ! i)) \<and>
     (\<forall>k. (\<forall>u \<in> set us. k \<notin> {u_key u, u_tmp_key u}) \<longrightarrow> fs_content (fst x) k = fs_content fs0 k)"

lemma all_inv_step:
  assumes "shell_ok (env_popen env)" "apart us" "\<forall>i < length us. ess ! i \<noteq> []" "all_inv us olds ess fs0 x"
  shows "all_inv us olds ess fs0 (step_upload env us x i)"
proof (cases "i < length us")
  case True
  obtain fs' pc' where s: "upload_step env (us ! i) (fst x, snd x ! i) = (fs', pc')" by fastforce
  have l: "length (snd x) = length us" and inv: "\<And>j. j < length us \<Longrightarrow> u_inv (us ! j) (olds ! j) (ess ! j) (fst x) (snd x ! j)"
    and rest: "\<And>k. (\<forall>u \<in> set us. k \<notin> {u_key u, u_tmp_key u}) \<Longrightarrow> fs_content (fst x) k = fs_content fs0 k"
    using assms(4) by (simp_all add: all_inv_def)
  note own = u_inv_step [OF assms(1) inv [OF True] _ s]
  then have own: "u_inv (us ! i) (olds ! i) (ess ! i) fs' pc'" "u_kept (us ! i) (fst x) fs'" using assms(3) True by blast+
  have "u_inv (us ! j) (olds ! j) (ess ! j) fs' (((snd x)[i := pc']) ! j)" if "j < length us" for j
  proof (cases "j = i")
    case False
    then have "{u_key (us ! j), u_tmp_key (us ! j)} \<inter> {u_key (us ! i), u_tmp_key (us ! i)} = {}"
      using assms(2) that True unfolding apart_def by blast
    from u_inv_kept [OF inv [OF that] own(2) this] show ?thesis using False by simp
  qed (use own(1) l True in simp)
  moreover have "fs_content fs' k = fs_content fs0 k" if "\<forall>u \<in> set us. k \<notin> {u_key u, u_tmp_key u}" for k
  proof -
    have "k \<notin> {u_key (us ! i), u_tmp_key (us ! i)}" using that nth_mem [OF True] by blast
    then show ?thesis using own(2) rest [OF that] unfolding u_kept_def by metis
  qed
  ultimately show ?thesis using True s l by (simp add: step_upload_def all_inv_def)
qed (use assms(4) in \<open>simp add: step_upload_def\<close>)

lemma all_inv_run:
  assumes "shell_ok (env_popen env)" "apart us" "\<forall>i < length us. ess ! i \<noteq> []"
  shows "all_inv us olds ess fs0 x \<Longrightarrow> all_inv us olds ess fs0 (run_uploads env us x sched)"
  unfolding run_uploads_def by (induction sched arbitrary: x) (simp_all add: all_inv_step [OF assms])


text \<open>The steps an upload still has to make; no step of another upload delays it.\<close>

fun remaining :: "upload_pc \<Rightarrow> nat" where
  "remaining (Preparing es) = length es + 4"
| "remaining (Checking es) = length es + 3"
| "remaining (Storing es) = length es + 2"
| "remaining Renaming = 1"
| "remaining (Answered st) = 0"

lemma remaining_step: "remaining (snd (upload_step env u (fs, pc))) \<le> remaining pc - 1"
  by (induction env u "(fs, pc)" rule: upload_step.induct) (auto split: prod.splits)

lemma remaining_run:
  "i < length us \<Longrightarrow> length (snd x) = length us \<Longrightarrow>
   remaining (snd (run_uploads env us x sched) ! i) \<le> remaining (snd x ! i) - count_list sched i"
proof (induction sched arbitrary: x)
  case (Cons j sched)
  let ?x = "step_upload env us x j"
  have l: "length (snd ?x) = length us" using Cons.prems(2) by (auto simp: step_upload_def split: prod.splits)
  have "remaining (snd ?x ! i) \<le> remaining (snd x ! i) - (if j = i then 1 else 0)"
    using Cons.prems remaining_step [of env "us ! j" "fst x" "snd x ! j"]
    by (cases "upload_step env (us ! j) (fst x, snd x ! j)") (auto simp: step_upload_def nth_list_update)
  then show ?case using Cons.IH [OF Cons.prems(1) l] by (auto simp: run_uploads_def)
qed (simp add: run_uploads_def)

lemma room_of_place: "upload_place fs (u_dir u) (u_filename u) \<Longrightarrow> u_room fs u \<and> fs_content fs (u_key u) = None"
  by (auto simp: upload_place_def u_room_def is_dir_at_def fs_content_def file_in_def)

text \<open>
  C18. Uploads of different files are independent: when the files of several uploads and their temporary
  files are all different, then after any schedule an upload that has answered has answered 200 and stored
  its content if the digest is its name, and else answered 400 and left the content in its temporary file,
  as if it had been alone; an upload that has made its steps has answered; no other file has changed.
\<close>

theorem concurrent_uploads_independent:
  assumes "shell_ok (env_popen env)" "apart us" "length ess = length us" "\<forall>i < length us. ess ! i \<noteq> []"
    and "\<forall>u \<in> set us. upload_place fs (u_dir u) (u_filename u)"
    and "run_uploads env us (fs, map Preparing ess) sched = (fs', pcs)"
  shows "(\<forall>i < length us. \<forall>st. pcs ! i = Answered st \<longrightarrow>
      (let u = us ! i; t = old_text (fs_content fs (u_tmp_key u)) @ concat (ess ! i) in
       if hex_text (rfc_md5 (bytes_of t)) = u_filename u
       then st = 200 \<and> fs_content fs' (u_key u) = Some t \<and> fs_content fs' (u_tmp_key u) = None
       else st = 400 \<and> fs_content fs' (u_key u) = None \<and> fs_content fs' (u_tmp_key u) = Some t)) \<and>
    (\<forall>i < length us. length (ess ! i) + 4 \<le> count_list sched i \<longrightarrow> (\<exists>st. pcs ! i = Answered st)) \<and>
    (\<forall>k. (\<forall>u \<in> set us. k \<notin> {u_key u, u_tmp_key u}) \<longrightarrow> fs_content fs' k = fs_content fs k)"
proof -
  let ?olds = "map (\<lambda>u. fs_content fs (u_tmp_key u)) us"
  have "all_inv us ?olds ess fs (fs, map Preparing ess)"
    using assms(3) room_of_place assms(5) by (auto simp: all_inv_def u_inv_defs)
  from all_inv_run [OF assms(1,2,4) this, of sched] have inv: "all_inv us ?olds ess fs (fs', pcs)" unfolding assms(6) .
  have "\<exists>st. pcs ! i = Answered st" if "i < length us" "length (ess ! i) + 4 \<le> count_list sched i" for i
  proof -
    have "remaining (pcs ! i) = 0"
      using remaining_run [of i us "(fs, map Preparing ess)" env sched] that assms(3,6) by simp
    then show ?thesis by (cases "pcs ! i") auto
  qed
  moreover have "let u = us ! i; t = old_text (fs_content fs (u_tmp_key u)) @ concat (ess ! i) in
       if hex_text (rfc_md5 (bytes_of t)) = u_filename u
       then st = 200 \<and> fs_content fs' (u_key u) = Some t \<and> fs_content fs' (u_tmp_key u) = None
       else st = 400 \<and> fs_content fs' (u_key u) = None \<and> fs_content fs' (u_tmp_key u) = Some t"
    if "i < length us" "pcs ! i = Answered st" for i st
  proof -
    have "u_inv (us ! i) (?olds ! i) (ess ! i) fs' (pcs ! i)" using inv that(1) by (simp add: all_inv_def)
    then show ?thesis using that by (simp add: u_inv_defs)
  qed
  ultimately show ?thesis using inv by (auto simp: all_inv_def)
qed

section \<open>Uploads of the same name disturb each other\<close>

lemma same_name_run:
  assumes "shell_ok (env_popen env)" "upload_place fs (u_dir u) (u_filename u)" "fs_content fs (u_tmp_key u) = None"
    and "hex_text (rfc_md5 (bytes_of t)) = u_filename u"
  shows "\<exists>fs'. run_uploads env [u, u] (fs, [Preparing [t], Preparing [x]]) [0, 0, 0, 0, 1, 1, 1, 0] = (fs', [Answered 200, Storing []]) \<and>
    fs_content fs' (u_key u) = Some (t @ x)"
proof -
  have r: "u_room fs u" "fs_content fs (u_key u) = None" using room_of_place [OF assms(2)] by auto
  obtain fs1 where f1: "upload_step env u (fs, Preparing [t]) = (fs1, Checking [t])" "u_kept u fs fs1"
    "fs_content fs1 = fs_content fs" "is_dir_at (fs_root fs1) (u_dir u)" using prepare_effect [OF assms(1) r(1)] by blast
  note r1 = u_room_kept [OF r(1) f1(2)]
  have c1: "upload_step env u (fs1, Checking [t]) = (fs1, Storing [t])" using check_effect [OF r1 f1(4)] f1(3) r(2) by simp
  obtain fs2 where f2: "upload_step env u (fs1, Storing [t]) = (fs2, Storing [])" "u_kept u fs1 fs2"
    "fs_content fs2 = (fs_content fs1)(u_tmp_key u \<mapsto> t)" using store_effect [OF r1 f1(4), of env t "[]"] f1(3) assms(3) by auto
  note r2 = u_room_kept [OF r1 f2(2)]
  have c2: "upload_step env u (fs2, Storing []) = (fs2, Renaming)" using digest_effect [OF assms(1) r2] f2(3) assms(4) by simp
  obtain fs3 where f3: "upload_step env u (fs2, Preparing [x]) = (fs3, Checking [x])" "u_kept u fs2 fs3"
    "fs_content fs3 = fs_content fs2" "is_dir_at (fs_root fs3) (u_dir u)" using prepare_effect [OF assms(1) r2] by blast
  note r3 = u_room_kept [OF r2 f3(2)]
  have c3: "upload_step env u (fs3, Checking [x]) = (fs3, Storing [x])" using check_effect [OF r3 f3(4)] f3(3) f2(3) f1(3) r(2) by simp
  obtain fs4 where f4: "upload_step env u (fs3, Storing [x]) = (fs4, Storing [])" "u_kept u fs3 fs4"
    "fs_content fs4 = (fs_content fs3)(u_tmp_key u \<mapsto> t @ x)" using store_effect [OF r3 f3(4), of env x "[]"] f3(3) f2(3) by auto
  note r4 = u_room_kept [OF r3 f4(2)]
  have d4: "is_dir_at (fs_root fs4) (u_dir u)" using f4(2) f3(4) by (simp add: u_kept_def)
  have t4: "fs_content fs4 (u_tmp_key u) = Some (t @ x)" using f4(3) by simp
  obtain fs5 where f5: "upload_step env u (fs4, Renaming) = (fs5, Answered 200)"
    "fs_content fs5 = (fs_content fs4)(u_key u \<mapsto> t @ x, u_tmp_key u := None)" using rename_effect [OF r4 d4 t4] by blast
  have "run_uploads env [u, u] (fs, [Preparing [t], Preparing [x]]) [0, 0, 0, 0, 1, 1, 1, 0] = (fs5, [Answered 200, Storing []])"
    using f1(1) c1 f2(1) c2 f3(1) c3 f4(1) f5(1) by (simp add: run_uploads_def step_upload_def del: upload_step.simps)
  then show ?thesis using f5(2) by auto
qed

text \<open>
  C20. Two uploads of the same name at the same time can store a file whose digest is not its name: both
  append to one temporary file, so when the second one stores a piece between the digest and the renaming
  of the first, the first answers 200 and the file holds the two contents one after the other.
\<close>

theorem concurrent_uploads_corrupt:
  assumes "shell_ok (env_popen env)" "upload_place fs (u_dir u) (u_filename u)" "fs_content fs (u_tmp_key u) = None"
    and "hex_text (rfc_md5 (bytes_of t)) = u_filename u"
  shows "\<exists>sched fs' pcs. run_uploads env [u, u] (fs, [Preparing [t], Preparing [x]]) sched = (fs', pcs) \<and>
    pcs ! 0 = Answered 200 \<and> fs_content fs' (u_key u) = Some (t @ x)"
  using same_name_run [OF assms, of x] by (metis nth_Cons_0)

section \<open>Runs\<close>

definition demo_upload :: "string \<Rightarrow> upload" where
  "demo_upload a = \<lparr> u_apptype = a, u_restype = ''pic'', u_filename = demo_digest \<rparr>"

lemma demo_upload_place:
  "upload_place (w_fs demo_world) (u_dir (demo_upload ''im'')) demo_digest"
  "upload_place (w_fs demo_world) (u_dir (demo_upload ''conf'')) demo_digest"
  "fs_content (w_fs demo_world) q = None" "u_filename (demo_upload a) = demo_digest"
  "hex_text (rfc_md5 (bytes_of ''xy'')) = demo_digest" "shell_ok (env_popen demo_env)"
proof -
  show "fs_content (w_fs demo_world) q = None" by (cases q) (simp_all add: demo_world_def fs_content_def file_in_def)
  show "hex_text (rfc_md5 (bytes_of ''xy'')) = demo_digest" by (simp add: demo_digest_def)
  show "shell_ok (env_popen demo_env)" by (simp add: demo_env_def demo_shell_ok)
  show "upload_place (w_fs demo_world) (u_dir (demo_upload ''im'')) demo_digest"
    using demo_place(1) by (simp add: u_dir_def demo_upload_def)
  show "upload_place (w_fs demo_world) (u_dir (demo_upload ''conf'')) demo_digest"
    using demo_digest_safe
    by (simp add: upload_place_def demo_world_def fs_ok_def cache_root_def fs_content_def file_in_def u_dir_def demo_upload_def
        is_dir_at_def safe_name_def c_isalnum_def c_isdigit_def c_isupper_def c_islower_def)
qed (simp add: demo_upload_def)

theorem concurrent_uploads_independent_witness:
  "\<exists>fs' pcs. run_uploads demo_env [demo_upload ''im'', demo_upload ''conf''] (w_fs demo_world, [Preparing [''xy''], Preparing [''x'', ''y'']])
      [0, 1, 1, 0, 0, 1, 0, 1, 0, 1, 1] = (fs', pcs) \<and> pcs ! 0 = Answered 200 \<and>
    fs_content fs' (u_key (demo_upload ''conf'')) = Some ''xy''"
proof -
  let ?us = "[demo_upload ''im'', demo_upload ''conf'']" and ?sched = "[0, 1, 1, 0, 0, 1, 0, 1, 0, 1, 1] :: nat list"
  have "apart ?us" by (auto simp: apart_def less_Suc_eq u_dir_def demo_upload_def)
  moreover obtain fs' pcs where r: "run_uploads demo_env ?us (w_fs demo_world, map Preparing [[''xy''], [''x'', ''y'']]) ?sched = (fs', pcs)"
    by fastforce
  ultimately have c: "(\<forall>i < length ?us. \<forall>st. pcs ! i = Answered st \<longrightarrow>
      (let u = ?us ! i; t = old_text (fs_content (w_fs demo_world) (u_tmp_key u)) @ concat ([[''xy''], [''x'', ''y'']] ! i) in
       if hex_text (rfc_md5 (bytes_of t)) = u_filename u
       then st = 200 \<and> fs_content fs' (u_key u) = Some t \<and> fs_content fs' (u_tmp_key u) = None
       else st = 400 \<and> fs_content fs' (u_key u) = None \<and> fs_content fs' (u_tmp_key u) = Some t))"
    "\<forall>i < length ?us. length ([[''xy''], [''x'', ''y'']] ! i) + 4 \<le> count_list ?sched i \<longrightarrow> (\<exists>st. pcs ! i = Answered st)"
    using concurrent_uploads_independent [of demo_env ?us "[[''xy''], [''x'', ''y'']]" "w_fs demo_world" ?sched fs' pcs] demo_upload_place
    by (auto simp: less_Suc_eq)
  from c(2) have "\<exists>st. pcs ! 0 = Answered st" "\<exists>st. pcs ! 1 = Answered st" by (auto simp: less_Suc_eq)
  then have "pcs ! 0 = Answered 200" "fs_content fs' (u_key (demo_upload ''conf'')) = Some ''xy''"
    using c(1) [rule_format, of 0] c(1) [rule_format, of 1] demo_upload_place(3,4,5) by (auto simp: Let_def old_text_def)
  then show ?thesis using r by auto
qed

theorem concurrent_uploads_corrupt_witness:
  "\<exists>sched fs' pcs. run_uploads demo_env [demo_upload ''im'', demo_upload ''im''] (w_fs demo_world, [Preparing [''xy''], Preparing [''z'']]) sched =
      (fs', pcs) \<and> pcs ! 0 = Answered 200 \<and> fs_content fs' (u_key (demo_upload ''im'')) = Some ''xyz''"
  using concurrent_uploads_corrupt [of demo_env "w_fs demo_world" "demo_upload ''im''" "''xy''" "''z''"] demo_upload_place by simp

theorem upload_steps_refine_handler_witness:
  "\<exists>es res' w' st''. concat es = ''xy'' \<and>
    FileUploadCallback demo_env demo_reader (demo_request ''POST'' ''multipart/form-data; boundary=b'' demo_digest)
      Response_default demo_world (demo_part, [''x'', ''y'']) = Returns (res', w', st'') \<and>
    (upload_step demo_env (demo_upload ''im'') ^^ (length es + 4)) (w_fs demo_world, Preparing es) = (w_fs w', Answered (res_status res'))"
  using upload_steps_refine_handler [of "demo_request ''POST'' ''multipart/form-data; boundary=b'' demo_digest" "''im''" "''pic''" demo_digest
      demo_part demo_reader "(demo_part, [''x'', ''y''])" "''xy''" "(demo_part, [''x'', ''y''])" demo_env Response_default demo_world]
    demo_requests(1,4) [of "''POST''"] demo_reader_delivers(1) [of "[''x'', ''y'']" demo_part]
  by (auto simp: route_of_def demo_upload_def)

end
