(* ===== verification/FrsDownloads.thy ===== *)
theory FrsDownloads
  imports FileTransfer
begin

text \<open>
  Downloads of files that others change meanwhile.  The provider of \<^verbatim>\<open>FileChunkedDownloadCallback\<close> opens the file anew
  for every chunk, so each call sees the world of its own moment.  The names of files are their digests, so another
  request can delete the file or store it again, but not replace its content.
\<close>

section \<open>A provider in a changing world\<close>

text \<open>\<open>ws k\<close> is the world at the \<open>k\<close>th call; the offset of that call is \<open>k * CHUNK_SIZE\<close>.\<close>

definition download_over_time :: "string \<Rightarrow> (nat \<Rightarrow> 's world) content_provider" where
  "download_over_time download_file ws off len =
     ContentProviderAdapter (download_provider download_file) (ws (off div CHUNK_SIZE)) off len"

definition comes_and_goes :: "(nat \<Rightarrow> 's world) \<Rightarrow> string \<Rightarrow> string \<Rightarrow> bool" where
  "comes_and_goes ws p c \<longleftrightarrow> (\<forall>k. stat (w_fs (ws k)) p = None \<or> stat (w_fs (ws k)) p = Some (Reg c))"

definition served_at :: "(nat \<Rightarrow> 's world) \<Rightarrow> string \<Rightarrow> nat \<Rightarrow> bool" where
  "served_at ws p k \<longleftrightarrow> stat (w_fs (ws k)) p \<noteq> None"

lemma download_over_time_pieces:
  assumes "comes_and_goes ws p c" "k * CHUNK_SIZE < length c"
  shows "download_over_time p ws (k * CHUNK_SIZE) len =
    (if served_at ws p k
     then Some (SinkWrite (take CHUNK_SIZE (drop (k * CHUNK_SIZE) c)) # (if length c \<le> Suc k * CHUNK_SIZE then [SinkDone] else []), True)
     else Some ([], False))"
proof -
  have k: "k * CHUNK_SIZE div CHUNK_SIZE = k" using chunk_size_props(1) by simp
  show ?thesis
  proof (cases "served_at ws p k")
    case True
    then have "stat (w_fs (ws k)) p = Some (Reg c)" using assms(1) unfolding comes_and_goes_def served_at_def by metis
    from provider_pieces [OF this assms(2)] show ?thesis using True
      unfolding download_over_time_def k by (simp add: le_diff_conv)
  next
    case False
    then show ?thesis unfolding download_over_time_def k
      by (simp add: served_at_def ContentProviderAdapter_def download_provider_def)
  qed
qed

section \<open>All of the file, or an end that the client notices\<close>

lemma changing_download_run:
  assumes "comes_and_goes ws p c" "c \<noteq> []" "socket_live st"
  shows "\<exists>ok err st' body j.
    write_content_chunked socket_is_writable socket_write st (download_over_time p) ws shut nocompressor = Some (ok, err, st') \<and>
    tx (sock st') = tx (sock st) @ body \<and> (\<forall>k < j. served_at ws p k \<and> \<not> shut k) \<and>
    (j * CHUNK_SIZE < length c \<longrightarrow> shut j \<and> ok \<or> \<not> served_at ws p j \<and> \<not> ok \<and> err = Canceled) \<and>
    (\<forall>peer hs. socket_pending peer = body \<longrightarrow>
      (\<exists>peer'. read_content_chunked socket_read peer hs append_receiver [] =
        Some (length c \<le> j * CHUNK_SIZE, hs, take (j * CHUNK_SIZE) c, peer')))"
proof -
  let ?t = "\<lparr> sk_stream = st, sk_offset = 0, sk_ok = True, sk_data_available = True \<rparr>"
  have "sink_live socket_live ?t" using assms(3) by (simp add: sink_live_def)
  then obtain ok err st' j cs body where
    st': "write_content_chunked socket_is_writable socket_write st (download_over_time p) ws shut nocompressor = Some (ok, err, st')"
    "tx (sock st') = tx (sock st) @ body" and s: "chunks_sent c CHUNK_SIZE (served_at ws p) shut 0 j cs ok err body"
    using socket_out.write_chunked_run [of CHUNK_SIZE c "download_over_time p" ws "served_at ws p" ?t 0 shut,
        OF download_over_time_pieces [OF assms(1)] chunk_size_props(1)] assms(2)
    by (auto simp: write_content_chunked_def)
  have cs: "\<forall>x \<in> set cs. x \<noteq> [] \<and> length x < ULONG_MAX" "concat cs = take (j * CHUNK_SIZE) c"
    using s chunk_size_props(2) by (auto simp: chunks_sent_def)
  have "\<exists>peer'. read_content_chunked socket_read peer hs append_receiver [] =
      Some (length c \<le> j * CHUNK_SIZE, hs, take (j * CHUNK_SIZE) c, peer')" if p: "socket_pending peer = body" for peer hs
  proof (cases "length c \<le> j * CHUNK_SIZE")
    case True
    then have "socket_pending peer = concat (map chunk_text cs) @ ''0'' @ CRLF @ CRLF @ []" using s p by (simp add: chunks_sent_def)
    from socket_in.read_chunks_accepting [OF append_receiver_accepts this cs(1), where a = "[]" and hs = hs] show ?thesis
      using True cs(2) by (auto simp: foldl_concat)
  next
    case False
    then have "socket_pending peer = concat (map chunk_text cs)" using s p by (simp add: chunks_sent_def)
    from socket_in.read_chunks_truncated [OF append_receiver_accepts this cs(1), where a = "[]" and hs = hs] show ?thesis
      using False cs(2) by (auto simp: foldl_concat)
  qed
  then show ?thesis using st' s
    by (intro exI [of _ ok] exI [of _ err] exI [of _ st'] exI [of _ body] exI [of _ j]) (auto simp: chunks_sent_def split: if_splits)
qed

text \<open>
  C21. A download is complete or visibly cut: while the file comes and goes between the calls of the provider, and
  whenever the server is shut down, the chunked writer returns, and a client that decodes what was sent up to the
  end of the connection either gets the whole file and success, or failure and the chunks up to the first
  call \<open>j\<close> that did not find the file (the writer is cancelled) or came after the shutdown; it never takes a part for the whole.
\<close>

theorem download_complete_or_cut:
  assumes "comes_and_goes ws p c" "c \<noteq> []" "socket_live st"
  shows "\<exists>ok err st' body j.
    write_content_chunked socket_is_writable socket_write st (download_over_time p) ws shut nocompressor = Some (ok, err, st') \<and>
    tx (sock st') = tx (sock st) @ body \<and> (\<forall>k < j. served_at ws p k \<and> \<not> shut k) \<and>
    (j * CHUNK_SIZE < length c \<longrightarrow> shut j \<and> ok \<or> \<not> served_at ws p j \<and> \<not> ok \<and> err = Canceled) \<and>
    (\<forall>peer hs. socket_pending peer = body \<longrightarrow>
      (\<exists>peer'. read_content_chunked socket_read peer hs append_receiver [] =
        Some (length c \<le> j * CHUNK_SIZE, hs, take (j * CHUNK_SIZE) c, peer')))"
  using assms by (rule changing_download_run)

section \<open>A run\<close>

text \<open>A file of two chunks, which is deleted after the first one was sent.\<close>

definition demo_text :: string where "demo_text = replicate (CHUNK_SIZE + 1) CHR ''x''"

definition demo_deleted :: "nat \<Rightarrow> buckets world" where
  "demo_deleted k = (if k = 0 then demo_cache [(''a'', Reg demo_text)] else demo_cache [])"

lemma demo_text_take: "take CHUNK_SIZE demo_text = replicate CHUNK_SIZE CHR ''x''" "length demo_text = Suc CHUNK_SIZE"
  unfolding demo_text_def by (subst take_replicate, simp) simp

lemma demo_deleted_stat:
  "stat (w_fs (demo_deleted k)) (cache_file ''im'' ''pic'' ''a'') = (if k = 0 then Some (Reg demo_text) else None)"
  using stat_file_key [OF demo_cache_key, of "[(''a'', Reg demo_text)]" "''a''"] stat_file_key [OF demo_cache_key, of "[]" "''a''"]
    plain_a demo_cache_simps(2) by (simp add: demo_deleted_def)

theorem download_complete_or_cut_witness:
  "\<exists>st' body peer'. write_content_chunked socket_is_writable socket_write (demo_socket []) (download_over_time (cache_file ''im'' ''pic'' ''a''))
      demo_deleted (\<lambda>_. False) nocompressor = Some (False, Canceled, st') \<and> tx (sock st') = tx (sock (demo_socket [])) @ body \<and>
    read_content_chunked socket_read (demo_socket [body]) [] append_receiver [] =
      Some (False, [], replicate CHUNK_SIZE CHR ''x'', peer')"
proof -
  let ?p = "cache_file ''im'' ''pic'' ''a''"
  have "comes_and_goes demo_deleted ?p demo_text" "demo_text \<noteq> []" "socket_live (demo_socket [])"
    by (simp_all add: comes_and_goes_def demo_deleted_stat demo_text_def)
  from download_complete_or_cut [OF this, of "\<lambda>_. False"] obtain ok err st' body j where
    r: "write_content_chunked socket_is_writable socket_write (demo_socket []) (download_over_time ?p) demo_deleted (\<lambda>_. False) nocompressor =
        Some (ok, err, st')" "tx (sock st') = tx (sock (demo_socket [])) @ body" "\<forall>k < j. served_at demo_deleted ?p k"
      "j * CHUNK_SIZE < length demo_text \<Longrightarrow> \<not> served_at demo_deleted ?p j \<and> \<not> ok \<and> err = Canceled"
    and d: "\<And>peer hs. socket_pending peer = body \<Longrightarrow> \<exists>peer'. read_content_chunked socket_read peer hs append_receiver [] =
      Some (length demo_text \<le> j * CHUNK_SIZE, hs, take (j * CHUNK_SIZE) demo_text, peer')" by auto
  have "\<not> 1 < j" using r(3) by (auto simp: served_at_def demo_deleted_stat)
  moreover have "j \<noteq> 0"
  proof
    assume "j = 0"
    then show False using r(4) by (simp add: served_at_def demo_deleted_stat demo_text_def)
  qed
  ultimately have "j = 1" by simp
  moreover have "socket_pending (demo_socket [body]) = body" by simp
  ultimately show ?thesis using r d [of "demo_socket [body]" "[]"] by (simp add: demo_text_take)
qed

end
