(* ===== verification/LogMsg.thy ===== *)
theory LogMsg
  imports FileUtils
begin

text \<open>
  The log of the program (\<^verbatim>\<open>src/src/logMsg.cpp\<close>): six log files and six error files that are filled in
  turn, the levels, the suppression of repeated messages, and start and end.  A \<^verbatim>\<open>FILE *\<close> is the
  path it was opened under, which stays right because a file is closed before it is moved; what is
  printed is in the file when \<^verbatim>\<open>log_string\<close> returns, since it flushes.  \<^verbatim>\<open>log_string\<close> runs under a mutex,
  so calls of several threads are a sequence of calls.  The clock is a parameter, and so is the text
  that \<^verbatim>\<open>vsnprintf\<close> makes of a format and its arguments.
  The last part shows that the files are a bounded queue of texts, on which the
  operations act as on the abstract log defined there.
\<close>

section \<open>The state\<close>

definition MAX_LOOP_FILE :: nat where "MAX_LOOP_FILE = 6"

definition LOG_DIR :: string where "LOG_DIR = ''/app/run/frs/log/''"

definition LOG_FILE_SIZE :: int where "LOG_FILE_SIZE = 1024 * 1024 * 40"

definition LOG_STR_BUF_LEN :: nat where "LOG_STR_BUF_LEN = 8196"

abbreviation (input) LOG_INFO :: int where "LOG_INFO \<equiv> 0"
abbreviation (input) LOG_WARN :: int where "LOG_WARN \<equiv> 1"
abbreviation (input) LOG_ERROR :: int where "LOG_ERROR \<equiv> 2"
abbreviation (input) LOG_FATAL :: int where "LOG_FATAL \<equiv> 3"
abbreviation (input) LOG_SYS :: int where "LOG_SYS \<equiv> 4"

definition log_file_name :: "string list" where
  "log_file_name = [''frs.1.log'', ''frs.2.log'', ''frs.3.log'', ''frs.4.log'', ''frs.5.log'', ''frs.6.log'']"

definition err_file_name :: "string list" where
  "err_file_name = [''frs.1.err'', ''frs.2.err'', ''frs.3.err'', ''frs.4.err'', ''frs.5.err'', ''frs.6.err'']"

text \<open>The static variables, the disk, and the standard output.\<close>

record log_state =
  log_fs :: fs
  pf_log :: "string option"
  pf_log_err :: "string option"
  log_level :: int
  last_log_str :: string
  currFileSize :: int
  log_stdout_on :: bool
  log_stdout :: string

definition log_state_init :: "fs \<Rightarrow> log_state" where
  "log_state_init fs = \<lparr> log_fs = fs, pf_log = None, pf_log_err = None, log_level = LOG_INFO, last_log_str = [],
     currFileSize = 0, log_stdout_on = True, log_stdout = [] \<rparr>"

section \<open>Moving the files\<close>

definition first_missing :: "fs \<Rightarrow> string list \<Rightarrow> nat" where
  "first_missing fs names =
     (case filter (\<lambda>i. \<not> is_file_exist fs (LOG_DIR @ names ! i)) [0..<MAX_LOOP_FILE] of
        i # _ \<Rightarrow> i | [] \<Rightarrow> MAX_LOOP_FILE - 1)"

definition move_forward :: "string list \<Rightarrow> fs \<Rightarrow> nat \<Rightarrow> fs" where
  "move_forward names fs i =
     (let filePrev = LOG_DIR @ names ! (i - 1); fileNext = LOG_DIR @ names ! i;
          fs1 = (if is_file_exist fs filePrev then snd (os_remove fs filePrev) else fs)
      in os_rename fs1 fileNext filePrev)"

definition move_files :: "string list \<Rightarrow> fs \<Rightarrow> nat \<times> fs" where
  "move_files names fs =
     (let last_index = first_missing fs names; fileLast = LOG_DIR @ names ! last_index
      in (last_index,
          if last_index = MAX_LOOP_FILE - 1 \<and> is_file_exist fs fileLast
          then foldl (move_forward names) fs [1..<MAX_LOOP_FILE] else fs))"

definition move_log_file :: "fs \<Rightarrow> nat \<times> fs" where "move_log_file = move_files log_file_name"

definition move_err_file :: "fs \<Rightarrow> nat \<times> fs" where "move_err_file = move_files err_file_name"

text \<open>\<^verbatim>\<open>fopen\<close> with mode \<^verbatim>\<open>a+\<close>: the stream and the disk; \<^verbatim>\<open>fprintf\<close> on a stream.\<close>

definition fopen_append :: "fs \<Rightarrow> string \<Rightarrow> string option \<times> fs" where
  "fopen_append fs filename =
     (case fs_put fs filename (\<lambda>old. old) of Some fs' \<Rightarrow> (Some filename, fs') | None \<Rightarrow> (None, fs))"

definition fprintf_log :: "string option \<Rightarrow> string \<Rightarrow> fs \<Rightarrow> fs" where
  "fprintf_log pf text fs =
     (case pf of
        None \<Rightarrow> fs
      | Some filename \<Rightarrow>
          (case stat fs filename of
             Some (Reg _) \<Rightarrow> (case fs_put fs filename (\<lambda>old. old @ text) of Some fs' \<Rightarrow> fs' | None \<Rightarrow> fs)
           | _ \<Rightarrow> fs))"

section \<open>Writing a message\<close>

text \<open>The part of \<^verbatim>\<open>log_string\<close> before the message: a full log file is closed and the next one opened.\<close>

definition open_err_file :: "log_state \<Rightarrow> log_state" where
  "open_err_file st =
     (case move_err_file (log_fs st) of
        (fileIndex, fs1) \<Rightarrow>
          (case fopen_append fs1 (LOG_DIR @ err_file_name ! fileIndex) of
             (pf, fs2) \<Rightarrow> st\<lparr> log_fs := fs2, pf_log_err := pf \<rparr>))"

definition open_log_files :: "log_state \<Rightarrow> bool \<times> log_state" where
  "open_log_files st =
     (case move_log_file (log_fs st) of
        (fileIndex, fs1) \<Rightarrow>
          (let filename = LOG_DIR @ log_file_name ! fileIndex in
           case fopen_append fs1 filename of
             (None, fs2) \<Rightarrow> (False, st\<lparr> log_fs := fs2, pf_log := None,
                               log_stdout := log_stdout st @ ''Can't create log file: '' @ filename @ ''.'' @ [LF] \<rparr>)
           | (Some pf, fs2) \<Rightarrow>
               (True, open_err_file (st\<lparr> log_fs := fs2, pf_log := Some pf, currFileSize := 0, last_log_str := [] \<rparr>))))"

text \<open>The line of a message at its level: whether it is logged, whether it is an error, and its tag.\<close>

definition log_tag :: "int \<Rightarrow> int \<Rightarrow> (bool \<times> string) option" where
  "log_tag cur level =
     (if level = LOG_INFO then (if cur \<le> LOG_INFO then Some (False, ''[INFO ] '') else None)
      else if level = LOG_WARN then (if cur \<le> LOG_WARN then Some (False, ''[WARN ] '') else None)
      else if level = LOG_ERROR then (if cur \<le> LOG_ERROR then Some (True, ''[ERROR] '') else None)
      else if level = LOG_FATAL then (if cur \<le> LOG_FATAL then Some (True, ''[FATAL] '') else None)
      else if level = LOG_SYS then Some (False, []) else None)"

definition log_line :: "string \<Rightarrow> string \<Rightarrow> string \<Rightarrow> string" where
  "log_line curTs tag str = take (LOG_STR_BUF_LEN - 1) (''['' @ curTs @ ''] '' @ tag @ str)"

text \<open>
  \<^verbatim>\<open>log_string\<close> for messages that fit its buffers, fewer than \<^verbatim>\<open>LOG_STR_BUF_LEN\<close> characters, as \<^verbatim>\<open>logMsg\<close> and the other
  callers pass them; a longer one overflows \<^verbatim>\<open>last_log_str\<close> in the code, which the model does not show.
\<close>

definition log_string :: "tm \<times> nat \<Rightarrow> int \<Rightarrow> string \<Rightarrow> log_state \<Rightarrow> int \<times> log_state" where
  "log_string now level str st =
     (let curTs = GetCurrentDTstring (fst now) (snd now);
          (opened, st1) = (if currFileSize st \<ge> LOG_FILE_SIZE then open_log_files st else (True, st))
      in if \<not> opened then (- 1, st1)
         else if str = last_log_str st1 then (0, st1)
         else (case log_tag (log_level st1) level of
                 None \<Rightarrow> (0, st1)
               | Some (err, tag) \<Rightarrow>
                   (let log_str = log_line curTs tag str;
                        fs1 = (if err then fprintf_log (pf_log_err st1) log_str (log_fs st1) else log_fs st1);
                        fs2 = fprintf_log (pf_log st1) log_str fs1
                    in (0, st1\<lparr> log_fs := fs2, last_log_str := str,
                             currFileSize := sint (word_of_int (currFileSize st1 + int (length log_str)) :: u32) \<rparr>))))"

definition logMsg :: "tm \<times> nat \<Rightarrow> int \<Rightarrow> string \<Rightarrow> log_state \<Rightarrow> log_state" where
  "logMsg now level text st =
     (let outbuf = take (LOG_STR_BUF_LEN - 1) (c_str text);
          st1 = snd (log_string now level outbuf st)
      in if log_stdout_on st1 then st1\<lparr> log_stdout := log_stdout st1 @ outbuf \<rparr> else st1)"

section \<open>Start, end and settings\<close>

definition os_getcwd :: "fs \<Rightarrow> string" where
  "os_getcwd fs = (if fs_cwd fs = [] then ''/'' else path_text (fs_cwd fs))"

definition log_init :: "tm \<times> nat \<Rightarrow> log_state \<Rightarrow> int \<times> log_state" where
  "log_init now st =
     (let buf = os_getcwd (log_fs st) @ LOG_DIR;
          st1 = (if \<not> is_file_exist (log_fs st) buf then st\<lparr> log_fs := snd (make_dir (log_fs st) buf) \<rparr> else st)
      in case open_log_files st1 of
           (False, st2) \<Rightarrow> (- 1, st2)
         | (True, st2) \<Rightarrow> (0, snd (log_string now LOG_SYS (''LOG START'' @ [LF]) st2)))"

definition log_set_level :: "int \<Rightarrow> log_state \<Rightarrow> log_state" where
  "log_set_level level st = (if level \<ge> LOG_INFO \<and> level \<le> LOG_SYS then st\<lparr> log_level := level \<rparr> else st)"

definition log_set_stdout_output :: "bool \<Rightarrow> log_state \<Rightarrow> log_state" where
  "log_set_stdout_output on st = st\<lparr> log_stdout_on := on \<rparr>"

definition log_close :: "tm \<times> nat \<Rightarrow> log_state \<Rightarrow> int \<times> log_state" where
  "log_close now st =
     (let st1 = snd (log_string now LOG_SYS (''LOG END'' @ [LF]) st) in (0, st1\<lparr> pf_log := None, pf_log_err := None \<rparr>))"

definition log_get_level_name :: "int \<Rightarrow> string" where
  "log_get_level_name level =
     (if level = LOG_INFO then ''INFO'' else if level = LOG_WARN then ''WARN'' else if level = LOG_ERROR then ''ERROR''
      else if level = LOG_FATAL then ''FATAL'' else if level = LOG_SYS then ''SYS'' else ''UNKOWN'')"


section \<open>The files as a bounded queue\<close>

text \<open>A group of files \<open>names\<close> in the log folder, none of which is a directory, with the texts \<open>q\<close>.\<close>

abbreviation log_dir :: "string list" where "log_dir \<equiv> [''app'', ''run'', ''frs'', ''log'']"

abbreviation log_key :: "string list \<Rightarrow> nat \<Rightarrow> string list" where "log_key names i \<equiv> log_dir @ [names ! i]"

definition loop_names :: "string list \<Rightarrow> bool" where
  "loop_names names \<longleftrightarrow> length names = MAX_LOOP_FILE \<and> distinct names \<and> list_all plain names"

definition log_place :: "fs \<Rightarrow> string list \<Rightarrow> bool" where
  "log_place fs names \<longleftrightarrow> fs_ok fs \<and> is_dir_at (fs_root fs) log_dir \<and>
     (\<forall>n \<in> set names. \<not> is_dir_at (fs_root fs) (log_dir @ [n]))"

definition holds_queue :: "fs \<Rightarrow> string list \<Rightarrow> string list \<Rightarrow> bool" where
  "holds_queue fs names q \<longleftrightarrow> length q \<le> MAX_LOOP_FILE \<and>
     (\<forall>i < MAX_LOOP_FILE. fs_content fs (log_key names i) = (if i < length q then Some (q ! i) else None))"

text \<open>What the operations keep: directories, and the files outside the group.\<close>

definition log_kept :: "string list \<Rightarrow> fs \<Rightarrow> fs \<Rightarrow> bool" where
  "log_kept names fs fs' \<longleftrightarrow> same_dirs fs fs' \<and>
     (\<forall>k. k \<notin> (\<lambda>n. log_dir @ [n]) ` set names \<longrightarrow> fs_content fs' k = fs_content fs k)"

lemma log_kept_refl [simp]: "log_kept names fs fs" by (simp add: log_kept_def same_dirs_def)

lemma log_kept_trans: "log_kept names fs fs1 \<Longrightarrow> log_kept names fs1 fs2 \<Longrightarrow> log_kept names fs fs2"
  by (auto simp: log_kept_def same_dirs_def)

lemma log_place_kept: "log_place fs names' \<Longrightarrow> log_kept names fs fs' \<Longrightarrow> log_place fs' names'"
  using same_dirs_ok [of fs fs'] by (auto simp: log_place_def log_kept_def same_dirs_def)

lemma loop_names_log [simp]: "loop_names log_file_name" "loop_names err_file_name"
  by (simp_all add: loop_names_def log_file_name_def err_file_name_def MAX_LOOP_FILE_def plain_def)

lemma log_key_inj:
  "loop_names names \<Longrightarrow> i < MAX_LOOP_FILE \<Longrightarrow> j < MAX_LOOP_FILE \<Longrightarrow> log_key names i = log_key names j \<longleftrightarrow> i = j"
  by (simp add: loop_names_def nth_eq_iff_index_eq)

lemma log_key_of:
  assumes "loop_names names" "log_place fs names" "i < MAX_LOOP_FILE"
  shows "file_key fs (LOG_DIR @ names ! i) = Some (log_key names i)"
proof -
  have n: "names ! i \<in> set names" using assms by (simp add: loop_names_def)
  have p: "LOG_DIR @ names ! i = path_text (log_key names i)" by (simp add: LOG_DIR_def path_text_def)
  moreover have "list_all plain (log_key names i)" using n assms(1) by (auto simp: loop_names_def list_all_iff plain_def)
  ultimately show ?thesis using n assms(2) file_key_plain [of "log_key names i" fs] unfolding p log_place_def by simp
qed

lemma log_exists:
  assumes "loop_names names" "log_place fs names" "i < MAX_LOOP_FILE"
  shows "is_file_exist fs (LOG_DIR @ names ! i) \<longleftrightarrow> fs_content fs (log_key names i) \<noteq> None"
  using stat_file_key [OF log_key_of [OF assms]] by (simp add: is_file_exist_def)

lemma move_forward_step:
  assumes "loop_names names" "log_place fs names" "Suc i < MAX_LOOP_FILE" "fs_content fs (log_key names (Suc i)) = Some s"
  shows "log_kept names fs (move_forward names fs (Suc i)) \<and>
    fs_content (move_forward names fs (Suc i)) = (fs_content fs)(log_key names i \<mapsto> s, log_key names (Suc i) := None)"
proof -
  let ?p = "LOG_DIR @ names ! i" and ?n = "LOG_DIR @ names ! Suc i"
  let ?fs = "if is_file_exist fs ?p then snd (os_remove fs ?p) else fs"
  have ok: "fs_ok fs" using assms(2) by (simp add: log_place_def)
  have i: "i < MAX_LOOP_FILE" using assms(3) by simp
  note kp = log_key_of [OF assms(1,2) i] and kn = log_key_of [OF assms(1-3)]
  have ne: "log_key names (Suc i) \<noteq> log_key names i" using log_key_inj [OF assms(1,3) i] by simp
  have r: "same_dirs fs ?fs" "fs_content ?fs = (fs_content fs)(log_key names i := None)"
    using os_remove_key [OF ok kp] log_exists [OF assms(1,2) i] by (auto simp: same_dirs_def)
  have "fs_ok ?fs" "file_key ?fs ?n = Some (log_key names (Suc i))" "file_key ?fs ?p = Some (log_key names i)"
    "fs_content ?fs (log_key names (Suc i)) = Some s"
    using same_dirs_ok [OF r(1)] same_dirs_keys [OF r(1)] ok kp kn r(2) assms(4) ne by auto
  from os_rename_key [OF this ne] r have
    s: "same_dirs fs (os_rename ?fs ?n ?p)"
       "fs_content (os_rename ?fs ?n ?p) = (fs_content fs)(log_key names i \<mapsto> s, log_key names (Suc i) := None)"
    by (auto simp: same_dirs_def)
  moreover have "log_kept names fs (os_rename ?fs ?n ?p)"
    using s assms(1,3) i by (auto simp: log_kept_def loop_names_def)
  ultimately show ?thesis by (simp add: move_forward_def Let_def)
qed

lemma move_all_forward:
  assumes "loop_names names" "log_place fs names" "m < MAX_LOOP_FILE"
    and "\<forall>i < MAX_LOOP_FILE. fs_content fs (log_key names i) \<noteq> None"
  shows "log_kept names fs (foldl (move_forward names) fs [1..<Suc m]) \<and>
    (\<forall>i < MAX_LOOP_FILE. fs_content (foldl (move_forward names) fs [1..<Suc m]) (log_key names i) =
       (if i < m then fs_content fs (log_key names (Suc i)) else if i = m \<and> 0 < m then None else fs_content fs (log_key names i)))"
  using assms(3)
proof (induction m)
  case (Suc m)
  let ?fs = "foldl (move_forward names) fs [1..<Suc m]"
  have IH: "log_kept names fs ?fs" "\<And>i. i < MAX_LOOP_FILE \<Longrightarrow> fs_content ?fs (log_key names i) =
       (if i < m then fs_content fs (log_key names (Suc i)) else if i = m \<and> 0 < m then None else fs_content fs (log_key names i))"
    using Suc by simp_all
  obtain s where s: "fs_content fs (log_key names (Suc m)) = Some s" using assms(4) Suc(2) by blast
  then have "fs_content ?fs (log_key names (Suc m)) = Some s" using IH(2) [OF Suc(2)] by simp
  note st = move_forward_step [OF assms(1) log_place_kept [OF assms(2) IH(1)] Suc(2) this]
  have e: "foldl (move_forward names) fs [1..<Suc (Suc m)] = move_forward names ?fs (Suc m)" by simp
  have "fs_content (move_forward names ?fs (Suc m)) (log_key names i) =
     (if i < Suc m then fs_content fs (log_key names (Suc i)) else if i = Suc m \<and> 0 < Suc m then None
      else fs_content fs (log_key names i))" if "i < MAX_LOOP_FILE" for i
    using st IH(2) [OF that] s log_key_inj [OF assms(1) that, of m] log_key_inj [OF assms(1) that Suc(2)] Suc(2)
    by (simp only: fun_upd_apply) auto
  then show ?case unfolding e using log_kept_trans [OF IH(1)] st by blast
qed simp

text \<open>One position further, the oldest text gone when all files are in use.\<close>

definition drop_oldest :: "string list \<Rightarrow> string list" where
  "drop_oldest q = (if length q = MAX_LOOP_FILE then tl q else q)"

lemma first_missing_queue:
  assumes "loop_names names" "log_place fs names" "holds_queue fs names q"
  shows "first_missing fs names = length (drop_oldest q)"
proof -
  have "filter (\<lambda>i. \<not> is_file_exist fs (LOG_DIR @ names ! i)) [0..<MAX_LOOP_FILE] = filter (\<lambda>i. length q \<le> i) [0..<MAX_LOOP_FILE]"
    using log_exists [OF assms(1,2)] assms(3) by (intro filter_cong) (auto simp: holds_queue_def split: if_splits)
  also have "\<dots> = [length q..<MAX_LOOP_FILE]"
  proof -
    have "[0..<MAX_LOOP_FILE] = [0..<length q] @ [length q..<MAX_LOOP_FILE]"
      using assms(3) upt_add_eq_append [of 0 "length q" "MAX_LOOP_FILE - length q"] by (simp add: holds_queue_def)
    then show ?thesis by (simp add: filter_empty_conv)
  qed
  finally have f: "first_missing fs names = (case [length q..<MAX_LOOP_FILE] of i # _ \<Rightarrow> i | [] \<Rightarrow> MAX_LOOP_FILE - 1)"
    by (simp add: first_missing_def)
  show ?thesis
  proof (cases "length q = MAX_LOOP_FILE")
    case False
    then have "length q < MAX_LOOP_FILE" using assms(3) by (simp add: holds_queue_def)
    then show ?thesis unfolding f upt_conv_Cons [OF \<open>length q < MAX_LOOP_FILE\<close>] by (simp add: drop_oldest_def)
  qed (simp add: f drop_oldest_def)
qed

lemma move_files_queue:
  assumes "loop_names names" "log_place fs names" "holds_queue fs names q"
  shows "\<exists>fs'. move_files names fs = (length (drop_oldest q), fs') \<and> log_kept names fs fs' \<and> holds_queue fs' names (drop_oldest q)"
proof (cases "length q = MAX_LOOP_FILE")
  case True
  then have all: "\<forall>i < MAX_LOOP_FILE. fs_content fs (log_key names i) = Some (q ! i)" using assms(3) by (simp add: holds_queue_def)
  have i: "first_missing fs names = MAX_LOOP_FILE - 1" "MAX_LOOP_FILE - 1 < MAX_LOOP_FILE" "Suc (MAX_LOOP_FILE - 1) = MAX_LOOP_FILE"
    using first_missing_queue [OF assms] True by (simp_all add: drop_oldest_def MAX_LOOP_FILE_def)
  then have "is_file_exist fs (LOG_DIR @ names ! (MAX_LOOP_FILE - 1))" using log_exists [OF assms(1,2) i(2)] all by simp
  then have e: "move_files names fs = (MAX_LOOP_FILE - 1, foldl (move_forward names) fs [1..<MAX_LOOP_FILE])"
    using i by (simp add: move_files_def Let_def)
  have l: "length (drop_oldest q) = MAX_LOOP_FILE - 1" using True by (simp add: drop_oldest_def)
  note m = move_all_forward [OF assms(1,2) i(2), unfolded i(3)]
  have "fs_content (foldl (move_forward names) fs [1..<MAX_LOOP_FILE]) (log_key names j) =
      (if j < length (drop_oldest q) then Some (drop_oldest q ! j) else None)" if "j < MAX_LOOP_FILE" for j
    using m all that True l by (auto simp: drop_oldest_def nth_tl MAX_LOOP_FILE_def)
  then show ?thesis using e l m all i(2) by (auto simp: holds_queue_def)
next
  case False
  then have d: "drop_oldest q = q" "length q < MAX_LOOP_FILE" using assms(3) by (simp_all add: drop_oldest_def holds_queue_def)
  then have "\<not> is_file_exist fs (LOG_DIR @ names ! length q)" using log_exists [OF assms(1,2) d(2)] assms(3) by (simp add: holds_queue_def)
  then show ?thesis using first_missing_queue [OF assms] d assms(3) by (simp add: move_files_def Let_def)
qed


lemma holds_queue_kept:
  assumes "log_kept names fs fs'" "set names \<inter> set names' = {}" "loop_names names'" "holds_queue fs names' q"
  shows "holds_queue fs' names' q"
proof -
  have "fs_content fs' (log_key names' i) = fs_content fs (log_key names' i)" if "i < MAX_LOOP_FILE" for i
  proof -
    have "names' ! i \<in> set names'" using that assms(3) by (simp add: loop_names_def)
    then have "log_key names' i \<notin> (\<lambda>n. log_dir @ [n]) ` set names" using assms(2) by auto
    then show ?thesis using assms(1) unfolding log_kept_def by blast
  qed
  then show ?thesis using assms(4) by (simp add: holds_queue_def)
qed

lemma put_queue:
  assumes "loop_names names" "log_place fs names" "holds_queue fs names q" "i < MAX_LOOP_FILE" "i \<le> length q"
  shows "\<exists>fs'. fs_put fs (LOG_DIR @ names ! i) f = Some fs' \<and> log_kept names fs fs' \<and>
    holds_queue fs' names (if i = length q then q @ [f []] else q[i := f (q ! i)])"
proof -
  have ok: "fs_ok fs" using assms(2) by (simp add: log_place_def)
  let ?old = "if i = length q then [] else q ! i"
  have old: "(case fs_content fs (log_key names i) of None \<Rightarrow> [] | Some s \<Rightarrow> s) = ?old"
    using assms(3-5) by (auto simp: holds_queue_def)
  from fs_put_key [OF ok log_key_of [OF assms(1,2,4)], of f] obtain fs' where
    fs': "fs_put fs (LOG_DIR @ names ! i) f = Some fs'" "same_dirs fs fs'"
      "fs_content fs' = (fs_content fs)(log_key names i \<mapsto> f ?old)"
    unfolding old by blast
  have k: "log_kept names fs fs'" using fs'(2,3) assms(1,4) by (auto simp: log_kept_def loop_names_def)
  have c: "fs_content fs' (log_key names j) = (if j = i then Some (f ?old) else fs_content fs (log_key names j))"
    if "j < MAX_LOOP_FILE" for j
    unfolding fs'(3) using log_key_inj [OF assms(1) that assms(4)] by simp
  show ?thesis
  proof (cases "i = length q")
    case True
    then have "holds_queue fs' names (q @ [f []])"
      using c assms(3,4) by (auto simp: holds_queue_def nth_append less_Suc_eq)
    then show ?thesis using fs'(1) k True by simp
  next
    case False
    then have "holds_queue fs' names (q[i := f (q ! i)])"
      using c assms(3-5) by (auto simp: holds_queue_def nth_list_update)
    then show ?thesis using fs'(1) k False by simp
  qed
qed

text \<open>The name a queue is written under, and the two things done with a queue.\<close>

definition current_name :: "string list \<Rightarrow> string list \<Rightarrow> string" where
  "current_name names q = LOG_DIR @ names ! (length q - 1)"

definition push_file :: "string list \<Rightarrow> string list" where "push_file q = drop_oldest q @ [[]]"

definition add_text :: "string list \<Rightarrow> string \<Rightarrow> string list" where "add_text q t = butlast q @ [last q @ t]"

lemma drop_oldest_length: "holds_queue fs names q \<Longrightarrow> length (drop_oldest q) < MAX_LOOP_FILE"
  by (auto simp: holds_queue_def drop_oldest_def MAX_LOOP_FILE_def)

lemma next_file:
  assumes "loop_names names" "log_place fs names" "holds_queue fs names q"
  shows "\<exists>fs1 fs2. move_files names fs = (length (drop_oldest q), fs1) \<and>
    fopen_append fs1 (LOG_DIR @ names ! length (drop_oldest q)) = (Some (current_name names (push_file q)), fs2) \<and>
    log_kept names fs fs2 \<and> holds_queue fs2 names (push_file q)"
proof -
  obtain fs1 where m: "move_files names fs = (length (drop_oldest q), fs1)" "log_kept names fs fs1"
    "holds_queue fs1 names (drop_oldest q)"
    using move_files_queue [OF assms] by blast
  from put_queue [OF assms(1) log_place_kept [OF assms(2) m(2)] m(3) drop_oldest_length [OF assms(3)] order.refl, of "\<lambda>old. old"]
  obtain fs2 where "fs_put fs1 (LOG_DIR @ names ! length (drop_oldest q)) (\<lambda>old. old) = Some fs2" "log_kept names fs1 fs2"
    "holds_queue fs2 names (push_file q)"
    by (auto simp: push_file_def)
  then show ?thesis using m(1) log_kept_trans [OF m(2)]
    by (auto simp: fopen_append_def current_name_def push_file_def)
qed

lemma print_file:
  assumes "loop_names names" "log_place fs names" "holds_queue fs names q" "q \<noteq> []"
  shows "log_kept names fs (fprintf_log (Some (current_name names q)) t fs) \<and>
    holds_queue (fprintf_log (Some (current_name names q)) t fs) names (add_text q t)"
proof -
  have i: "length q - 1 < MAX_LOOP_FILE" "length q - 1 < length q"
    using assms(3,4) by (cases q; simp add: holds_queue_def)+
  from put_queue [OF assms(1-3) i(1), of "\<lambda>old. old @ t"] i obtain fs' where
    p: "fs_put fs (current_name names q) (\<lambda>old. old @ t) = Some fs'" "log_kept names fs fs'"
      "holds_queue fs' names (q[length q - 1 := q ! (length q - 1) @ t])"
    by (auto simp: current_name_def)
  have "q[length q - 1 := q ! (length q - 1) @ t] = add_text q t"
    using assms(4) by (cases q rule: rev_cases) (simp_all add: add_text_def)
  moreover have "stat fs (current_name names q) = Some (Reg (q ! (length q - 1)))"
    using stat_file_key [OF log_key_of [OF assms(1,2) i(1)]] assms(3) i by (simp add: current_name_def holds_queue_def)
  ultimately show ?thesis using p by (simp add: fprintf_log_def)
qed


section \<open>The log refines an abstract log\<close>

text \<open>The abstract log: the texts of the log and error files from the oldest to the current one,
  the level, and the last message.\<close>

record abs_log =
  log_texts :: "string list"
  err_texts :: "string list"
  abs_level :: int
  abs_last :: string

definition abs_log_string :: "string \<Rightarrow> int \<Rightarrow> string \<Rightarrow> abs_log \<Rightarrow> abs_log" where
  "abs_log_string curTs level str a =
     (let a1 = (if LOG_FILE_SIZE \<le> int (length (last (log_texts a)))
                then a\<lparr> log_texts := push_file (log_texts a), err_texts := push_file (err_texts a), abs_last := [] \<rparr> else a)
      in if str = abs_last a1 then a1
         else (case log_tag (abs_level a1) level of
                 None \<Rightarrow> a1
               | Some (err, tag) \<Rightarrow>
                   (let l = log_line curTs tag str
                    in a1\<lparr> log_texts := add_text (log_texts a1) l,
                           err_texts := (if err then add_text (err_texts a1) l else err_texts a1), abs_last := str \<rparr>)))"

text \<open>How the state of the module represents it.  An error line is also in the log file, so the
  error file is never longer than the log file.\<close>

definition text_bound :: "string \<Rightarrow> bool" where
  "text_bound t \<longleftrightarrow> int (length t) < LOG_FILE_SIZE + int LOG_STR_BUF_LEN"

definition log_rep :: "log_state \<Rightarrow> abs_log \<Rightarrow> bool" where
  "log_rep st a \<longleftrightarrow> log_place (log_fs st) (log_file_name @ err_file_name) \<and>
     holds_queue (log_fs st) log_file_name (log_texts a) \<and> holds_queue (log_fs st) err_file_name (err_texts a) \<and>
     log_texts a \<noteq> [] \<and> err_texts a \<noteq> [] \<and>
     pf_log st = Some (current_name log_file_name (log_texts a)) \<and>
     pf_log_err st = Some (current_name err_file_name (err_texts a)) \<and>
     currFileSize st = int (length (last (log_texts a))) \<and> length (last (err_texts a)) \<le> length (last (log_texts a)) \<and>
     list_all text_bound (log_texts a) \<and> list_all text_bound (err_texts a) \<and>
     log_level st = abs_level a \<and> last_log_str st = abs_last a"

lemma log_place_append: "log_place fs (xs @ ys) \<longleftrightarrow> log_place fs xs \<and> log_place fs ys"
  by (auto simp: log_place_def)

lemma log_names_disjoint: "set log_file_name \<inter> set err_file_name = {}" "set err_file_name \<inter> set log_file_name = {}"
  by (simp_all add: log_file_name_def err_file_name_def)

lemma in_set_tl: "x \<in> set (tl q) \<Longrightarrow> x \<in> set q" by (cases q) auto

lemma text_bound_queue:
  "list_all text_bound q \<Longrightarrow> list_all text_bound (push_file q)" "last (push_file q) = []" "push_file q \<noteq> []"
  "add_text q t \<noteq> []" "last (add_text q t) = last q @ t"
  "q \<noteq> [] \<Longrightarrow> list_all text_bound q \<Longrightarrow> text_bound (last q @ t) \<Longrightarrow> list_all text_bound (add_text q t)"
  "q \<noteq> [] \<Longrightarrow> length (add_text q t) = length q"
  by (auto simp: push_file_def add_text_def drop_oldest_def text_bound_def LOG_FILE_SIZE_def LOG_STR_BUF_LEN_def list_all_iff
      dest: in_set_butlastD in_set_tl)

text \<open>Opening the next pair of files, from any state of the folder.\<close>

lemma open_log_files_queue:
  assumes "log_place (log_fs st) (log_file_name @ err_file_name)"
    "holds_queue (log_fs st) log_file_name q" "holds_queue (log_fs st) err_file_name e"
    and "list_all text_bound q" "list_all text_bound e"
  shows "\<exists>st'. open_log_files st = (True, st') \<and>
    log_rep st' \<lparr> log_texts = push_file q, err_texts = push_file e, abs_level = log_level st, abs_last = [] \<rparr> \<and>
    log_kept (log_file_name @ err_file_name) (log_fs st) (log_fs st') \<and> log_stdout st' = log_stdout st \<and>
    log_stdout_on st' = log_stdout_on st"
proof -
  let ?n = "log_file_name" and ?e = "err_file_name"
  have pl: "log_place (log_fs st) ?n" "log_place (log_fs st) ?e" using assms(1) by (simp_all add: log_place_append)
  from next_file [OF loop_names_log(1) pl(1) assms(2)] obtain fs1 fs2 where
    l: "move_files ?n (log_fs st) = (length (drop_oldest q), fs1)"
      "fopen_append fs1 (LOG_DIR @ ?n ! length (drop_oldest q)) = (Some (current_name ?n (push_file q)), fs2)"
      "log_kept ?n (log_fs st) fs2" "holds_queue fs2 ?n (push_file q)" by blast
  have e0: "holds_queue fs2 ?e e" by (rule holds_queue_kept [OF l(3) log_names_disjoint(1) loop_names_log(2) assms(3)])
  from next_file [OF loop_names_log(2) log_place_kept [OF pl(2) l(3)] e0] obtain fs3 fs4 where
    r: "move_files ?e fs2 = (length (drop_oldest e), fs3)"
      "fopen_append fs3 (LOG_DIR @ ?e ! length (drop_oldest e)) = (Some (current_name ?e (push_file e)), fs4)"
      "log_kept ?e fs2 fs4" "holds_queue fs4 ?e (push_file e)" by blast
  have l0: "holds_queue fs4 ?n (push_file q)" by (rule holds_queue_kept [OF r(3) log_names_disjoint(2) loop_names_log(1) l(4)])
  have k: "log_kept (?n @ ?e) (log_fs st) fs4" using l(3) r(3) by (auto simp: log_kept_def same_dirs_def image_Un)
  let ?st = "st\<lparr> log_fs := fs4, pf_log := Some (current_name ?n (push_file q)), currFileSize := 0, last_log_str := [],
      pf_log_err := Some (current_name ?e (push_file e)) \<rparr>"
  have "open_log_files st = (True, ?st)"
    using l(1,2) r(1,2) by (simp add: open_log_files_def open_err_file_def move_log_file_def move_err_file_def Let_def)
  moreover have "log_rep ?st \<lparr> log_texts = push_file q, err_texts = push_file e, abs_level = log_level st, abs_last = [] \<rparr>"
    unfolding log_rep_def using log_place_kept [OF assms(1) k] l0 r(4) text_bound_queue assms(4,5) by simp
  ultimately show ?thesis using k by (intro exI [of _ ?st]) simp
qed


lemma log_size_word: "0 \<le> x \<Longrightarrow> x < 2 ^ 31 \<Longrightarrow> sint (word_of_int x :: u32) = x"
  by (simp add: sint_uint uint_word_of_int signed_take_bit_int_eq_self take_bit_int_eq_self)

lemma log_line_length: "length (log_line ts tag str) < LOG_STR_BUF_LEN"
  by (simp add: log_line_def LOG_STR_BUF_LEN_def)

text \<open>Writing a line into the current files.\<close>

lemma log_line_written:
  fixes err :: bool
  assumes "log_rep st a" "int (length (last (log_texts a))) < LOG_FILE_SIZE" "length l < LOG_STR_BUF_LEN"
  defines "fs1 \<equiv> if err then fprintf_log (pf_log_err st) l (log_fs st) else log_fs st"
  defines "fs2 \<equiv> fprintf_log (pf_log st) l fs1"
  shows "log_rep (st\<lparr> log_fs := fs2, last_log_str := str,
        currFileSize := sint (word_of_int (currFileSize st + int (length l)) :: u32) \<rparr>)
      (a\<lparr> log_texts := add_text (log_texts a) l,
          err_texts := (if err then add_text (err_texts a) l else err_texts a), abs_last := str \<rparr>) \<and>
    log_kept (log_file_name @ err_file_name) (log_fs st) fs2"
proof -
  let ?n = "log_file_name" and ?e = "err_file_name"
  from assms(1) have r: "log_place (log_fs st) (?n @ ?e)" "holds_queue (log_fs st) ?n (log_texts a)"
    "holds_queue (log_fs st) ?e (err_texts a)" "log_texts a \<noteq> []" "err_texts a \<noteq> []"
    "pf_log st = Some (current_name ?n (log_texts a))" "pf_log_err st = Some (current_name ?e (err_texts a))"
    "currFileSize st = int (length (last (log_texts a)))" "length (last (err_texts a)) \<le> length (last (log_texts a))"
    "list_all text_bound (log_texts a)" "list_all text_bound (err_texts a)" "log_level st = abs_level a"
    by (simp_all add: log_rep_def)
  have pl: "log_place (log_fs st) ?n" "log_place (log_fs st) ?e" using r(1) by (simp_all add: log_place_append)
  have e: "log_kept ?e (log_fs st) fs1 \<and> holds_queue fs1 ?e (if err then add_text (err_texts a) l else err_texts a)"
    using print_file [OF loop_names_log(2) pl(2) r(3,5), of l] r(3,7) by (simp add: fs1_def)
  have n0: "holds_queue fs1 ?n (log_texts a)"
    using holds_queue_kept [OF _ log_names_disjoint(2) loop_names_log(1) r(2)] e by blast
  have n: "log_kept ?n fs1 fs2" "holds_queue fs2 ?n (add_text (log_texts a) l)"
    using print_file [OF loop_names_log(1) log_place_kept [OF pl(1)] n0 r(4), of ?e l] e r(6) by (simp_all add: fs2_def)
  have e2: "holds_queue fs2 ?e (if err then add_text (err_texts a) l else err_texts a)"
    using holds_queue_kept [OF n(1) log_names_disjoint(1) loop_names_log(2)] e by blast
  have k: "log_kept (?n @ ?e) (log_fs st) fs2" using n(1) e by (auto simp: log_kept_def same_dirs_def image_Un)
  have b: "text_bound (last (log_texts a) @ l)" "text_bound (last (err_texts a) @ l)"
    using assms(2,3) r(9) by (simp_all add: text_bound_def)
  have w: "sint (word_of_int (currFileSize st + int (length l)) :: u32) = int (length (last (log_texts a) @ l))"
    using r(8) assms(2,3) by (subst log_size_word) (simp_all add: LOG_FILE_SIZE_def LOG_STR_BUF_LEN_def)
  have cn: "current_name names (add_text q t) = current_name names q" if "q \<noteq> []" for names q t
    using text_bound_queue(7) [OF that] by (simp add: current_name_def)
  show ?thesis unfolding log_rep_def w
    using log_place_kept [OF r(1) k] n(2) e2 k r b by (cases err) (simp_all add: text_bound_queue cn)
qed

lemma log_string_run:
  assumes "log_rep st a"
  shows "\<exists>st'. log_string now level str st = (0, st') \<and>
    log_rep st' (abs_log_string (GetCurrentDTstring (fst now) (snd now)) level str a) \<and>
    log_kept (log_file_name @ err_file_name) (log_fs st) (log_fs st') \<and> log_stdout st' = log_stdout st \<and>
    log_stdout_on st' = log_stdout_on st"
proof -
  let ?full = "LOG_FILE_SIZE \<le> int (length (last (log_texts a)))"
  let ?a = "if ?full then a\<lparr> log_texts := push_file (log_texts a), err_texts := push_file (err_texts a), abs_last := [] \<rparr> else a"
  have cs: "currFileSize st = int (length (last (log_texts a)))" using assms by (simp add: log_rep_def)
  have "\<exists>st1. (if currFileSize st \<ge> LOG_FILE_SIZE then open_log_files st else (True, st)) = (True, st1) \<and> log_rep st1 ?a \<and>
      log_kept (log_file_name @ err_file_name) (log_fs st) (log_fs st1) \<and> log_stdout st1 = log_stdout st \<and>
      log_stdout_on st1 = log_stdout_on st"
  proof (cases ?full)
    case True
    have "\<lparr> log_texts = push_file (log_texts a), err_texts = push_file (err_texts a), abs_level = log_level st, abs_last = [] \<rparr> =
        a\<lparr> log_texts := push_file (log_texts a), err_texts := push_file (err_texts a), abs_last := [] \<rparr>"
      using assms by (simp add: log_rep_def)
    then show ?thesis using open_log_files_queue [of st "log_texts a" "err_texts a"] assms True cs by (simp add: log_rep_def)
  next
    case False
    then show ?thesis using assms cs by simp
  qed
  then obtain st1 where o: "(if currFileSize st \<ge> LOG_FILE_SIZE then open_log_files st else (True, st)) = (True, st1)"
    "log_rep st1 ?a" "log_kept (log_file_name @ err_file_name) (log_fs st) (log_fs st1)"
    "log_stdout st1 = log_stdout st" "log_stdout_on st1 = log_stdout_on st" by blast
  define a1 where "a1 = ?a"
  have small: "int (length (last (log_texts a1))) < LOG_FILE_SIZE" by (simp add: a1_def text_bound_queue LOG_FILE_SIZE_def)
  note r = o(2) [folded a1_def]
  then have e: "log_level st1 = abs_level a1" "last_log_str st1 = abs_last a1" by (simp_all add: log_rep_def)
  note w = log_line_written [OF r small log_line_length] and k = log_kept_trans [OF o(3)]
  show ?thesis
  proof (cases "str = abs_last a1 \<or> log_tag (abs_level a1) level = None")
    case True
    then show ?thesis unfolding log_string_def abs_log_string_def Let_def o(1) prod.case e a1_def [symmetric]
      using r o(3-) by auto
  next
    case False
    then obtain err tag where t: "log_tag (abs_level a1) level = Some (err, tag)" "str \<noteq> abs_last a1" by auto
    show ?thesis unfolding log_string_def abs_log_string_def Let_def o(1) prod.case e a1_def [symmetric] t(1) option.case
      using w [where err = err] k t(2) o(4,5) by (simp del: of_int_add of_int_of_nat_eq)
  qed
qed


section \<open>Start of the log\<close>

text \<open>The folder \<^verbatim>\<open>log_init\<close> looks for and makes is not \<^verbatim>\<open>LOG_DIR\<close> but one of this name below the working
  directory; making it touches no file and none of the places of the log files.\<close>

lemma make_dir_below_cwd:
  assumes "fs_cwd fs \<noteq> []" "list_all plain (fs_cwd fs)"
  defines "p \<equiv> fs_cwd fs @ log_dir"
  shows "snd (make_dir fs (os_getcwd fs @ LOG_DIR)) = fs \<or>
    is_dir_at (fs_root fs) (butlast p) \<and> node_at (fs_root fs) p = None \<and>
    snd (make_dir fs (os_getcwd fs @ LOG_DIR)) = fs\<lparr> fs_root := set_at (fs_root fs) p (Some (Dir [])) \<rparr>"
proof -
  let ?buf = "os_getcwd fs @ LOG_DIR"
  have buf: "?buf = path_text p @ ''/''" using assms(1) by (simp add: p_def os_getcwd_def LOG_DIR_def path_text_def)
  have pl: "list_all plain p" using assms(2) by (simp add: p_def plain_def)
  have "strip_slashes (c_str ?buf) = path_text p"
    using strip_slashes_plain [OF pl] path_text_no_nul [OF pl] unfolding buf by (simp add: strip_slashes_def)
  then have "os_mkdir fs ?buf = fs \<or> is_dir_at (fs_root fs) (butlast p) \<and> node_at (fs_root fs) p = None \<and>
      os_mkdir fs ?buf = fs\<lparr> fs_root := set_at (fs_root fs) p (Some (Dir [])) \<rparr>"
    using os_path_plain [OF _ pl, of fs] by (auto simp: os_mkdir_def p_def split: option.splits)
  then show ?thesis by (auto simp: make_dir_def Let_def)
qed

lemma log_dir_exists:
  assumes "fs_cwd fs = []" "is_dir_at (fs_root fs) log_dir"
  shows "is_file_exist fs (os_getcwd fs @ LOG_DIR)"
proof -
  let ?r = "fs_root fs"
  have "is_dir_at ?r []" "is_dir_at ?r [''app'']" "is_dir_at ?r [''app'', ''run'']" "is_dir_at ?r [''app'', ''run'', ''frs'']"
    using is_dir_prefix [of ?r "[]" log_dir] is_dir_prefix [of ?r "[''app'']" "[''run'', ''frs'', ''log'']"]
      is_dir_prefix [of ?r "[''app'', ''run'']" "[''frs'', ''log'']"] is_dir_prefix [of ?r "[''app'', ''run'', ''frs'']" "[''log'']"]
      assms(2) by simp_all
  then have "os_path fs (os_getcwd fs @ LOG_DIR) = Some log_dir" using assms by (simp add: os_path_def os_getcwd_def LOG_DIR_def)
  then show ?thesis using assms(2) by (auto simp: is_file_exist_def stat_def is_dir_at_def split: option.splits)
qed

lemma make_log_folder:
  assumes "log_place fs names" "list_all plain (fs_cwd fs)" "''log'' \<notin> set names"
  shows "log_place (snd (make_dir fs (os_getcwd fs @ LOG_DIR))) names \<and>
    fs_content (snd (make_dir fs (os_getcwd fs @ LOG_DIR))) = fs_content fs"
proof (cases "fs_cwd fs = []")
  case True
  then show ?thesis using log_dir_exists [OF True] assms(1) by (simp add: make_dir_def log_place_def)
next
  case False
  let ?p = "fs_cwd fs @ log_dir" and ?fs = "snd (make_dir fs (os_getcwd fs @ LOG_DIR))"
  have ne: "?p \<noteq> log_dir @ [n]" if "n \<in> set names" for n
    using that assms(3) last_snoc [of "fs_cwd fs @ [''app'', ''run'', ''frs'']" "''log''"] last_snoc [of log_dir n] by auto
  from make_dir_below_cwd [OF False assms(2)] consider "?fs = fs"
    | "is_dir_at (fs_root fs) (butlast ?p)" "node_at (fs_root fs) ?p = None"
      "?fs = fs\<lparr> fs_root := set_at (fs_root fs) ?p (Some (Dir [])) \<rparr>" by metis
  then show ?thesis
  proof cases
    case 2
    then show ?thesis unfolding 2(3) using set_at_mkdir [of ?p "fs_root fs"] ne assms(1)
      by (auto simp: log_place_def fs_ok_def fs_content_def fun_eq_iff)
  qed (use assms(1) in simp)
qed

text \<open>Without the log folder the start fails, and leaves both streams closed: the folder made is another one.\<close>

lemma log_init_fails:
  assumes "fs_cwd (log_fs st) \<noteq> []" "list_all plain (fs_cwd (log_fs st))" "\<not> is_dir_at (fs_root (log_fs st)) log_dir"
    "pf_log_err st = None"
  shows "\<exists>st'. log_init now st = (- 1, st') \<and> pf_log st' = None \<and> pf_log_err st' = None"
proof -
  let ?st = "if \<not> is_file_exist (log_fs st) (os_getcwd (log_fs st) @ LOG_DIR)
    then st\<lparr> log_fs := snd (make_dir (log_fs st) (os_getcwd (log_fs st) @ LOG_DIR)) \<rparr> else st"
  let ?p = "fs_cwd (log_fs st) @ log_dir"
  have "length ?p \<noteq> length log_dir" using assms(1) by simp
  then have ne: "log_dir \<noteq> ?p" by (metis)
  have nd: "\<not> is_dir_at (fs_root (log_fs ?st)) log_dir"
    using make_dir_below_cwd [OF assms(1,2)] set_at_mkdir [of ?p "fs_root (log_fs st)" log_dir] assms(3) ne by auto
  have none: "os_path fs (LOG_DIR @ n) = None" if "\<not> is_dir_at (fs_root fs) log_dir" "n \<in> set log_file_name" for fs n
  proof -
    have "plain n" using that(2) loop_names_log(1) by (simp add: loop_names_def list_all_iff)
    then have pl: "list_all plain (log_dir @ [n])" by (simp add: plain_def)
    have p: "LOG_DIR @ n = path_text (log_dir @ [n])" by (simp add: LOG_DIR_def path_text_def)
    show ?thesis unfolding p using os_path_plain [OF _ pl, of fs] that(1) by simp
  qed
  have "\<not> is_file_exist (log_fs ?st) (LOG_DIR @ log_file_name ! 0)"
    using none [OF nd, of "log_file_name ! 0"] unfolding is_file_exist_def stat_def by (simp add: log_file_name_def)
  then have "move_log_file (log_fs ?st) = (0, log_fs ?st)"
    unfolding move_log_file_def move_files_def first_missing_def by (simp add: Let_def upt_rec MAX_LOOP_FILE_def)
  moreover have "fopen_append (log_fs ?st) (LOG_DIR @ log_file_name ! 0) = (None, log_fs ?st)"
    using none [OF nd, of "log_file_name ! 0"] by (simp add: fopen_append_def fs_put_def log_file_name_def)
  ultimately have "\<exists>st'. open_log_files ?st = (False, st') \<and> pf_log st' = None \<and> pf_log_err st' = None"
    using assms(4) unfolding open_log_files_def by (simp add: Let_def)
  then show ?thesis unfolding log_init_def Let_def by auto
qed


section \<open>Runs of the log\<close>

text \<open>A message with its time and level, given to the module and to the abstract log.\<close>

type_synonym log_message = "(tm \<times> nat) \<times> int \<times> string"

definition log_call :: "log_state \<Rightarrow> log_message \<Rightarrow> log_state" where
  "log_call st m = logMsg (fst m) (fst (snd m)) (snd (snd m)) st"

definition abs_call :: "abs_log \<Rightarrow> log_message \<Rightarrow> abs_log" where
  "abs_call a m = abs_log_string (GetCurrentDTstring (fst (fst m)) (snd (fst m))) (fst (snd m))
     (take (LOG_STR_BUF_LEN - 1) (c_str (snd (snd m)))) a"

definition abs_start :: "tm \<times> nat \<Rightarrow> string list \<Rightarrow> string list \<Rightarrow> abs_log" where
  "abs_start now q e = abs_log_string (GetCurrentDTstring (fst now) (snd now)) LOG_SYS (''LOG START'' @ [LF])
     \<lparr> log_texts = push_file q, err_texts = push_file e, abs_level = LOG_INFO, abs_last = [] \<rparr>"

lemma log_call_run:
  assumes "log_rep st a"
  shows "log_rep (log_call st m) (abs_call a m) \<and> log_kept (log_file_name @ err_file_name) (log_fs st) (log_fs (log_call st m))"
proof -
  obtain now level str where m: "m = (now, level, str)" by (cases m) auto
  from log_string_run [OF assms, of now level "take (LOG_STR_BUF_LEN - 1) (c_str str)"] show ?thesis
    by (auto simp: m log_call_def abs_call_def logMsg_def Let_def log_rep_def)
qed

lemma log_calls_run:
  "log_rep st a \<Longrightarrow> log_rep (foldl log_call st ms) (foldl abs_call a ms) \<and>
     log_kept (log_file_name @ err_file_name) (log_fs st) (log_fs (foldl log_call st ms))"
proof (induction ms arbitrary: st a)
  case (Cons m ms)
  from log_call_run [OF Cons.prems, of m] Cons.IH [of "log_call st m" "abs_call a m"] show ?case
    by (auto intro: log_kept_trans)
qed simp

lemma log_init_run:
  assumes "log_place fs (log_file_name @ err_file_name)" "list_all plain (fs_cwd fs)"
    "holds_queue fs log_file_name q" "holds_queue fs err_file_name e" "list_all text_bound (q @ e)"
  shows "\<exists>st. log_init now (log_state_init fs) = (0, st) \<and> log_rep st (abs_start now q e) \<and>
    (\<forall>k. k \<notin> (\<lambda>n. log_dir @ [n]) ` set (log_file_name @ err_file_name) \<longrightarrow> fs_content (log_fs st) k = fs_content fs k)"
proof -
  let ?names = "log_file_name @ err_file_name" and ?buf = "os_getcwd fs @ LOG_DIR"
  define st where "st = (if \<not> is_file_exist fs ?buf then (log_state_init fs)\<lparr> log_fs := snd (make_dir fs ?buf) \<rparr> else log_state_init fs)"
  have "''log'' \<notin> set ?names" by (simp add: log_file_name_def err_file_name_def)
  from make_log_folder [OF assms(1,2) this] assms(1) have p: "log_place (log_fs st) ?names" "fs_content (log_fs st) = fs_content fs"
    "log_level st = LOG_INFO" by (simp_all add: st_def log_state_init_def)
  then have h: "holds_queue (log_fs st) log_file_name q" "holds_queue (log_fs st) err_file_name e"
    using assms(3,4) by (simp_all add: holds_queue_def)
  obtain st1 where o: "open_log_files st = (True, st1)"
    "log_rep st1 \<lparr> log_texts = push_file q, err_texts = push_file e, abs_level = LOG_INFO, abs_last = [] \<rparr>"
    "log_kept ?names (log_fs st) (log_fs st1)"
    using open_log_files_queue [OF p(1) h] assms(5) p(3) by auto
  from log_string_run [OF o(2), of now LOG_SYS "''LOG START'' @ [LF]"] obtain st2 where
    s: "log_string now LOG_SYS (''LOG START'' @ [LF]) st1 = (0, st2)" "log_rep st2 (abs_start now q e)"
      "log_kept ?names (log_fs st1) (log_fs st2)" by (auto simp: abs_start_def)
  have "log_init now (log_state_init fs) = (0, st2)"
  proof -
    have e: "log_fs (log_state_init fs) = fs" by (simp add: log_state_init_def)
    show ?thesis unfolding log_init_def Let_def e st_def [symmetric] o(1) prod.case bool.case s(1) by simp
  qed
  moreover have "log_kept ?names (log_fs st) (log_fs st2)" by (rule log_kept_trans [OF o(3) s(3)])
  ultimately show ?thesis using s(2) p(2) by (auto simp: log_kept_def)
qed

text \<open>
  C14. The log refines an abstract log.  With the log folder in place, a working directory of ordinary
  name, and texts of earlier runs in the files, \<^verbatim>\<open>log_init\<close> followed by any messages leaves in the log
  and error files the texts of the abstract log after the same messages: every message at or above the
  level that differs from the one before is one line with time and level, cut to the buffer; errors
  are in both files; a log file of 40 MB or more is followed by a new pair of files, and when all six are
  used the oldest one goes.  No other file is touched.
\<close>

theorem log_refines_queue:
  assumes "log_place fs (log_file_name @ err_file_name)" "list_all plain (fs_cwd fs)"
    "holds_queue fs log_file_name q" "holds_queue fs err_file_name e" "list_all text_bound (q @ e)"
  shows "\<exists>st. log_init now (log_state_init fs) = (0, st) \<and>
    (\<forall>ms. let st' = foldl log_call st ms; a = foldl abs_call (abs_start now q e) ms in
       holds_queue (log_fs st') log_file_name (log_texts a) \<and> holds_queue (log_fs st') err_file_name (err_texts a) \<and>
       (\<forall>k. k \<notin> (\<lambda>n. log_dir @ [n]) ` set (log_file_name @ err_file_name) \<longrightarrow> fs_content (log_fs st') k = fs_content fs k))"
proof -
  obtain st where st: "log_init now (log_state_init fs) = (0, st)" "log_rep st (abs_start now q e)"
    "\<forall>k. k \<notin> (\<lambda>n. log_dir @ [n]) ` set (log_file_name @ err_file_name) \<longrightarrow> fs_content (log_fs st) k = fs_content fs k"
    using log_init_run [OF assms] by blast
  then show ?thesis using log_calls_run [OF st(2)]
    by (intro exI [of _ st] conjI allI) (simp_all add: Let_def log_rep_def log_kept_def)
qed

text \<open>
  C23. The log stays within its space: from a folder whose files are within the bound, whatever is
  logged, every log and error file stays below 40 MB and one message buffer, and the
  file size the module counts in an \<^verbatim>\<open>int\<close> is the length of the current log file, without overflow.
\<close>

theorem log_space_bounded:
  assumes "log_place fs (log_file_name @ err_file_name)" "list_all plain (fs_cwd fs)"
    "holds_queue fs log_file_name q" "holds_queue fs err_file_name e" "list_all text_bound (q @ e)"
  shows "\<exists>st. log_init now (log_state_init fs) = (0, st) \<and>
    (\<forall>ms n t. n \<in> set (log_file_name @ err_file_name) \<longrightarrow> fs_content (log_fs (foldl log_call st ms)) (log_dir @ [n]) = Some t \<longrightarrow>
       length t < 41951236) \<and>
    (\<forall>ms. \<exists>p t. pf_log (foldl log_call st ms) = Some p \<and> stat (log_fs (foldl log_call st ms)) p = Some (Reg t) \<and>
       currFileSize (foldl log_call st ms) = int (length t))"
proof -
  obtain st where st: "log_init now (log_state_init fs) = (0, st)" "log_rep st (abs_start now q e)"
    using log_init_run [OF assms] by blast
  have B: "length t < 41951236" if h: "holds_queue fs' names x" and b: "list_all text_bound x" and l: "loop_names names"
    and n: "n \<in> set names" and t: "fs_content fs' (log_dir @ [n]) = Some t" for fs' names x n t
  proof -
    obtain i where "i < MAX_LOOP_FILE" "n = names ! i" using n l by (auto simp: in_set_conv_nth loop_names_def)
    then have "t \<in> set x" using h t by (auto simp: holds_queue_def split: if_splits)
    then show ?thesis using b by (auto simp: list_all_iff text_bound_def LOG_FILE_SIZE_def LOG_STR_BUF_LEN_def)
  qed
  have C: "\<exists>p t. pf_log s = Some p \<and> stat (log_fs s) p = Some (Reg t) \<and> currFileSize s = int (length t)" if r: "log_rep s a" for s a
  proof -
    have q: "holds_queue (log_fs s) log_file_name (log_texts a)" "log_texts a \<noteq> []" "log_place (log_fs s) log_file_name"
      using r by (simp_all add: log_rep_def log_place_append)
    then have i: "length (log_texts a) - 1 < MAX_LOOP_FILE" by (cases "log_texts a") (simp_all add: holds_queue_def)
    have "stat (log_fs s) (current_name log_file_name (log_texts a)) = Some (Reg (last (log_texts a)))"
      using stat_file_key [OF log_key_of [OF loop_names_log(1) q(3) i]] q(1,2) i
      by (simp add: current_name_def holds_queue_def last_conv_nth)
    then show ?thesis using r by (simp add: log_rep_def)
  qed
  have R: "log_rep (foldl log_call st ms) (foldl abs_call (abs_start now q e) ms)" for ms using log_calls_run [OF st(2)] by blast
  show ?thesis
  proof (intro exI [of _ st] conjI allI impI)
    fix ms n t assume "n \<in> set (log_file_name @ err_file_name)" "fs_content (log_fs (foldl log_call st ms)) (log_dir @ [n]) = Some t"
    then show "length t < 41951236" using R [of ms] B loop_names_log by (auto simp: log_rep_def)
  qed (use st(1) C [OF R] in auto)
qed


text \<open>
  Without the log folder the program logs into no file: \<^verbatim>\<open>log_init\<close> looks for and makes a folder of
  that name below the working directory instead, fails to open the log file, returns -1 and leaves
  both streams closed.
\<close>

theorem log_init_without_folder:
  assumes "fs_cwd (log_fs st) \<noteq> []" "list_all plain (fs_cwd (log_fs st))" "\<not> is_dir_at (fs_root (log_fs st)) log_dir"
    "pf_log_err st = None"
  shows "\<exists>st'. log_init now st = (- 1, st') \<and> pf_log st' = None \<and> pf_log_err st' = None"
  using assms by (rule log_init_fails)

section \<open>A run\<close>

definition demo_log_fs :: "(string \<times> inode) list \<Rightarrow> fs" where
  "demo_log_fs es = \<lparr> fs_root = Dir [(''app'', Dir [(''run'', Dir [(''frs'', Dir ((''bin'', Dir []) # es))])])],
     fs_cwd = [''app'', ''run'', ''frs'', ''bin''], dir_st_size = 0 \<rparr>"

definition demo_now :: "tm \<times> nat" where
  "demo_now = (\<lparr> tm_year = 124, tm_mon = 0, tm_mday = 1, tm_hour = 2, tm_min = 3, tm_sec = 4 \<rparr>, 5)"

lemma demo_log_place:
  "log_place (demo_log_fs [(''log'', Dir [])]) (log_file_name @ err_file_name)" "list_all plain (fs_cwd (demo_log_fs es))"
  "holds_queue (demo_log_fs [(''log'', Dir [])]) names []"
  by (simp_all add: log_place_def demo_log_fs_def fs_ok_def plain_def is_dir_at_def holds_queue_def fs_content_def file_in_def)

abbreviation demo_line :: "string \<Rightarrow> string \<Rightarrow> string" where
  "demo_line tag str \<equiv> log_line (GetCurrentDTstring (fst demo_now) (snd demo_now)) tag str"

lemma demo_abs_log:
  "foldl abs_call (abs_start demo_now [] []) [(demo_now, LOG_ERROR, ''x''), (demo_now, LOG_ERROR, ''x'')] =
     \<lparr> log_texts = [demo_line [] (''LOG START'' @ [LF]) @ demo_line ''[ERROR] '' ''x''], err_texts = [demo_line ''[ERROR] '' ''x''],
       abs_level = LOG_INFO, abs_last = ''x'' \<rparr>"
proof -
  have l: "\<not> LOG_FILE_SIZE \<le> int (length (demo_line tag str))" "\<not> LOG_FILE_SIZE \<le> int (length (demo_line tag str @ demo_line tag' str'))"
    for tag str tag' str'
    using log_line_length [of "GetCurrentDTstring (fst demo_now) (snd demo_now)" tag str]
      log_line_length [of "GetCurrentDTstring (fst demo_now) (snd demo_now)" tag' str']
    by (simp_all add: LOG_FILE_SIZE_def LOG_STR_BUF_LEN_def)
  have p: "push_file [] = [[]]" "\<not> LOG_FILE_SIZE \<le> 0" by (simp_all add: push_file_def drop_oldest_def LOG_FILE_SIZE_def MAX_LOOP_FILE_def)
  have t: "take (LOG_STR_BUF_LEN - 1) ''x'' = ''x''" by (simp add: LOG_STR_BUF_LEN_def)
  show ?thesis using l p(2) t
    by (simp add: abs_start_def abs_call_def abs_log_string_def p(1) add_text_def log_tag_def Let_def del: append_assoc)
qed

theorem log_refines_queue_witness:
  "\<exists>st. log_init demo_now (log_state_init (demo_log_fs [(''log'', Dir [])])) = (0, st) \<and>
    fs_content (log_fs (foldl log_call st [(demo_now, LOG_ERROR, ''x''), (demo_now, LOG_ERROR, ''x'')]))
      (log_dir @ [''frs.1.err'']) = Some (demo_line ''[ERROR] '' ''x'')"
proof -
  from log_refines_queue [OF demo_log_place(1,2,3,3), of demo_now] obtain st where
    st: "log_init demo_now (log_state_init (demo_log_fs [(''log'', Dir [])])) = (0, st)"
    "\<And>ms. holds_queue (log_fs (foldl log_call st ms)) err_file_name (err_texts (foldl abs_call (abs_start demo_now [] []) ms))"
    unfolding Let_def by auto
  from st(2) [of "[(demo_now, LOG_ERROR, ''x''), (demo_now, LOG_ERROR, ''x'')]", unfolded demo_abs_log]
  have "fs_content (log_fs (foldl log_call st [(demo_now, LOG_ERROR, ''x''), (demo_now, LOG_ERROR, ''x'')]))
      (log_key err_file_name 0) = Some (demo_line ''[ERROR] '' ''x'')"
    unfolding holds_queue_def by (simp add: MAX_LOOP_FILE_def)
  then show ?thesis using st(1) by (auto simp: err_file_name_def)
qed

theorem log_space_bounded_witness:
  "\<exists>st. log_init demo_now (log_state_init (demo_log_fs [(''log'', Dir [])])) = (0, st) \<and>
    (\<exists>p t. pf_log (foldl log_call st [(demo_now, LOG_ERROR, ''x'')]) = Some p \<and>
       stat (log_fs (foldl log_call st [(demo_now, LOG_ERROR, ''x'')])) p = Some (Reg t) \<and>
       currFileSize (foldl log_call st [(demo_now, LOG_ERROR, ''x'')]) = int (length t))"
proof -
  from log_space_bounded [OF demo_log_place(1,2,3,3), of demo_now] obtain st where
    "log_init demo_now (log_state_init (demo_log_fs [(''log'', Dir [])])) = (0, st)"
    "\<And>ms. \<exists>p t. pf_log (foldl log_call st ms) = Some p \<and> stat (log_fs (foldl log_call st ms)) p = Some (Reg t) \<and>
       currFileSize (foldl log_call st ms) = int (length t)"
    by auto
  then show ?thesis by blast
qed

theorem log_init_without_folder_witness:
  "\<exists>st'. log_init demo_now (log_state_init (demo_log_fs [])) = (- 1, st') \<and> pf_log st' = None"
  using log_init_without_folder [of "log_state_init (demo_log_fs [])" demo_now] demo_log_place(2) [of "[]"]
  by (auto simp: log_state_init_def demo_log_fs_def is_dir_at_def)

end
