(* ===== verification/Http_Pool.thy ===== *)
theory Http_Pool
  imports Http_Server "HOL-Library.Multiset"
begin

text \<open>
  The threads of the server (\<^verbatim>\<open>src/src/httplib.h\<close>): the thread pool with its queue, mutex and condition
  variable, the accept loop \<^verbatim>\<open>listen_internal\<close> that feeds it, and \<^verbatim>\<open>stop\<close> called from elsewhere, as a
  step relation.  A step is what one thread does under the mutex, one notification, one return of
  \<^verbatim>\<open>accept\<close>, or the end of a job.  A waiting worker may wake up without reason.  What \<^verbatim>\<open>accept\<close> returns
  and which waiting thread is notified is not determined.  Jobs are the accepted sockets;
  what is done with one is \<^verbatim>\<open>process_and_close_socket\<close> of the theory below.
\<close>

section \<open>The thread pool\<close>

text \<open>A worker about to test the condition, one that waits for a notification, one that runs a job,
  and one that has left its loop.\<close>

datatype 'j worker = Ready | Asleep | Running 'j | Exited

record 'j ThreadPool =
  pool_threads :: "'j worker list"
  pool_jobs :: "'j list"
  pool_shutdown :: bool

definition ThreadPool_new :: "nat \<Rightarrow> 'j ThreadPool" where
  "ThreadPool_new n = \<lparr> pool_threads = replicate n Ready, pool_jobs = [], pool_shutdown = False \<rparr>"

definition enqueue :: "'j \<Rightarrow> 'j ThreadPool \<Rightarrow> 'j ThreadPool" where
  "enqueue fn p = p\<lparr> pool_jobs := pool_jobs p @ [fn] \<rparr>"

text \<open>A notification of worker \<open>i\<close>, and of all workers.\<close>

definition wake :: "'j worker \<Rightarrow> 'j worker" where
  "wake w = (case w of Asleep \<Rightarrow> Ready | _ \<Rightarrow> w)"

definition notify_worker :: "nat \<Rightarrow> 'j ThreadPool \<Rightarrow> 'j ThreadPool" where
  "notify_worker i p = p\<lparr> pool_threads := (pool_threads p)[i := wake (pool_threads p ! i)] \<rparr>"

definition notify_all :: "'j ThreadPool \<Rightarrow> 'j ThreadPool" where
  "notify_all p = p\<lparr> pool_threads := map wake (pool_threads p) \<rparr>"

definition set_shutdown :: "'j ThreadPool \<Rightarrow> 'j ThreadPool" where
  "set_shutdown p = p\<lparr> pool_shutdown := True \<rparr>"

text \<open>The part of the loop of worker \<open>i\<close> under the mutex, with the job it takes.\<close>

definition worker_loop :: "nat \<Rightarrow> 'j ThreadPool \<Rightarrow> 'j list \<times> 'j ThreadPool" where
  "worker_loop i p =
     (case pool_jobs p of
        [] \<Rightarrow> ([], p\<lparr> pool_threads := (pool_threads p)[i := if pool_shutdown p then Exited else Asleep] \<rparr>)
      | fn # fns \<Rightarrow> ([fn], p\<lparr> pool_threads := (pool_threads p)[i := Running fn], pool_jobs := fns \<rparr>))"

definition job_done :: "nat \<Rightarrow> 'j ThreadPool \<Rightarrow> 'j ThreadPool" where
  "job_done i p = p\<lparr> pool_threads := (pool_threads p)[i := Ready] \<rparr>"

section \<open>The accept loop\<close>

text \<open>Where the listening thread is: in the loop, between the queue and the notification of
  \<^verbatim>\<open>enqueue\<close>, before and inside \<^verbatim>\<open>shutdown\<close>, or returned.\<close>

datatype listen_phase = Accepting | Notifying | Stopping | NotifyAll | Joining | Returned

text \<open>The server while it listens.  The last three fields only record what happened: the sockets
  accepted, those a worker has taken, those that are done.\<close>

record 'j listening =
  task_queue :: "'j ThreadPool"
  svr_sock_valid :: bool
  is_running :: bool
  listen_ret :: bool
  phase :: listen_phase
  accepted :: "'j list"
  started :: "'j list"
  finished :: "'j list"

definition listen_start :: "nat \<Rightarrow> 'j listening" where
  "listen_start n = \<lparr> task_queue = ThreadPool_new n, svr_sock_valid = True, is_running = True, listen_ret = True,
     phase = Accepting, accepted = [], started = [], finished = [] \<rparr>"

datatype 'j accept_result = Accepted 'j | AcceptRetry | AcceptFailed

definition accept_connection :: "'j accept_result \<Rightarrow> 'j listening \<Rightarrow> 'j listening" where
  "accept_connection r s =
     (case r of
        Accepted fd \<Rightarrow> s\<lparr> task_queue := enqueue fd (task_queue s), accepted := accepted s @ [fd], phase := Notifying \<rparr>
      | AcceptRetry \<Rightarrow> s
      | AcceptFailed \<Rightarrow> s\<lparr> listen_ret := (if svr_sock_valid s then False else listen_ret s), phase := Stopping \<rparr>)"

definition stop :: "'j listening \<Rightarrow> 'j listening" where
  "stop s = (if is_running s then s\<lparr> svr_sock_valid := False \<rparr> else s)"

text \<open>The steps of the threads.\<close>

inductive listen_step :: "'j listening \<Rightarrow> 'j listening \<Rightarrow> bool" where
  accept_step: "phase s = Accepting \<Longrightarrow> svr_sock_valid s \<or> r = AcceptFailed \<Longrightarrow> r \<noteq> AcceptRetry \<Longrightarrow>
    listen_step s (accept_connection r s)"
| loop_exit: "phase s = Accepting \<Longrightarrow> \<not> svr_sock_valid s \<Longrightarrow> listen_step s (s\<lparr> phase := Stopping \<rparr>)"
| notify_step: "phase s = Notifying \<Longrightarrow> i < length (pool_threads (task_queue s)) \<Longrightarrow> pool_threads (task_queue s) ! i = Asleep \<Longrightarrow>
    listen_step s (s\<lparr> task_queue := notify_worker i (task_queue s), phase := Accepting \<rparr>)"
| notify_nobody: "phase s = Notifying \<Longrightarrow> Asleep \<notin> set (pool_threads (task_queue s)) \<Longrightarrow> listen_step s (s\<lparr> phase := Accepting \<rparr>)"
| shutdown_step: "phase s = Stopping \<Longrightarrow> listen_step s (s\<lparr> task_queue := set_shutdown (task_queue s), phase := NotifyAll \<rparr>)"
| notify_all_step: "phase s = NotifyAll \<Longrightarrow> listen_step s (s\<lparr> task_queue := notify_all (task_queue s), phase := Joining \<rparr>)"
| join_step: "phase s = Joining \<Longrightarrow> set (pool_threads (task_queue s)) \<subseteq> {Exited} \<Longrightarrow>
    listen_step s (s\<lparr> is_running := False, phase := Returned \<rparr>)"
| stop_step: "is_running s \<Longrightarrow> svr_sock_valid s \<Longrightarrow> listen_step s (stop s)"
| worker_step: "i < length (pool_threads (task_queue s)) \<Longrightarrow> pool_threads (task_queue s) ! i = Ready \<Longrightarrow>
    worker_loop i (task_queue s) = (fn, p) \<Longrightarrow> listen_step s (s\<lparr> task_queue := p, started := started s @ fn \<rparr>)"
| done_step: "i < length (pool_threads (task_queue s)) \<Longrightarrow> pool_threads (task_queue s) ! i = Running fn \<Longrightarrow>
    listen_step s (s\<lparr> task_queue := job_done i (task_queue s), finished := finished s @ [fn] \<rparr>)"
| wakeup_step: "i < length (pool_threads (task_queue s)) \<Longrightarrow> pool_threads (task_queue s) ! i = Asleep \<Longrightarrow>
    listen_step s (s\<lparr> task_queue := notify_worker i (task_queue s) \<rparr>)"

abbreviation listens :: "nat \<Rightarrow> 'j listening \<Rightarrow> bool" where
  "listens n s \<equiv> listen_step\<^sup>*\<^sup>* (listen_start n) s"

section \<open>Invariants\<close>

text \<open>Sums over the workers, for the multiset of running jobs, the number of ready workers, and a measure.\<close>

lemma sum_update:
  fixes f :: "'a \<Rightarrow> 'b :: comm_monoid_add"
  shows "i < length ws \<Longrightarrow> sum_list (map f (ws[i := w])) + f (ws ! i) = sum_list (map f ws) + f w"
proof (induction ws arbitrary: i)
  case (Cons a ws)
  then show ?case by (cases i) (auto simp: add_ac)
qed simp

definition running_job :: "'j worker \<Rightarrow> 'j multiset" where
  "running_job w = (case w of Running j \<Rightarrow> {#j#} | _ \<Rightarrow> {#})"

definition ready_count :: "'j worker \<Rightarrow> nat" where
  "ready_count w = (case w of Ready \<Rightarrow> 1 | _ \<Rightarrow> 0)"

lemma worker_sums [simp]:
  "running_job Ready = {#}" "running_job Asleep = {#}" "running_job Exited = {#}" "running_job (Running j) = {#j#}"
  "ready_count Ready = 1" "ready_count Asleep = 0" "ready_count Exited = 0" "ready_count (Running j) = 0"
  "wake Ready = Ready" "wake Asleep = Ready" "wake Exited = Exited" "wake (Running j) = Running j"
  by (simp_all add: running_job_def ready_count_def wake_def)

abbreviation running :: "'j ThreadPool \<Rightarrow> 'j multiset" where
  "running p \<equiv> sum_list (map running_job (pool_threads p))"

abbreviation readies :: "'j ThreadPool \<Rightarrow> nat" where
  "readies p \<equiv> sum_list (map ready_count (pool_threads p))"

text \<open>Sockets are taken in the order of acceptance, and each is queued, being served or done.\<close>

definition jobs_inv :: "'j listening \<Rightarrow> bool" where
  "jobs_inv s \<longleftrightarrow> accepted s = started s @ pool_jobs (task_queue s) \<and> mset (started s) = mset (finished s) + running (task_queue s)"

text \<open>While a worker sleeps there is, for each queued job, a worker about to look at the queue or a notification on
  its way; nobody sleeps once all are notified of the shutdown; workers leave only then and when the queue is empty.\<close>

definition wait_inv :: "'j listening \<Rightarrow> bool" where
  "wait_inv s \<longleftrightarrow> (let p = task_queue s in
     (Asleep \<in> set (pool_threads p) \<longrightarrow> length (pool_jobs p) \<le> readies p + (if phase s = Notifying then 1 else 0)) \<and>
     (Asleep \<in> set (pool_threads p) \<longrightarrow> phase s \<notin> {Joining, Returned}) \<and>
     (Exited \<in> set (pool_threads p) \<longrightarrow> pool_shutdown p \<and> pool_jobs p = []) \<and>
     (pool_shutdown p \<longleftrightarrow> phase s \<in> {NotifyAll, Joining, Returned}) \<and>
     (phase s = Returned \<longrightarrow> set (pool_threads p) \<subseteq> {Exited}) \<and>
     (is_running s \<longleftrightarrow> phase s \<noteq> Returned))"


lemma running_wake [simp]: "running_job (wake w) = running_job w"
  by (cases w) simp_all

lemma running_update:
  "i < length ws \<Longrightarrow> sum_list (map running_job (ws[i := w])) + running_job (ws ! i) = sum_list (map running_job ws) + running_job w"
  "i < length ws \<Longrightarrow> sum_list (map ready_count (ws[i := w])) + ready_count (ws ! i) = sum_list (map ready_count ws) + ready_count w"
  by (rule sum_update; assumption)+

lemmas pool_defs = ThreadPool_new_def enqueue_def notify_worker_def notify_all_def set_shutdown_def worker_loop_def job_done_def
  accept_connection_def stop_def

lemma set_update: "i < length ws \<Longrightarrow> x \<noteq> ws ! i \<Longrightarrow> x \<in> set (ws[i := w]) \<longleftrightarrow> x = w \<or> x \<in> set ws"
  by (auto simp: in_set_conv_nth nth_list_update dest: set_update_subset_insert [THEN subsetD])

lemma jobs_inv_step: "listen_step s s' \<Longrightarrow> jobs_inv s \<Longrightarrow> jobs_inv s'"
proof (induction rule: listen_step.induct)
  case (accept_step s r)
  then show ?case by (cases r) (auto simp: jobs_inv_def pool_defs)
next
  case (notify_step s i)
  then show ?case using running_update(1) [of i "pool_threads (task_queue s)" Ready]
    by (simp add: jobs_inv_def pool_defs)
next
  case (notify_all_step s)
  then show ?case by (simp add: jobs_inv_def pool_defs comp_def)
next
  case (worker_step i s fn p)
  then show ?case
    using running_update(1) [of i "pool_threads (task_queue s)"]
    by (cases "pool_jobs (task_queue s)") (auto simp: jobs_inv_def pool_defs)
next
  case (done_step i s fn)
  then show ?case using running_update(1) [of i "pool_threads (task_queue s)" Ready]
    by (simp add: jobs_inv_def pool_defs)
next
  case (wakeup_step i s)
  then show ?case using running_update(1) [of i "pool_threads (task_queue s)" Ready]
    by (simp add: jobs_inv_def pool_defs)
qed (auto simp: jobs_inv_def pool_defs)

lemma no_sleeper: "Asleep \<notin> set (map wake ws)"
  by (auto simp: wake_def split: worker.splits)

lemma exited_wake: "Exited \<in> set (map wake ws) \<longleftrightarrow> Exited \<in> set ws"
  by (force simp: wake_def split: worker.splits)

lemma sleeper_update:
  assumes "i < length ws" "w \<noteq> Asleep" "w \<noteq> Exited"
  shows "Asleep \<in> set (ws[i := w]) \<Longrightarrow> Asleep \<in> set ws" "Exited \<in> set (ws[i := w]) \<Longrightarrow> Exited \<in> set ws"
  using assms set_update_subset_insert [of ws i w] by auto

lemma not_returned:
  assumes "wait_inv s" "i < length (pool_threads (task_queue s))" "pool_threads (task_queue s) ! i \<noteq> Exited"
  shows "phase s \<noteq> Returned"
proof -
  have "pool_threads (task_queue s) ! i \<in> set (pool_threads (task_queue s))" using assms(2) by (rule nth_mem)
  then show ?thesis using assms(1,3) by (auto simp: wait_inv_def Let_def)
qed

lemma wait_inv_step: "listen_step s s' \<Longrightarrow> wait_inv s \<Longrightarrow> wait_inv s'"
proof (induction rule: listen_step.induct)
  case (accept_step s r)
  then show ?case by (cases r) (auto simp: wait_inv_def pool_defs Let_def)
next
  case (notify_step s i)
  then show ?case
    using running_update(2) [of i "pool_threads (task_queue s)" Ready] sleeper_update [of i "pool_threads (task_queue s)" Ready]
    by (auto simp: wait_inv_def pool_defs Let_def)
next
  case (notify_all_step s)
  then show ?case using no_sleeper exited_wake by (auto simp: wait_inv_def pool_defs Let_def)
next
  case (worker_step i s fn p)
  let ?ws = "pool_threads (task_queue s)"
  have ph: "phase s \<noteq> Returned" using not_returned [OF worker_step(4,1)] worker_step(2) by simp
  show ?case
  proof (cases "pool_jobs (task_queue s)")
    case Nil
    have "x \<in> set (?ws[i := w]) \<Longrightarrow> x = w \<or> x \<in> set ?ws" for x w using set_update_subset_insert [of ?ws i w] by auto
    from this [of Asleep Exited] this [of Exited Asleep] show ?thesis using worker_step(3,4) Nil ph
      by (cases "pool_shutdown (task_queue s)") (auto simp: wait_inv_def worker_loop_def Let_def)
  next
    case (Cons j js)
    show ?thesis using worker_step Cons ph running_update(2) [of i ?ws "Running j"] sleeper_update [of i ?ws "Running j"]
      by (auto simp: wait_inv_def worker_loop_def Let_def)
  qed
next
  case (done_step i s fn)
  have "phase s \<noteq> Returned" using not_returned [OF done_step(3,1)] done_step(2) by simp
  with done_step show ?case
    using running_update(2) [of i "pool_threads (task_queue s)" Ready] sleeper_update [of i "pool_threads (task_queue s)" Ready]
    by (auto simp: wait_inv_def pool_defs Let_def)
next
  case (wakeup_step i s)
  have "phase s \<noteq> Returned" using not_returned [OF wakeup_step(3,1)] wakeup_step(2) by simp
  with wakeup_step show ?case
    using running_update(2) [of i "pool_threads (task_queue s)" Ready] sleeper_update [of i "pool_threads (task_queue s)" Ready]
    by (auto simp: wait_inv_def pool_defs Let_def)
qed (auto simp: wait_inv_def pool_defs Let_def)


lemma listens_inv: "listens n s \<Longrightarrow> jobs_inv s \<and> wait_inv s \<and> length (pool_threads (task_queue s)) = n"
proof (induction rule: rtranclp_induct)
  case base
  have "sum_list (map running_job (replicate n Ready)) = {#}" by (induction n) simp_all
  then show ?case by (auto simp: jobs_inv_def wait_inv_def listen_start_def ThreadPool_new_def Let_def)
next
  case (step s s')
  have "length (pool_threads (task_queue s')) = length (pool_threads (task_queue s))" using step(2)
  proof (induction rule: listen_step.induct)
    case (accept_step s r)
    then show ?case by (cases r) (simp_all add: pool_defs)
  next
    case (worker_step i s fn p)
    then show ?case by (cases "pool_jobs (task_queue s)") (auto simp: pool_defs)
  qed (simp_all add: pool_defs)
  then show ?case using step jobs_inv_step wait_inv_step by metis
qed

section \<open>Shutdown\<close>

text \<open>What is left to do once the shutdown has begun.\<close>

definition worker_work :: "'j worker \<Rightarrow> nat" where
  "worker_work w = (case w of Ready \<Rightarrow> 1 | Asleep \<Rightarrow> 2 | Running _ \<Rightarrow> 2 | Exited \<Rightarrow> 0)"

definition phase_work :: "listen_phase \<Rightarrow> nat" where
  "phase_work ph = (case ph of NotifyAll \<Rightarrow> 2 | Joining \<Rightarrow> 1 | _ \<Rightarrow> 0)"

definition work :: "'j listening \<Rightarrow> nat" where
  "work s = 3 * length (pool_jobs (task_queue s)) + sum_list (map worker_work (pool_threads (task_queue s))) +
     phase_work (phase s) + of_bool (svr_sock_valid s)"

lemma worker_work_simps [simp]:
  "worker_work Ready = 1" "worker_work Asleep = 2" "worker_work (Running j) = 2" "worker_work Exited = 0"
  by (simp_all add: worker_work_def)

lemma work_wake: "sum_list (map worker_work (map wake ws)) \<le> sum_list (map worker_work ws)"
proof (induction ws)
  case (Cons w ws)
  then show ?case by (cases w) simp_all
qed simp

lemma work_update:
  "i < length ws \<Longrightarrow> sum_list (map worker_work (ws[i := w])) + worker_work (ws ! i) = sum_list (map worker_work ws) + worker_work w"
  by (rule sum_update)

lemma shutdown_work:
  "listen_step s s' \<Longrightarrow> wait_inv s \<Longrightarrow> pool_shutdown (task_queue s) \<Longrightarrow> pool_shutdown (task_queue s') \<and> work s' < work s"
proof (induction rule: listen_step.induct)
  case (notify_all_step s)
  then show ?case using work_wake [of "pool_threads (task_queue s)"]
    by (simp add: work_def phase_work_def notify_all_def)
next
  case (worker_step i s fn p)
  then show ?case
    using work_update [of i "pool_threads (task_queue s)" Exited] work_update [of i "pool_threads (task_queue s)" "Running (hd fn)"]
    by (cases "pool_jobs (task_queue s)") (auto simp: work_def worker_loop_def)
next
  case (done_step i s fn)
  then show ?case using work_update [of i "pool_threads (task_queue s)" Ready] by (simp add: work_def job_done_def)
next
  case (wakeup_step i s)
  then show ?case using work_update [of i "pool_threads (task_queue s)" Ready] by (simp add: work_def notify_worker_def)
qed (auto simp: wait_inv_def Let_def work_def phase_work_def stop_def)

text \<open>A thread that has begun the shutdown has returned or some thread can go on.\<close>

lemma shutdown_progress:
  assumes "wait_inv s" "pool_shutdown (task_queue s)" "phase s \<noteq> Returned"
  shows "\<exists>s'. listen_step s s'"
proof (cases "set (pool_threads (task_queue s)) \<subseteq> {Exited}")
  case True
  from assms have "phase s = NotifyAll \<or> phase s = Joining" by (auto simp: wait_inv_def Let_def)
  then show ?thesis using notify_all_step join_step True by blast
next
  case False
  then obtain w where "w \<in> set (pool_threads (task_queue s))" "w \<noteq> Exited" by blast
  then obtain i where i: "i < length (pool_threads (task_queue s))" "pool_threads (task_queue s) ! i \<noteq> Exited"
    by (metis in_set_conv_nth)
  obtain fn p where l: "worker_loop i (task_queue s) = (fn, p)" by fastforce
  show ?thesis
  proof (cases "pool_threads (task_queue s) ! i")
    case Ready
    show ?thesis using worker_step [OF i(1) Ready l] by blast
  next
    case Asleep
    show ?thesis using wakeup_step [OF i(1) Asleep] by blast
  next
    case (Running j)
    show ?thesis using done_step [OF i(1) Running] by blast
  qed (use i(2) in simp)
qed

lemma shutdown_returns:
  assumes "listens n s" "pool_shutdown (task_queue s)"
  shows "\<exists>s'. listen_step\<^sup>*\<^sup>* s s' \<and> phase s' = Returned"
  using assms
proof (induction "work s" arbitrary: s rule: less_induct)
  case less
  have w: "wait_inv s" using listens_inv [OF less.prems(1)] by blast
  show ?case
  proof (cases "phase s = Returned")
    case False
    then obtain s' where s': "listen_step s s'" using shutdown_progress [OF w less.prems(2)] by blast
    have "listens n s'" using less.prems(1) s' by (rule rtranclp.rtrancl_into_rtrancl)
    with less.hyps shutdown_work [OF s' w less.prems(2)] obtain s'' where "listen_step\<^sup>*\<^sup>* s' s''" "phase s'' = Returned" by blast
    then show ?thesis using s' by (meson converse_rtranclp_into_rtranclp)
  qed blast
qed

lemma shutdown_bound:
  assumes "listens n s" "pool_shutdown (task_queue s)"
  shows "(listen_step ^^ k) s s' \<Longrightarrow> k + work s' \<le> work s \<and> pool_shutdown (task_queue s') \<and> listens n s'"
proof (induction k arbitrary: s')
  case (Suc k)
  then obtain s1 where s1: "(listen_step ^^ k) s s1" "listen_step s1 s'" by auto
  note IH = Suc.IH [OF s1(1)]
  then have "wait_inv s1" using listens_inv by blast
  from shutdown_work [OF s1(2) this] IH s1(2) show ?case by (auto intro: rtranclp.rtrancl_into_rtrancl)
qed (use assms in simp)


lemma running_exited: "set ws \<subseteq> {Exited} \<Longrightarrow> sum_list (map running_job ws) = {#}"
  by (induction ws) simp_all

lemma returned_done:
  assumes "listens n s" "phase s = Returned" "0 < n"
  shows "pool_jobs (task_queue s) = [] \<and> set (pool_threads (task_queue s)) = {Exited}"
proof -
  have i: "wait_inv s" "length (pool_threads (task_queue s)) = n" using listens_inv [OF assms(1)] by auto
  then have "set (pool_threads (task_queue s)) \<subseteq> {Exited}" "pool_threads (task_queue s) \<noteq> []"
    using assms(2,3) by (auto simp: wait_inv_def Let_def)
  then have "set (pool_threads (task_queue s)) = {Exited}" by (cases "pool_threads (task_queue s)") auto
  then show ?thesis using i(1) by (simp add: wait_inv_def Let_def)
qed

text \<open>
  C13. Every accepted connection is served exactly once: when \<^verbatim>\<open>listen\<close> of a server with at least one
  worker returns, whatever the order of the threads' steps, the queue is empty, the jobs done are exactly
  the accepted sockets, they were begun in the order of acceptance, and the server no longer runs.
\<close>

theorem listen_serves_accepted:
  assumes "listens n s" "phase s = Returned" "0 < n"
  shows "pool_jobs (task_queue s) = [] \<and> started s = accepted s \<and> mset (finished s) = mset (accepted s) \<and> \<not> is_running s"
proof -
  note d = returned_done [OF assms]
  then have "running (task_queue s) = {#}" by (intro running_exited) simp
  then show ?thesis using d listens_inv [OF assms(1)] assms(2) by (auto simp: jobs_inv_def wait_inv_def Let_def)
qed

text \<open>
  C19. Invariants of the pool: the sockets taken by workers followed by the queue are the accepted sockets
  in order; each socket taken is done or in the hands of exactly one worker; no wake-up is lost, that
  is while a worker sleeps there are at most as many queued jobs as workers about to look at the queue and a
  notification on its way; and workers leave only after the shutdown, with an empty queue.
\<close>

theorem pool_invariant:
  assumes "listens n s"
  shows "accepted s = started s @ pool_jobs (task_queue s) \<and>
    mset (started s) = mset (finished s) + running (task_queue s) \<and>
    (Asleep \<in> set (pool_threads (task_queue s)) \<longrightarrow>
       length (pool_jobs (task_queue s)) \<le> readies (task_queue s) + (if phase s = Notifying then 1 else 0)) \<and>
    (Exited \<in> set (pool_threads (task_queue s)) \<longrightarrow> pool_shutdown (task_queue s) \<and> pool_jobs (task_queue s) = [])"
  using listens_inv [OF assms] by (auto simp: jobs_inv_def wait_inv_def Let_def)

text \<open>
  C24. The shutdown ends: once it has begun every run of the threads has at most as many steps as \<open>work\<close>
  counts, and a run to the return of \<^verbatim>\<open>listen\<close> exists, so with jobs that end no schedule blocks it.
\<close>

theorem shutdown_terminates:
  assumes "listens n s" "pool_shutdown (task_queue s)"
  shows "(\<forall>k s'. (listen_step ^^ k) s s' \<longrightarrow> k \<le> work s \<and> (phase s' = Returned \<or> (\<exists>s''. listen_step s' s''))) \<and>
    (\<exists>s'. listen_step\<^sup>*\<^sup>* s s' \<and> phase s' = Returned)"
proof (intro conjI allI impI)
  fix k s' assume "(listen_step ^^ k) s s'"
  from shutdown_bound [OF assms this] show "k \<le> work s" "phase s' = Returned \<or> (\<exists>s''. listen_step s' s'')"
    using shutdown_progress listens_inv by (auto intro: order_trans [OF le_add1])
qed (rule shutdown_returns [OF assms])

section \<open>A run with one worker and one connection\<close>

definition demo_listening :: "nat worker list \<Rightarrow> nat list \<Rightarrow> bool \<Rightarrow> bool \<Rightarrow> bool \<Rightarrow> listen_phase \<Rightarrow> nat list \<Rightarrow> nat list \<Rightarrow> nat listening" where
  "demo_listening ws js shut valid runs ph st fin =
     \<lparr> task_queue = \<lparr> pool_threads = ws, pool_jobs = js, pool_shutdown = shut \<rparr>, svr_sock_valid = valid, is_running = runs,
       listen_ret = True, phase = ph, accepted = [7], started = st, finished = fin \<rparr>"

lemma demo_accepts: "listens 1 (demo_listening [Asleep] [7] False True True Notifying [] [])"
proof -
  have a: "listen_step (listen_start 1) ((listen_start 1)\<lparr> task_queue := \<lparr> pool_threads = [Asleep], pool_jobs = [], pool_shutdown = False \<rparr> \<rparr>)"
    (is "listen_step _ ?s1")
    using worker_step [of 0 "listen_start 1"] by (simp add: listen_start_def pool_defs)
  have "listen_step ?s1 (demo_listening [Asleep] [7] False True True Notifying [] [])"
    using accept_step [of ?s1 "Accepted 7"] by (simp add: listen_start_def demo_listening_def pool_defs)
  with a show ?thesis by (rule rtranclp.rtrancl_into_rtrancl [OF r_into_rtranclp])
qed

lemma demo_stops: "listens 1 (demo_listening [Ready] [7] True False True Joining [] [])"
proof -
  let ?d = "\<lambda>ws shut valid ph. demo_listening ws [7] shut valid True ph [] []"
  have "listen_step (?d [Asleep] False True Notifying) (?d [Ready] False True Accepting)"
    using notify_step [of "?d [Asleep] False True Notifying" 0] by (simp add: demo_listening_def pool_defs)
  moreover have "listen_step (?d [Ready] False True Accepting) (?d [Ready] False False Accepting)"
    using stop_step [of "?d [Ready] False True Accepting"] by (simp add: demo_listening_def pool_defs)
  moreover have "listen_step (?d [Ready] False False Accepting) (?d [Ready] False False Stopping)"
    using loop_exit [of "?d [Ready] False False Accepting"] by (simp add: demo_listening_def)
  moreover have "listen_step (?d [Ready] False False Stopping) (?d [Ready] True False NotifyAll)"
    using shutdown_step [of "?d [Ready] False False Stopping"] by (simp add: demo_listening_def pool_defs)
  moreover have "listen_step (?d [Ready] True False NotifyAll) (?d [Ready] True False Joining)"
    using notify_all_step [of "?d [Ready] True False NotifyAll"] by (simp add: demo_listening_def pool_defs)
  ultimately show ?thesis using demo_accepts by (meson rtranclp.rtrancl_into_rtrancl)
qed

lemma demo_returns: "listens 1 (demo_listening [Exited] [] True False False Returned [7] [7])"
proof -
  let ?d = "\<lambda>ws js st fin. demo_listening ws js True False True Joining st fin"
  have "listen_step (?d [Ready] [7] [] []) (?d [Running 7] [] [7] [])"
    using worker_step [of 0 "?d [Ready] [7] [] []"] by (simp add: demo_listening_def pool_defs)
  moreover have "listen_step (?d [Running 7] [] [7] []) (?d [Ready] [] [7] [7])"
    using done_step [of 0 "?d [Running 7] [] [7] []"] by (simp add: demo_listening_def pool_defs)
  moreover have "listen_step (?d [Ready] [] [7] [7]) (?d [Exited] [] [7] [7])"
    using worker_step [of 0 "?d [Ready] [] [7] [7]"] by (simp add: demo_listening_def pool_defs)
  moreover have "listen_step (?d [Exited] [] [7] [7]) (demo_listening [Exited] [] True False False Returned [7] [7])"
    using join_step [of "?d [Exited] [] [7] [7]"] by (simp add: demo_listening_def)
  ultimately show ?thesis using demo_stops by (meson rtranclp.rtrancl_into_rtrancl)
qed

theorem listen_serves_accepted_witness:
  "mset (finished (demo_listening [Exited] [] True False False Returned [7] [7])) = {#7#}"
  using listen_serves_accepted [OF demo_returns] by (simp add: demo_listening_def)

theorem pool_invariant_witness:
  "accepted (demo_listening [Asleep] [7] False True True Notifying [] []) = [7] \<and>
   length (pool_jobs (task_queue (demo_listening [Asleep] [7] False True True Notifying [] []))) \<le> 1"
  using pool_invariant [OF demo_accepts] by (simp add: demo_listening_def)

theorem shutdown_terminates_witness:
  "\<exists>s'. listen_step\<^sup>*\<^sup>* (demo_listening [Ready] [7] True False True Joining [] []) s' \<and> phase s' = Returned"
  using shutdown_terminates [OF demo_stops] by (simp add: demo_listening_def)

end
