(* ===== verification/NetUtils.thy ===== *)
theory NetUtils
  imports StringUtils
begin

text \<open>
  Addresses of the host and of connections (\<^verbatim>\<open>src/src/netUtils.cpp\<close>).  What the kernel answers is a
  parameter: whether a socket can be made, the address and the hardware address of an interface, the host
  name, and the addresses of a socket's ends (\<^const>\<open>None\<close> when the call fails and leaves its result unset).
\<close>

record net_kernel =
  can_socket :: bool
  if_addr :: "string \<Rightarrow> u8 list option"
  if_hwaddr :: "string \<Rightarrow> u8 list option"
  host_name :: string
  peer_name :: "int \<Rightarrow> u8 list option"
  sock_name :: "int \<Rightarrow> u8 list option"

definition inet_ntoa :: "u8 list \<Rightarrow> string" where "inet_ntoa a = dotted (map unat a)"

text \<open>\<^verbatim>\<open>strncpy\<close> into the 16 bytes of an interface name.\<close>

definition ifr_name :: "string \<Rightarrow> string" where "ifr_name netif = take 15 (c_str netif)"

text \<open>The address, and how many sockets the call leaves open.\<close>

definition GetLocalIp :: "net_kernel \<Rightarrow> string \<Rightarrow> string \<times> nat" where
  "GetLocalIp k netif =
     (if \<not> can_socket k then ([], 0)
      else case if_addr k (ifr_name netif) of None \<Rightarrow> ([], 1) | Some a \<Rightarrow> (inet_ntoa a, 0))"

definition GetLocalMac :: "net_kernel \<Rightarrow> string \<Rightarrow> string \<times> nat" where
  "GetLocalMac k netif =
     (if \<not> can_socket k then ([], 0)
      else case if_hwaddr k (ifr_name netif) of
             None \<Rightarrow> ([], 0)
           | Some a \<Rightarrow> (hex2 (a ! 0) @ '':'' @ hex2 (a ! 1) @ '':'' @ hex2 (a ! 2) @ '':'' @ hex2 (a ! 3) @ '':'' @
                        hex2 (a ! 4) @ '':'' @ hex2 (a ! 5), 0))"

definition get_hostname :: "net_kernel \<Rightarrow> string" where
  "get_hostname k = c_str (take 256 (host_name k))"

definition get_remove_ip_by_socket :: "net_kernel \<Rightarrow> int \<Rightarrow> string option" where
  "get_remove_ip_by_socket k fd = (if fd \<le> 0 then Some ''0.0.0.0'' else map_option inet_ntoa (peer_name k fd))"

definition get_local_ip_by_socket :: "net_kernel \<Rightarrow> int \<Rightarrow> string option" where
  "get_local_ip_by_socket k fd = (if fd \<le> 0 then Some ''0.0.0.0'' else map_option inet_ntoa (sock_name k fd))"

text \<open>The addresses are addresses for \<^verbatim>\<open>IsIpAddress\<close>; a missing interface leaves a socket open.\<close>

lemma inet_ntoa_address:
  assumes "length a = 4"
  shows "IsIpAddress (inet_ntoa a)"
proof -
  obtain w x y z where a: "a = [w, x, y, z]" using assms by (auto simp: length_Suc_conv numeral_eq_Suc)
  have l: "unat b < 2 ^ 31 \<and> unat b \<le> 255" for b :: u8 using unsigned_less [of b, where 'a = nat] by simp
  have "inet_ntoa a = dec (unat w) @ ''.'' @ dec (unat x) @ ''.'' @ dec (unat y) @ ''.'' @ dec (unat z)"
    by (simp add: a inet_ntoa_def dotted_def)
  then show ?thesis using IsIpAddress_dotted_quad [of "unat w" "unat x" "unat y" "unat z"] l by simp
qed

lemma local_ip_address:
  assumes "fst (GetLocalIp k netif) \<noteq> []" "\<And>n a. if_addr k n = Some a \<Longrightarrow> length a = 4"
  shows "IsIpAddress (fst (GetLocalIp k netif)) \<and> snd (GetLocalIp k netif) = 0"
  using assms inet_ntoa_address by (auto simp: GetLocalIp_def split: if_splits option.splits)

lemma local_ip_leak: "can_socket k \<Longrightarrow> if_addr k (ifr_name netif) = None \<Longrightarrow> GetLocalIp k netif = ([], 1)"
  by (simp add: GetLocalIp_def)

end
