(* ===== verification/Spec2Isabelle.thy ===== *)
theory Spec2Isabelle
  imports FrsRoundTrip FrsUploads FrsDownloads LogMsg Http_Pool NetUtils
begin

text \<open>
  Verification of the frs file-resource server.

  The program keeps files of applications in a local cache (\<^verbatim>\<open>/app/run/frs/dat/fileCache\<close>) and copies them to a
  Ceph object store.  Clients upload, download, describe and delete files over HTTP; the HTTP
  server is the single-header library \<^verbatim>\<open>src/src/httplib.h\<close> that is part of the repository.

  Parts of the program and their theories, from the bottom to the top:

  \<^item> \<open>Frs_Prelude\<close>: strings as the C++ library has them (searching, \<^verbatim>\<open>substr\<close>, C strings, character classes),
    numerals, splitting into fields, and the lemmas on them that the rest shares.
  \<^item> \<open>Md5\<close>: \<^verbatim>\<open>md5.cpp\<close>.  The context is a record, words are 32 bits wide; shown equal to RFC 1321 for any
    sequence of updates.
  \<^item> \<open>StringUtils\<close>: \<^verbatim>\<open>stringUtils.cpp\<close>, with the kernel's table of the lock descriptors of all processes, \<^verbatim>\<open>popen\<close>,
    \<^verbatim>\<open>iconv\<close>, jsoncpp and the clock as parameters.
  \<^item> \<open>NetUtils\<close>: \<^verbatim>\<open>netUtils.cpp\<close> over the answers of the kernel.
  \<^item> \<open>FileUtils\<close>: \<^verbatim>\<open>fileUtils.cpp\<close> over a tree of directories and files with POSIX path resolution.  The interface
    \<open>file_store\<close> (write, append, move, remove over keys) is interpreted on the helpers as \<open>disk\<close>; every
    helper keeps the tree well-formed.
  \<^item> \<open>LogMsg\<close>: \<^verbatim>\<open>logMsg.cpp\<close>, the rotating log and error files; shown to refine a bounded queue of texts and to
    stay within its space.
  \<^item> \<open>Http_Codec\<close>, \<open>Http_Types\<close>, \<open>Http_Stream\<close>: the codecs, the ordered multimaps (\<open>key_order\<close>), requests and
    responses, and the streams of \<^verbatim>\<open>httplib.h\<close>.  A socket is the list of segments still to arrive, how the input ends,
    and what was sent; \<open>byte_source\<close>, \<open>line_source\<close> and \<open>byte_sink\<close> are the interfaces of its two directions,
    interpreted on sockets and buffers.  The chunked and plain transfers are shown to be inverse.
  \<^item> \<open>Http_Multipart\<close>, \<open>Http_Ranges\<close>: query strings, range headers and arithmetic at 64 bits, and the incremental
    multipart parser, whose loop is a partial function that is shown to return.
  \<^item> \<open>Http_Routing\<close>, \<open>Http_Server\<close>: route patterns, the server with its handler tables and settings, one
    request from its line to its response, and the keep-alive loop.  Handlers are functions from request, response and
    world to an outcome (a result, an exception, undefined behaviour, or no return).
  \<^item> \<open>Http_Pool\<close>: the thread pool and the accept loop, as a step relation of the listening thread and the workers.
  \<^item> \<open>S3Client\<close>: \<^verbatim>\<open>ghts3client.cpp\<close> over a record of the SDK calls it makes; the laws of the service are the
    predicate \<open>s3_service_ok\<close>, which an in-memory service satisfies.
  \<^item> \<open>FileTransfer\<close>: the handlers of \<^verbatim>\<open>transfer.cpp\<close> and \<^verbatim>\<open>httpUtils.cpp\<close> on the world of cache and store.
    \<open>upload_reader\<close> is what an upload expects of the reader of its body, interpreted on the server's reader.
  \<^item> \<open>FrsUploads\<close>: form uploads that run at the same time, cut into steps at their system calls; the steps
    refine the handler, uploads of different files are independent under any schedule, and two uploads of
    one name are not.
  \<^item> \<open>FrsDownloads\<close>: downloads of files that come and go meanwhile; a client gets all of the file, or
    notices that it was cut.
  \<^item> \<open>FrsMain\<close>: \<^verbatim>\<open>main.cpp\<close>, its routes, error handler, start-up, and the rounds of the storage thread.
  \<^item> \<open>FrsExchange\<close>: whole exchanges, from the bytes of a request on a connection through \<^verbatim>\<open>process_request\<close>,
    routing and handler to the bytes of the response.
  \<^item> \<open>Http_Client\<close>: the library's client (\<^verbatim>\<open>ClientImpl\<close>) without TLS: its settings and socket, the headers it adds, the
    response line and body, proxies, redirects to the same or another host, and the methods.  Dialling and closing are
    the record \<open>network\<close>.  Every call returns, and opens a bounded number of connections.
  \<^item> \<open>FrsClient\<close>, \<open>FrsRoundTrip\<close>: that client against the program: what it sends is what the server parses, and what the
    server answers is what it returns, for a download, for a posted form, and for both in a row.

  How the parts interact.  \<^verbatim>\<open>listen_internal\<close> hands accepted sockets to workers; a worker runs
  \<^verbatim>\<open>process_and_close_socket\<close>, which calls \<^verbatim>\<open>process_request\<close> for each request; this reads line and headers, routes by
  the path patterns, calls the handler with the world and writes the response.  Uploads read the body themselves
  through the content reader, which runs the multipart parser on pieces of the connection; downloads answer with a
  provider that the chunked writer runs after the headers.  The storage thread shares only the cache and the store.

  What the lemmas show.  The groups of each theory go from the behaviour of single operations to the
  properties named in the manifest: an upload stores exactly the content whose digest is its name and refuses a name that is
  taken, also when seen from the bytes on the connection; a download delivers exactly the file, however the bytes are cut; storage rounds
  copy every file that the store does not have and a deleted file comes back from the store; paths bind parameters exactly; accepted connections
  are served once each and the shutdown ends; uploads of different names do not disturb each other, and a download
  that a deletion cuts is noticed by its client; a file that the library's client posts and asks for again comes back
  byte for byte; that client returns whatever a server answers, after at most 21 connections; parsers return, codecs are inverse, arithmetic stays in its bounds.
  Where the code does not do what it means to, the theorems state what it does: an octet-stream
  upload keeps its last piece only, two uploads of one name share a temporary file, a HEAD response carries no metadata, a missing cache directory fails a
  download, positions of a range past the end of the content are neither clamped nor refused, a component \<^verbatim>\<open>..\<close> followed by
  a NUL passes the check of paths, names in a form are not escaped, a redirect with a huge port throws out of the client.

  Bounds.  Machine integers have their width (\<open>u8\<close>, \<open>u32\<close>, \<open>u64\<close>, and \<open>wrap_int\<close> for \<^verbatim>\<open>int\<close>).  No
  definition uses fuel: loops are structural, have a measure, or are partial functions whose
  return is a theorem.  In the theorems on exchanges requests and answers arrive in any segments, a segment being
  what one receive returns, with one restriction: the opening delimiter of a form arrives in one piece, since the parser
  loses a delimiter that is cut.  The request heads of the client are at most as long as the 4096 bytes of the read buffer.

  The documents.  The interface design document under \<^verbatim>\<open>src/Document\<close> lists other status codes than the code
  sends: 401 for a file that exists and for a digest that is not the name, where uploads answer 400; 404 for a file that
  does not exist, where downloads answer 400; 400 with a JSON result for a path that does not exist, where the
  server answers 404 without a body.  The theorems state what the code does; the manifest lists each disagreement.

  Not modelled: TLS, digest authentication and compressors (not compiled in), the wrapper \<^verbatim>\<open>Client\<close>, which forwards
  every call, the client's form with provider items (a closure with state of its own), loggers, socket set-up and name
  resolution, regular expressions of routes (a parameter, used by one route), the AWS SDK and jsoncpp (parameters), the
  code under \<^verbatim>\<open>#if 0\<close> and \<^verbatim>\<open>NON_USING\<close>, time-outs other than as the end of the input, and the interleaving of
  handlers other than form uploads and downloads: outside \<open>FrsUploads\<close> and \<open>FrsDownloads\<close> a handler is one step on the world.
\<close>

end
